(* ===== verification/Prelude.thy ===== *)
theory Prelude
  imports Main "HOL-Library.Word" "HOL-Library.State_Monad"
begin

text \<open>
  Shared vocabulary of the driver models: names of the machine types, the error numbers the
  drivers return, the bit and byte facts used by several components, and the lemma collections
  that carry the component proofs.

  \<^item> \<open>u8\<close>, \<open>u16\<close>, \<open>u32\<close>: C's \<open>unsigned char\<close>, \<open>unsigned short\<close> and the 32-bit \<open>unsigned int\<close>,
    \<open>unsigned long\<close> of ARM; \<open>ptr\<close> is a machine address and \<open>NULL\<close> is 0;
  \<^item> \<open>errno\<close>: a C result \<open>-EINVAL\<close> is \<open>Inl EINVAL\<close>, a result \<open>n \<ge> 0\<close> is \<open>Inr n\<close>;
  \<^item> \<open>le32\<close>: the \<open>int\<close> that four bytes of memory hold on the little-endian ARM;
  \<^item> \<open>drop_first\<close>: removal of the first element with a property.
\<close>

unbundle bit_operations_syntax

type_synonym u8 = "8 word"
type_synonym u16 = "16 word"
type_synonym u32 = "32 word"
type_synonym ptr = "32 word"

abbreviation NULL :: ptr where
  "NULL \<equiv> 0"

datatype errno = EINVAL | ENOMEM | EIO | ENOENT | ENXIO | EBUSY | EAGAIN | ENODEV | EFAULT
  | ERESTARTSYS | ENOTTY

type_synonym c_int = "errno + nat"

named_theorems bit_field \<open>bit-level facts about masked updates of registers\<close>
named_theorems driver_defs \<open>definitions of driver code, unfolded to run it symbolically\<close>

section \<open>Bits\<close>

lemma bit_set_mask [bit_field]:
  fixes w m :: "'a::len word"
  shows "bit (w OR m) i \<longleftrightarrow> bit w i \<or> bit m i"
  by (simp add: bit_or_iff)

lemma bit_clear_mask [bit_field]:
  fixes w m :: "'a::len word"
  assumes "i < LENGTH('a)"
  shows "bit (w AND NOT m) i \<longleftrightarrow> bit w i \<and> \<not> bit m i"
  using assms by (auto simp: bit_and_iff bit_not_iff)

lemma clear_then_set:
  fixes w m f :: "'a::len word"
  shows "(w AND NOT m OR f) AND NOT m = (w AND NOT m) OR (f AND NOT m)"
  by (rule bit_word_eqI) (auto simp: bit_and_iff bit_or_iff bit_not_iff)

lemma clear_set_idem:
  fixes w m f :: "'a::len word"
  shows "(w AND NOT m OR f) AND NOT m OR f = w AND NOT m OR f"
  by (rule bit_word_eqI) (auto simp: bit_and_iff bit_or_iff bit_not_iff)

lemma bit_push_bit_word:
  fixes w :: "'a::len word"
  shows "bit (push_bit n w) i \<longleftrightarrow> n \<le> i \<and> i < LENGTH('a) \<and> bit w (i - n)"
  by (auto simp: bit_push_bit_iff)

section \<open>Bytes\<close>

fun le_bytes :: "u8 list \<Rightarrow> u32" where
  "le_bytes [] = 0"
| "le_bytes (b # bs) = ucast b OR push_bit 8 (le_bytes bs)"

definition le32 :: "u8 list \<Rightarrow> u32" where
  "le32 bs = le_bytes (take 4 bs)"

definition bytes32 :: "u32 \<Rightarrow> u8 list" where
  "bytes32 w = [ucast w, ucast (drop_bit 8 w), ucast (drop_bit 16 w), ucast (drop_bit 24 w)]"

lemma length_bytes32 [simp]: "length (bytes32 w) = 4"
  by (simp add: bytes32_def)

lemma le32_bytes32 [simp]: "le32 (bytes32 w) = w"
proof (rule bit_word_eqI)
  fix n
  assume "n < LENGTH(32)"
  then show "bit (le32 (bytes32 w)) n \<longleftrightarrow> bit w n"
    by (cases "24 \<le> n"; cases "16 \<le> n"; cases "8 \<le> n")
      (auto simp: le32_def bytes32_def bit_or_iff bit_push_bit_iff bit_drop_bit_eq bit_ucast_iff)
qed

lemma le32_bytes32_append [simp]: "le32 (bytes32 w @ xs) = w"
proof -
  have "le32 (bytes32 w @ xs) = le32 (bytes32 w)" by (simp add: le32_def)
  then show ?thesis by simp
qed

lemma take_bytes32 [simp]: "take 4 (bytes32 w) = bytes32 w"
  by simp

section \<open>Lists\<close>

fun drop_first :: "('a \<Rightarrow> bool) \<Rightarrow> 'a list \<Rightarrow> 'a list" where
  "drop_first P [] = []"
| "drop_first P (x # xs) = (if P x then xs else x # drop_first P xs)"

lemma drop_first_none [simp]: "(\<forall>x \<in> set xs. \<not> P x) \<Longrightarrow> drop_first P xs = xs"
  by (induction xs) auto

lemma set_drop_first: "set (drop_first P xs) \<subseteq> set xs"
  by (induction xs) auto

lemma length_drop_first:
  "length (drop_first P xs) = (if \<exists>x \<in> set xs. P x then length xs - 1 else length xs)"
proof (induction xs)
  case (Cons y ys)
  have "x \<in> set ys \<Longrightarrow> Suc (length ys - 1) = length ys" for x
    by (cases ys) auto
  with Cons show ?case by auto
qed simp

lemma drop_first_append:
  "drop_first P (xs @ ys) =
     (if \<exists>x \<in> set xs. P x then drop_first P xs @ ys else xs @ drop_first P ys)"
  by (induction xs) auto

definition overwrite :: "'a list \<Rightarrow> nat \<Rightarrow> 'a list \<Rightarrow> 'a list" where
  "overwrite xs off ys = take off xs @ ys @ drop (off + length ys) xs"

lemma length_overwrite [simp]:
  "off + length ys \<le> length xs \<Longrightarrow> length (overwrite xs off ys) = length xs"
  by (simp add: overwrite_def)

lemma nth_overwrite:
  assumes "off + length ys \<le> length xs" and "i < length xs"
  shows "overwrite xs off ys ! i =
    (if off \<le> i \<and> i < off + length ys then ys ! (i - off) else xs ! i)"
  using assms by (auto simp: overwrite_def nth_append min_def)

lemma overwrite_Nil [simp]: "overwrite xs off [] = xs"
  by (simp add: overwrite_def)

lemma overwrite_update:
  "i < length xs \<Longrightarrow> overwrite (xs[i := v]) (Suc i) ys = overwrite xs i (v # ys)"
  by (simp add: overwrite_def take_Suc_conv_app_nth)

lemma slice_overwrite:
  assumes "off + length ys \<le> length xs"
  shows "take (length ys) (drop off (overwrite xs off ys)) = ys"
  using assms by (simp add: overwrite_def)

section \<open>The state monad\<close>

lemma run_state_if [simp]:
  "run_state (if b then m else n) s = (if b then run_state m s else run_state n s)"
  by simp

lemma run_state_case_option [simp]:
  "run_state (case x of None \<Rightarrow> m | Some y \<Rightarrow> f y) s =
    (case x of None \<Rightarrow> run_state m s | Some y \<Rightarrow> run_state (f y) s)"
  by (simp split: option.split)

lemma run_state_let [simp]: "run_state (let x = t in f x) s = (let x = t in run_state (f x) s)"
  by simp

definition gets :: "('s \<Rightarrow> 'a) \<Rightarrow> ('s, 'a) state" where
  "gets f = State (\<lambda>s. (f s, s))"

lemma run_gets [simp]: "run_state (gets f) s = (f s, s)"
  by (simp add: gets_def)

fun for_each :: "('x \<Rightarrow> ('s, unit) state) \<Rightarrow> 'x list \<Rightarrow> ('s, unit) state" where
  "for_each f [] = State_Monad.return ()"
| "for_each f (x # xs) = do { f x; for_each f xs }"

lemma for_each_append:
  "run_state (for_each f (xs @ ys)) s = run_state (for_each f ys) (snd (run_state (for_each f xs) s))"
  by (induction xs arbitrary: s) (auto split: prod.split)

end
