(* ===== verification/Kernel.thy ===== *)
theory Kernel
  imports Prelude "HOL-Library.Multiset"
begin

text \<open>
  The interface between the drivers and the Linux 2.6.22 kernel. The kernel itself is not part
  of the repository: what a kernel function answers is a parameter (the record \<open>kenv\<close>), what
  the driver asks of it is an entry \<open>kcall\<close> of the call trace that the driver state carries.

  \<^item> \<open>kstate\<close>: the part of the state every driver shares, namely the trace of kernel calls and
    register writes, the memory-mapped registers by virtual address, and \<open>kfault\<close>, the fault that
    stopped the driver. Driver states extend this record.
  \<^item> \<open>call\<close>, \<open>load\<close>, \<open>store\<close>, \<open>upd\<close>, \<open>panic\<close>: the primitive actions of driver code in
    the state monad. Each is without effect once a fault has happened, so a fault ends the
    execution as a kernel oops does; \<open>exec\<close> reads the outcome as a sum.
  \<^item> \<open>acquires\<close>, \<open>releases\<close>, \<open>account\<close>: the pairing of acquiring and releasing calls that
    the kernel documents, as an accounting over traces: \<open>account R t\<close> is the list of resources held
    after \<open>t\<close>, or \<open>None\<close> if \<open>t\<close> releases something that is not held.
\<close>

section \<open>Kernel calls\<close>

datatype irq_line = IRQ_EINT0 | IRQ_EINT2 | IRQ_EINT11 | IRQ_TC | IRQ_ADC | IRQ_NUM nat

datatype evtype = EV_KEY | EV_REP | EV_ABS

datatype key = KEY_L | KEY_S | KEY_ENTER | BTN_TOUCH

datatype axis = ABS_X | ABS_Y | ABS_PRESSURE

datatype input_report = KeyEvent key int | AbsEvent axis int | SynReport

text \<open>Calls are grouped by kernel subsystem; the last argument is what the kernel answered.\<close>

datatype map_call = Ioremap u32 nat ptr | Iounmap ptr | WriteReg ptr u32

datatype mem_call = Kzalloc nat ptr | Kfree ptr
  | DmaAlloc nat ptr u32 | DmaFree nat ptr u32

datatype chr_call = RegisterChrdev string int | UnregisterChrdev int
  | ClassCreate string ptr | ClassDestroy ptr
  | ClassDeviceCreate ptr int string ptr | ClassDeviceUnregister ptr | ClassDeviceDestroy ptr int

datatype clk_call = ClkGet string ptr | ClkEnable ptr | ClkDisable ptr | ClkPut ptr

datatype irq_call = RequestIrq irq_line ptr int | FreeIrq irq_line ptr

datatype timer_call = InitTimer | AddTimer | ModTimer nat | DelTimer

datatype wait_call = WakeUp | PollWait | FasyncHelper bool | KillFasync

datatype input_call = InputAllocate ptr | InputRegister ptr | InputUnregister ptr
  | InputFree ptr | SetEvbit evtype | SetKeybit key | SetAbsParams axis int int
  | Report input_report

datatype mtd_call = NandScan ptr int | AddPartitions ptr nat | DelPartitions ptr
  | NandRelease ptr | DoMapProbe string ptr ptr | MapDestroy ptr | SimpleMapInit ptr

datatype fb_call = FramebufferAlloc ptr | FramebufferRelease ptr
  | RegisterFramebuffer ptr int | UnregisterFramebuffer ptr
  | RequestMemRegion bool | ReleaseMemRegion | DeviceCreateFile

datatype blk_call = AllocDisk ptr | PutDisk ptr | AddDisk ptr | DelGendisk ptr
  | BlkQueue ptr | BlkCleanupQueue ptr | RegisterBlkdev int int | UnregisterBlkdev int
  | InvalidateBdev ptr | BlkdevPut ptr

datatype usb_call = UsbBufferAlloc nat ptr u32 | UsbBufferFree nat ptr u32
  | UsbAllocUrb ptr | UsbFreeUrb ptr | UsbSubmitUrb ptr int | UsbKillUrb ptr
  | UsbRegister int | UsbDeregister | UsbGetDev | UsbPutDev | UsbAutopmGet bool | UsbAutopmPut
  | UsbRegisterDev bool | UsbDeregisterDev

datatype plat_call = DriverRegister string int | DriverUnregister string
  | DeviceRegister string | DeviceUnregister string

datatype kcall = KMap map_call | KMem mem_call | KChr chr_call | KClk clk_call | KIrq irq_call
  | KTimer timer_call | KWait wait_call | KInput input_call | KMtd mtd_call | KFb fb_call
  | KBlk blk_call | KUsb usb_call | KPlat plat_call

section \<open>What the kernel answers\<close>

text \<open>
  The answers are functions of the arguments of the call. Where a driver makes the same call
  several times (one disk per minor number), the first argument is the number of the call.
\<close>

record kenv =
  e_IS_ERR :: "ptr \<Rightarrow> bool"
  e_ioremap :: "u32 \<Rightarrow> nat \<Rightarrow> ptr"
  e_kzalloc :: "nat \<Rightarrow> ptr"
  e_register_chrdev :: "string \<Rightarrow> int"
  e_class_create :: "string \<Rightarrow> ptr"
  e_class_device_create :: "ptr \<Rightarrow> int \<Rightarrow> string \<Rightarrow> ptr"
  e_clk_get :: "string \<Rightarrow> ptr"
  e_request_irq :: "irq_line \<Rightarrow> int"
  e_input_allocate_device :: ptr
  e_nand_scan :: "ptr \<Rightarrow> int"
  e_do_map_probe :: "string \<Rightarrow> ptr \<Rightarrow> ptr"
  e_framebuffer_alloc :: ptr
  e_register_framebuffer :: "ptr \<Rightarrow> int"
  e_dma_alloc :: "nat \<Rightarrow> ptr \<times> u32"
  e_request_mem_region :: bool
  e_alloc_disk :: "nat \<Rightarrow> ptr"
  e_blk_queue :: "nat \<Rightarrow> ptr"
  e_register_blkdev :: "int \<Rightarrow> int"
  e_usb_buffer_alloc :: "nat \<Rightarrow> ptr \<times> u32"
  e_usb_alloc_urb :: ptr
  e_usb_submit_urb :: "ptr \<Rightarrow> int"
  e_usb_register :: int
  e_platform_driver_register :: int

text \<open>A kernel in which every request succeeds, for concrete runs.\<close>

definition sample_env :: kenv where
  "sample_env = \<lparr>e_IS_ERR = (\<lambda>p. p \<ge> 0xfffff001), e_ioremap = (\<lambda>p n. p + 0x98000000),
     e_kzalloc = (\<lambda>n. 0xc1000000), e_register_chrdev = (\<lambda>s. 252),
     e_class_create = (\<lambda>s. 0xc2000000), e_class_device_create = (\<lambda>c m s. 0xc3000000),
     e_clk_get = (\<lambda>s. 0xc0300000), e_request_irq = (\<lambda>i. 0), e_input_allocate_device = 0xc4000000,
     e_nand_scan = (\<lambda>p. 0), e_do_map_probe = (\<lambda>s m. 0xc5000000),
     e_framebuffer_alloc = 0xc6000000, e_register_framebuffer = (\<lambda>p. 0),
     e_dma_alloc = (\<lambda>n. (0xffc00000, 0x33c00000)), e_request_mem_region = True,
     e_alloc_disk = (\<lambda>i. 0xc7000000 + of_nat i), e_blk_queue = (\<lambda>i. 0xc8000000 + of_nat i),
     e_register_blkdev = (\<lambda>m. if m = 0 then 254 else 0),
     e_usb_buffer_alloc = (\<lambda>n. (0xc9000000, 0x33000000)), e_usb_alloc_urb = 0xca000000,
     e_usb_submit_urb = (\<lambda>p. 0), e_usb_register = 0, e_platform_driver_register = 0\<rparr>"

section \<open>Driver state and primitive actions\<close>

datatype fault = NullDeref | OutOfBounds | StackSmash | UseAfterFree

record kstate =
  ktrace :: "kcall list"
  kmem :: "ptr \<Rightarrow> u32"
  kfault :: "fault option"

definition upd :: "('a kstate_scheme \<Rightarrow> 'a kstate_scheme) \<Rightarrow> ('a kstate_scheme, unit) state" where
  "upd f = State (\<lambda>s. ((), if kfault s = None then f s else s))"

definition call :: "kcall \<Rightarrow> ('a kstate_scheme, unit) state" where
  "call c = upd (\<lambda>s. s\<lparr>ktrace := ktrace s @ [c]\<rparr>)"

definition panic :: "fault \<Rightarrow> ('a kstate_scheme, unit) state" where
  "panic f = upd (\<lambda>s. s\<lparr>kfault := Some f\<rparr>)"

definition load :: "ptr \<Rightarrow> ('a kstate_scheme, u32) state" where
  "load p = State (\<lambda>s. (kmem s p,
     if kfault s = None \<and> p = NULL then s\<lparr>kfault := Some NullDeref\<rparr> else s))"

definition store :: "ptr \<Rightarrow> u32 \<Rightarrow> ('a kstate_scheme, unit) state" where
  "store p v = upd (\<lambda>s. if p = NULL then s\<lparr>kfault := Some NullDeref\<rparr>
     else s\<lparr>kmem := (kmem s)(p := v), ktrace := ktrace s @ [KMap (WriteReg p v)]\<rparr>)"

definition modify :: "ptr \<Rightarrow> (u32 \<Rightarrow> u32) \<Rightarrow> ('a kstate_scheme, unit) state" where
  "modify p f = do { v \<leftarrow> load p; store p (f v) }"

text \<open>Access to a field of the structure at \<open>p\<close>.\<close>

definition deref :: "ptr \<Rightarrow> ('a kstate_scheme, unit) state" where
  "deref p = (if p = NULL then panic NullDeref else State_Monad.return ())"

definition exec :: "('a kstate_scheme, 'b) state \<Rightarrow> 'a kstate_scheme \<Rightarrow> fault + 'b \<times> 'a kstate_scheme"
  where
  "exec m s = (case run_state m s of (r, s') \<Rightarrow>
     (case kfault s' of None \<Rightarrow> Inr (r, s') | Some f \<Rightarrow> Inl f))"

lemma run_upd [simp]: "kfault s = None \<Longrightarrow> run_state (upd f) s = ((), f s)"
  by (simp add: upd_def)

lemma run_call [simp]:
  "kfault s = None \<Longrightarrow> run_state (call c) s = ((), s\<lparr>ktrace := ktrace s @ [c]\<rparr>)"
  by (simp add: call_def)

lemma run_panic [simp]: "kfault s = None \<Longrightarrow> run_state (panic f) s = ((), s\<lparr>kfault := Some f\<rparr>)"
  by (simp add: panic_def)

lemma run_load [simp]: "p \<noteq> NULL \<Longrightarrow> run_state (load p) s = (kmem s p, s)"
  by (simp add: load_def)

lemma run_load_NULL [simp]:
  "kfault s = None \<Longrightarrow> run_state (load NULL) s = (kmem s NULL, s\<lparr>kfault := Some NullDeref\<rparr>)"
  by (simp add: load_def)

lemma run_store [simp]:
  "kfault s = None \<Longrightarrow> p \<noteq> NULL \<Longrightarrow> run_state (store p v) s =
     ((), s\<lparr>kmem := (kmem s)(p := v), ktrace := ktrace s @ [KMap (WriteReg p v)]\<rparr>)"
  by (simp add: store_def)

lemma run_modify [simp]:
  "kfault s = None \<Longrightarrow> p \<noteq> NULL \<Longrightarrow> run_state (modify p f) s =
     ((), s\<lparr>kmem := (kmem s)(p := f (kmem s p)), ktrace := ktrace s @ [KMap (WriteReg p (f (kmem s p)))]\<rparr>)"
  by (simp add: modify_def)

lemma run_modify_NULL [simp]:
  "kfault s = None \<Longrightarrow> run_state (modify NULL f) s = ((), s\<lparr>kfault := Some NullDeref\<rparr>)"
  by (simp add: modify_def store_def upd_def)

lemma run_deref [simp]:
  "kfault s = None \<Longrightarrow> run_state (deref p) s =
     ((), if p = NULL then s\<lparr>kfault := Some NullDeref\<rparr> else s)"
  by (simp add: deref_def)

text \<open>Nothing happens after a fault.\<close>

lemma run_faulted [simp]:
  assumes "kfault s = Some e"
  shows "run_state (upd g) s = ((), s)" and "run_state (call c) s = ((), s)"
    and "run_state (store p v) s = ((), s)" and "run_state (modify p f) s = ((), s)"
    and "run_state (panic e') s = ((), s)" and "run_state (load p) s = (kmem s p, s)"
    and "run_state (deref p) s = ((), s)"
  using assms by (simp_all add: deref_def upd_def call_def store_def modify_def panic_def load_def)

lemma exec_Inr_iff:
  "exec m s = Inr (r, s') \<longleftrightarrow> run_state m s = (r, s') \<and> kfault s' = None"
  by (auto simp: exec_def split: prod.splits option.splits)

lemma exec_Inl_iff: "exec m s = Inl e \<longleftrightarrow> kfault (snd (run_state m s)) = Some e"
  by (auto simp: exec_def split: prod.splits option.splits)

section \<open>Calls with an answer\<close>

definition ask :: "'b \<Rightarrow> kcall \<Rightarrow> ('a kstate_scheme, 'b) state" where
  "ask r c = do { call c; State_Monad.return r }"

lemma run_ask [simp]:
  "kfault s = None \<Longrightarrow> run_state (ask r c) s = (r, s\<lparr>ktrace := ktrace s @ [c]\<rparr>)"
  by (simp add: ask_def)

lemma run_ask_faulted [simp]: "kfault s = Some e \<Longrightarrow> run_state (ask r c) s = (r, s)"
  by (simp add: ask_def)

definition ioremap :: "kenv \<Rightarrow> u32 \<Rightarrow> nat \<Rightarrow> ('a kstate_scheme, ptr) state" where
  "ioremap E p n = ask (e_ioremap E p n) (KMap (Ioremap p n (e_ioremap E p n)))"

definition kzalloc :: "kenv \<Rightarrow> nat \<Rightarrow> ('a kstate_scheme, ptr) state" where
  "kzalloc E n = ask (e_kzalloc E n) (KMem (Kzalloc n (e_kzalloc E n)))"

definition register_chrdev :: "kenv \<Rightarrow> string \<Rightarrow> ('a kstate_scheme, int) state" where
  "register_chrdev E n = ask (e_register_chrdev E n) (KChr (RegisterChrdev n (e_register_chrdev E n)))"

definition class_create :: "kenv \<Rightarrow> string \<Rightarrow> ('a kstate_scheme, ptr) state" where
  "class_create E n = ask (e_class_create E n) (KChr (ClassCreate n (e_class_create E n)))"

definition class_device_create ::
  "kenv \<Rightarrow> ptr \<Rightarrow> int \<Rightarrow> string \<Rightarrow> ('a kstate_scheme, ptr) state" where
  "class_device_create E c m n =
     ask (e_class_device_create E c m n) 
       (KChr (ClassDeviceCreate c m n (e_class_device_create E c m n)))"

text \<open>\<open>clk_get\<close> answers an error pointer on failure; the trace records it as NULL.\<close>

definition clk_get :: "kenv \<Rightarrow> string \<Rightarrow> ('a kstate_scheme, ptr) state" where
  "clk_get E n = ask (e_clk_get E n)
     (KClk (ClkGet n (if e_IS_ERR E (e_clk_get E n) then NULL else e_clk_get E n)))"

definition request_irq :: "kenv \<Rightarrow> irq_line \<Rightarrow> ptr \<Rightarrow> ('a kstate_scheme, int) state" where
  "request_irq E i d = ask (e_request_irq E i) (KIrq (RequestIrq i d (e_request_irq E i)))"

definition input_allocate_device :: "kenv \<Rightarrow> ('a kstate_scheme, ptr) state" where
  "input_allocate_device E =
     ask (e_input_allocate_device E) (KInput (InputAllocate (e_input_allocate_device E)))"

definition usb_buffer_alloc :: "kenv \<Rightarrow> nat \<Rightarrow> ('a kstate_scheme, ptr \<times> u32) state" where
  "usb_buffer_alloc E n = ask (e_usb_buffer_alloc E n)
     (KUsb (UsbBufferAlloc n (fst (e_usb_buffer_alloc E n)) (snd (e_usb_buffer_alloc E n))))"

definition usb_alloc_urb :: "kenv \<Rightarrow> ('a kstate_scheme, ptr) state" where
  "usb_alloc_urb E = ask (e_usb_alloc_urb E) (KUsb (UsbAllocUrb (e_usb_alloc_urb E)))"

definition usb_submit_urb :: "kenv \<Rightarrow> ptr \<Rightarrow> ('a kstate_scheme, int) state" where
  "usb_submit_urb E u = ask (e_usb_submit_urb E u) (KUsb (UsbSubmitUrb u (e_usb_submit_urb E u)))"

definition framebuffer_alloc :: "kenv \<Rightarrow> ('a kstate_scheme, ptr) state" where
  "framebuffer_alloc E = ask (e_framebuffer_alloc E) (KFb (FramebufferAlloc (e_framebuffer_alloc E)))"

definition register_framebuffer :: "kenv \<Rightarrow> ptr \<Rightarrow> ('a kstate_scheme, int) state" where
  "register_framebuffer E f =
     ask (e_register_framebuffer E f) (KFb (RegisterFramebuffer f (e_register_framebuffer E f)))"

definition dma_alloc_writecombine :: "kenv \<Rightarrow> nat \<Rightarrow> ('a kstate_scheme, ptr \<times> u32) state" where
  "dma_alloc_writecombine E n = ask (e_dma_alloc E n)
     (KMem (DmaAlloc n (fst (e_dma_alloc E n)) (snd (e_dma_alloc E n))))"

definition nand_scan :: "kenv \<Rightarrow> ptr \<Rightarrow> ('a kstate_scheme, int) state" where
  "nand_scan E m = ask (e_nand_scan E m) (KMtd (NandScan m (e_nand_scan E m)))"

definition do_map_probe :: "kenv \<Rightarrow> string \<Rightarrow> ptr \<Rightarrow> ('a kstate_scheme, ptr) state" where
  "do_map_probe E n m = ask (e_do_map_probe E n m) (KMtd (DoMapProbe n m (e_do_map_probe E n m)))"

lemmas kernel_calls = ioremap_def kzalloc_def register_chrdev_def class_create_def
  class_device_create_def clk_get_def request_irq_def input_allocate_device_def
  usb_buffer_alloc_def usb_alloc_urb_def usb_submit_urb_def
  framebuffer_alloc_def register_framebuffer_def dma_alloc_writecombine_def
  nand_scan_def do_map_probe_def

declare kernel_calls [driver_defs]

section \<open>What user space sees of an input device\<close>

fun input_reports :: "kcall list \<Rightarrow> input_report list" where
  "input_reports [] = []"
| "input_reports (KInput (Report r) # t) = r # input_reports t"
| "input_reports (c # t) = input_reports t"

lemma input_reports_append [simp]: "input_reports (s @ t) = input_reports s @ input_reports t"
  by (induction s rule: input_reports.induct) auto

section \<open>Resource accounting\<close>

datatype resource =
    RMap ptr | RMem ptr | RChrdev int | RClass ptr | RClassDev ptr int ptr
  | RClk ptr | RClkOn ptr | RIrq irq_line ptr | RInput ptr | RInputReg ptr
  | RMtd ptr | RParts ptr | RFb ptr | RFbReg ptr | RDma ptr | RRegion | RDisk ptr | RDiskAdded ptr
  | RQueue ptr | RBlkdev int | RUsbBuf ptr | RUrb ptr | RUsbDriver
  | RUsbDev | RUsbMinor
  | RPlatDriver string | RPlatDevice string

text \<open>What a call that succeeded hands to the driver.\<close>

fun acquires_map :: "map_call \<Rightarrow> resource list" where
  "acquires_map (Ioremap p n r) = (if r = NULL then [] else [RMap r])"
| "acquires_map c = []"

fun acquires_mem :: "mem_call \<Rightarrow> resource list" where
  "acquires_mem (Kzalloc n r) = (if r = NULL then [] else [RMem r])"
| "acquires_mem (DmaAlloc n p d) = (if p = NULL then [] else [RDma p])"
| "acquires_mem c = []"

fun acquires_chr :: "chr_call \<Rightarrow> resource list" where
  "acquires_chr (RegisterChrdev n m) = (if m < 0 then [] else [RChrdev m])"
| "acquires_chr (ClassCreate n c) = [RClass c]"
| "acquires_chr (ClassDeviceCreate c m n d) = [RClassDev c m d]"
| "acquires_chr c = []"

fun acquires_clk :: "clk_call \<Rightarrow> resource list" where
  "acquires_clk (ClkGet n c) = (if c = NULL then [] else [RClk c])"
| "acquires_clk (ClkEnable c) = [RClkOn c]"
| "acquires_clk c = []"

fun acquires_irq :: "irq_call \<Rightarrow> resource list" where
  "acquires_irq (RequestIrq i d r) = (if r = 0 then [RIrq i d] else [])"
| "acquires_irq c = []"

fun acquires_input :: "input_call \<Rightarrow> resource list" where
  "acquires_input (InputAllocate d) = (if d = NULL then [] else [RInput d])"
| "acquires_input (InputRegister d) = [RInputReg d]"
| "acquires_input c = []"

fun acquires_mtd :: "mtd_call \<Rightarrow> resource list" where
  "acquires_mtd (DoMapProbe n m r) = (if r = NULL then [] else [RMtd r])"
| "acquires_mtd (AddPartitions m n) = [RParts m]"
| "acquires_mtd c = []"

fun acquires_fb :: "fb_call \<Rightarrow> resource list" where
  "acquires_fb (FramebufferAlloc f) = (if f = NULL then [] else [RFb f])"
| "acquires_fb (RegisterFramebuffer f r) = (if r < 0 then [] else [RFbReg f])"
| "acquires_fb (RequestMemRegion ok) = (if ok then [RRegion] else [])"
| "acquires_fb c = []"

fun acquires_blk :: "blk_call \<Rightarrow> resource list" where
  "acquires_blk (AllocDisk d) = (if d = NULL then [] else [RDisk d])"
| "acquires_blk (AddDisk d) = [RDiskAdded d]"
| "acquires_blk (BlkQueue q) = (if q = NULL then [] else [RQueue q])"
| "acquires_blk (RegisterBlkdev m r) =
     (if r < 0 then [] else if m = 0 then [RBlkdev r] else if r = 0 then [RBlkdev m] else [])"
| "acquires_blk c = []"

fun acquires_usb :: "usb_call \<Rightarrow> resource list" where
  "acquires_usb (UsbBufferAlloc n p d) = (if p = NULL then [] else [RUsbBuf p])"
| "acquires_usb (UsbAllocUrb u) = (if u = NULL then [] else [RUrb u])"
| "acquires_usb (UsbRegister r) = (if r = 0 then [RUsbDriver] else [])"
| "acquires_usb UsbGetDev = [RUsbDev]"
| "acquires_usb (UsbRegisterDev ok) = (if ok then [RUsbMinor] else [])"
| "acquires_usb c = []"

fun acquires_plat :: "plat_call \<Rightarrow> resource list" where
  "acquires_plat (DriverRegister n r) = (if r = 0 then [RPlatDriver n] else [])"
| "acquires_plat (DeviceRegister n) = [RPlatDevice n]"
| "acquires_plat c = []"

fun acquires :: "kcall \<Rightarrow> resource list" where
  "acquires (KMap c) = acquires_map c"
| "acquires (KMem c) = acquires_mem c"
| "acquires (KChr c) = acquires_chr c"
| "acquires (KClk c) = acquires_clk c"
| "acquires (KIrq c) = acquires_irq c"
| "acquires (KInput c) = acquires_input c"
| "acquires (KMtd c) = acquires_mtd c"
| "acquires (KFb c) = acquires_fb c"
| "acquires (KBlk c) = acquires_blk c"
| "acquires (KUsb c) = acquires_usb c"
| "acquires (KPlat c) = acquires_plat c"
| "acquires (KTimer c) = []"
| "acquires (KWait c) = []"

text \<open>
  What a call gives back, as a predicate one holder of which must be held. Registering an input
  device hands the allocated device over: afterwards \<open>input_unregister_device\<close> drops it, and
  \<open>input_free_device\<close> is only for devices that were never registered.
\<close>

fun releases_map :: "map_call \<Rightarrow> (resource \<Rightarrow> bool) option" where
  "releases_map (Iounmap p) = Some (\<lambda>r. r = RMap p)"
| "releases_map c = None"

fun releases_mem :: "mem_call \<Rightarrow> (resource \<Rightarrow> bool) option" where
  "releases_mem (Kfree p) = (if p = NULL then None else Some (\<lambda>r. r = RMem p))"
| "releases_mem (DmaFree n p d) = Some (\<lambda>r. r = RDma p)"
| "releases_mem c = None"

fun releases_chr :: "chr_call \<Rightarrow> (resource \<Rightarrow> bool) option" where
  "releases_chr (UnregisterChrdev m) = Some (\<lambda>r. r = RChrdev m)"
| "releases_chr (ClassDestroy c) = Some (\<lambda>r. r = RClass c)"
| "releases_chr (ClassDeviceUnregister d) = Some (\<lambda>r. \<exists>c m. r = RClassDev c m d)"
| "releases_chr (ClassDeviceDestroy c m) = Some (\<lambda>r. \<exists>d. r = RClassDev c m d)"
| "releases_chr c = None"

fun releases_clk :: "clk_call \<Rightarrow> (resource \<Rightarrow> bool) option" where
  "releases_clk (ClkPut c) = Some (\<lambda>r. r = RClk c)"
| "releases_clk (ClkDisable c) = Some (\<lambda>r. r = RClkOn c)"
| "releases_clk c = None"

fun releases_irq :: "irq_call \<Rightarrow> (resource \<Rightarrow> bool) option" where
  "releases_irq (FreeIrq i d) = Some (\<lambda>r. r = RIrq i d)"
| "releases_irq c = None"

fun releases_input :: "input_call \<Rightarrow> (resource \<Rightarrow> bool) option" where
  "releases_input (InputRegister d) = Some (\<lambda>r. r = RInput d)"
| "releases_input (InputUnregister d) = Some (\<lambda>r. r = RInputReg d)"
| "releases_input (InputFree d) = Some (\<lambda>r. r = RInput d)"
| "releases_input c = None"

fun releases_mtd :: "mtd_call \<Rightarrow> (resource \<Rightarrow> bool) option" where
  "releases_mtd (MapDestroy m) = Some (\<lambda>r. r = RMtd m)"
| "releases_mtd (DelPartitions m) = Some (\<lambda>r. r = RParts m)"
| "releases_mtd (NandRelease m) = Some (\<lambda>r. r = RParts m)"
| "releases_mtd c = None"

fun releases_fb :: "fb_call \<Rightarrow> (resource \<Rightarrow> bool) option" where
  "releases_fb (FramebufferRelease f) = Some (\<lambda>r. r = RFb f)"
| "releases_fb (UnregisterFramebuffer f) = Some (\<lambda>r. r = RFbReg f)"
| "releases_fb ReleaseMemRegion = Some (\<lambda>r. r = RRegion)"
| "releases_fb c = None"

fun releases_blk :: "blk_call \<Rightarrow> (resource \<Rightarrow> bool) option" where
  "releases_blk (PutDisk d) = Some (\<lambda>r. r = RDisk d)"
| "releases_blk (DelGendisk d) = Some (\<lambda>r. r = RDiskAdded d)"
| "releases_blk (BlkCleanupQueue q) = Some (\<lambda>r. r = RQueue q)"
| "releases_blk (UnregisterBlkdev m) = Some (\<lambda>r. r = RBlkdev m)"
| "releases_blk c = None"

fun releases_usb :: "usb_call \<Rightarrow> (resource \<Rightarrow> bool) option" where
  "releases_usb (UsbBufferFree n p d) = (if p = NULL then None else Some (\<lambda>r. r = RUsbBuf p))"
| "releases_usb (UsbFreeUrb u) = Some (\<lambda>r. r = RUrb u)"
| "releases_usb UsbDeregister = Some (\<lambda>r. r = RUsbDriver)"
| "releases_usb UsbPutDev = Some (\<lambda>r. r = RUsbDev)"
| "releases_usb UsbDeregisterDev = Some (\<lambda>r. r = RUsbMinor)"
| "releases_usb c = None"

fun releases_plat :: "plat_call \<Rightarrow> (resource \<Rightarrow> bool) option" where
  "releases_plat (DriverUnregister n) = Some (\<lambda>r. r = RPlatDriver n)"
| "releases_plat (DeviceUnregister n) = Some (\<lambda>r. r = RPlatDevice n)"
| "releases_plat c = None"

fun releases :: "kcall \<Rightarrow> (resource \<Rightarrow> bool) option" where
  "releases (KMap c) = releases_map c"
| "releases (KMem c) = releases_mem c"
| "releases (KChr c) = releases_chr c"
| "releases (KClk c) = releases_clk c"
| "releases (KIrq c) = releases_irq c"
| "releases (KInput c) = releases_input c"
| "releases (KMtd c) = releases_mtd c"
| "releases (KFb c) = releases_fb c"
| "releases (KBlk c) = releases_blk c"
| "releases (KUsb c) = releases_usb c"
| "releases (KPlat c) = releases_plat c"
| "releases (KTimer c) = None"
| "releases (KWait c) = None"

fun account1 :: "resource list \<Rightarrow> kcall \<Rightarrow> resource list option" where
  "account1 R c = (case releases c of
     None \<Rightarrow> Some (acquires c @ R)
   | Some P \<Rightarrow> (if list_ex P R then Some (acquires c @ drop_first P R) else None))"

fun account :: "resource list \<Rightarrow> kcall list \<Rightarrow> resource list option" where
  "account R [] = Some R"
| "account R (c # cs) = Option.bind (account1 R c) (\<lambda>R'. account R' cs)"

lemma account_append:
  "account R (xs @ ys) = Option.bind (account R xs) (\<lambda>R'. account R' ys)"
  by (induction xs arbitrary: R) (auto split: Option.bind_splits)

lemma account_neutral:
  "\<forall>c \<in> set cs. acquires c = [] \<and> releases c = None \<Longrightarrow> account R cs = Some R"
  by (induction cs) auto

definition no_leak :: "kcall list \<Rightarrow> bool" where
  "no_leak t \<longleftrightarrow> account [] t = Some []"

text \<open>Releasing by name, up to the order of the resources.\<close>

lemma mset_drop_first: "x \<in> set xs \<Longrightarrow> mset (drop_first (\<lambda>r. r = x) xs) = mset xs - {#x#}"
  by (induction xs) auto

lemma account_release:
  assumes "account R t = Some R'" and "releases c = Some (\<lambda>r. r = x)" and "acquires c = []"
    and "x \<in> set R'"
  shows "account R (t @ [c]) = Some (drop_first (\<lambda>r. r = x) R')"
  using assms by (auto simp: account_append list_ex_iff)

text \<open>\<open>holds t M\<close>: after \<open>t\<close> exactly the resources \<open>M\<close> are held.\<close>

definition holds :: "kcall list \<Rightarrow> resource multiset \<Rightarrow> bool" where
  "holds t M \<longleftrightarrow> (\<exists>R. account [] t = Some R \<and> mset R = M)"

lemma holds_Nil [simp]: "holds [] {#}"
  by (simp add: holds_def)

lemma holds_no_leak: "holds t {#} \<longleftrightarrow> no_leak t"
  by (auto simp: holds_def no_leak_def)

lemma holds_neutral [simp]: "acquires c = [] \<Longrightarrow> releases c = None \<Longrightarrow> holds (t @ [c]) M \<longleftrightarrow> holds t M"
  by (auto simp: holds_def account_append split: bind_splits)

lemma holds_acquire:
  "holds t M \<Longrightarrow> releases c = None \<Longrightarrow> M' = M + mset (acquires c) \<Longrightarrow> holds (t @ [c]) M'"
  by (auto simp: holds_def account_append)

lemma holds_release:
  assumes "holds t (add_mset x M)" and "releases c = Some (\<lambda>r. r = x)" and "acquires c = []"
  shows "holds (t @ [c]) M"
proof -
  obtain R where R: "account [] t = Some R" "mset R = add_mset x M" using assms(1) by (auto simp: holds_def)
  then have "x \<in> set R" by (metis set_mset_mset union_single_eq_member)
  with account_release [OF R(1) assms(2,3)] R(2) show ?thesis
    by (auto simp: holds_def mset_drop_first)
qed

lemma drop_first_cong: "(\<And>y. y \<in> set xs \<Longrightarrow> P y \<longleftrightarrow> Q y) \<Longrightarrow> drop_first P xs = drop_first Q xs"
  by (induction xs) auto

text \<open>Releasing by a predicate that only one of the resources satisfies.\<close>

lemma holds_release_only:
  assumes "holds t (add_mset x M)" and "releases c = Some P" and "acquires c = []"
    and "P x" and "\<forall>y \<in># M. \<not> P y"
  shows "holds (t @ [c]) M"
proof -
  obtain R where R: "account [] t = Some R" "mset R = add_mset x M" using assms(1) by (auto simp: holds_def)
  have set: "set R = insert x (set_mset M)" using R(2) by (metis set_mset_add_mset_insert set_mset_mset)
  have "drop_first P R = drop_first (\<lambda>r. r = x) R"
    using set assms(4,5) by (intro drop_first_cong) auto
  moreover have "list_ex P R" using set assms(4) by (auto simp: list_ex_iff)
  ultimately have "account [] (t @ [c]) = Some (drop_first (\<lambda>r. r = x) R)"
    using R(1) assms(2,3) by (simp add: account_append)
  then show ?thesis using R(2) set by (auto simp: holds_def mset_drop_first)
qed

text \<open>Register writes do not matter for the accounting.\<close>

definition rtrace :: "kcall list \<Rightarrow> kcall list" where
  "rtrace t = filter (\<lambda>c. case c of KMap (WriteReg p v) \<Rightarrow> False | _ \<Rightarrow> True) t"

lemma rtrace_simps [simp]:
  "rtrace [] = []" "rtrace (s @ t) = rtrace s @ rtrace t"
  "rtrace (KMap (WriteReg p v) # t) = rtrace t"
  "rtrace (KMap (Ioremap q n r) # t) = KMap (Ioremap q n r) # rtrace t"
  "rtrace (KMap (Iounmap p) # t) = KMap (Iounmap p) # rtrace t"
  "rtrace (KMem a # t) = KMem a # rtrace t" "rtrace (KFb b # t) = KFb b # rtrace t"
  "rtrace (KClk e # t) = KClk e # rtrace t"
  by (simp_all add: rtrace_def)

lemma account_rtrace: "account R (rtrace t) = account R t"
proof (induction t arbitrary: R)
  case (Cons c t)
  show ?case
  proof (cases "\<exists>p v. c = KMap (WriteReg p v)")
    case False
    then have "rtrace (c # t) = c # rtrace t"
      by (auto simp: rtrace_def split: kcall.splits map_call.splits)
    with Cons show ?thesis by simp
  qed (use Cons in auto)
qed simp

section \<open>Loading and unloading a module\<close>

text \<open>
  What every driver module owes the kernel: a load that fails gives everything back, and so does
  unloading after a load that succeeded. \<open>good\<close> states what the module expects of the kernel beyond
  what it checks.
\<close>

definition module_life :: "('s, c_int) state \<Rightarrow> ('s, unit) state \<Rightarrow> 's \<Rightarrow> 's" where
  "module_life ini fin s0 = (case run_state ini s0 of
     (Inl e, s) \<Rightarrow> s
   | (Inr r, s) \<Rightarrow> snd (run_state fin s))"

locale module_contract =
  fixes ini :: "kenv \<Rightarrow> ('s, c_int) state" and fin :: "('s, unit) state"
    and start :: 's and tr :: "'s \<Rightarrow> kcall list" and good :: "kenv \<Rightarrow> bool"
  assumes load_fails: "good E \<Longrightarrow> run_state (ini E) start = (Inl e, s) \<Longrightarrow> no_leak (tr s)"
    and load_unload: "good E \<Longrightarrow> run_state (ini E) start = (Inr r, s) \<Longrightarrow>
      no_leak (tr (snd (run_state fin s)))"
begin

lemma life_balanced: "good E \<Longrightarrow> no_leak (tr (module_life (ini E) fin start))"
  using load_fails [of E] load_unload [of E]
  by (auto simp: module_life_def split: prod.split sum.split)

end

end
