(* ===== verification/Windows.thy ===== *)
theory Windows
  imports Kernel
begin

text \<open>
  Memory safety of register writes, for all drivers: \<open>writes_inside\<close> checks a trace of kernel calls for
  writes that leave every window mapped at that time; \<open>register_user\<close> is the contract of a driver's
  operations: they write only to the windows the driver relies on and keep these mapped.
\<close>

section \<open>Windows\<close>

text \<open>The windows that a call leaves mapped, as pairs of address and size.\<close>

definition track :: "(ptr \<times> nat) list \<Rightarrow> kcall \<Rightarrow> (ptr \<times> nat) list" where
  "track W c = (case c of
     KMap (Ioremap a n q) \<Rightarrow> if q = NULL then W else (q, n) # W
   | KMap (Iounmap q) \<Rightarrow> filter (\<lambda>w. fst w \<noteq> q) W
   | _ \<Rightarrow> W)"

definition covers :: "(ptr \<times> nat) list \<Rightarrow> ptr \<Rightarrow> bool" where
  "covers W p \<longleftrightarrow> (\<exists>(q, n) \<in> set W. unat (p - q) + 4 \<le> n)"

fun writes_inside :: "(ptr \<times> nat) list \<Rightarrow> kcall list \<Rightarrow> bool" where
  "writes_inside W [] = True"
| "writes_inside W (c # t) =
     ((case c of KMap (WriteReg p v) \<Rightarrow> covers W p | _ \<Rightarrow> True) \<and> writes_inside (track W c) t)"

lemma writes_inside_append:
  "writes_inside W (t @ u) \<longleftrightarrow> writes_inside W t \<and> writes_inside (foldl track W t) u"
  by (induction t arbitrary: W) auto

lemma track_simps [simp]:
  "track W (KMap (Ioremap a n q)) = (if q = NULL then W else (q, n) # W)"
  "track W (KMap (Iounmap q)) = filter (\<lambda>w. fst w \<noteq> q) W"
  "track W (KMap (WriteReg p v)) = W" "track W (KMem a1) = W" "track W (KChr a2) = W"
  "track W (KClk a3) = W" "track W (KIrq a4) = W" "track W (KTimer a5) = W" "track W (KWait a6) = W"
  "track W (KInput a7) = W" "track W (KMtd a8) = W" "track W (KFb a9) = W" "track W (KBlk b1) = W"
  "track W (KUsb b2) = W" "track W (KPlat b3) = W"
  by (simp_all add: track_def)

lemma covers_base [simp]:
  "covers ((q, n) # W) (q + off) \<longleftrightarrow> unat off + 4 \<le> n \<or> covers W (q + off)"
  "covers ((q, n) # W) q \<longleftrightarrow> 4 \<le> n \<or> covers W q"
  by (auto simp: covers_def)

lemma covers_Cons [simp]: "covers W p \<Longrightarrow> covers (w # W) p"
  by (auto simp: covers_def)

lemma covers_mono: "covers V p \<Longrightarrow> set V \<subseteq> set W \<Longrightarrow> covers W p"
  by (auto simp: covers_def)

text \<open>\<open>extends W s t V\<close>: between \<open>s\<close> and \<open>t\<close> all writes are inside, and the windows go from \<open>W\<close> to \<open>V\<close>.\<close>

definition extends ::
  "(ptr \<times> nat) list \<Rightarrow> 'a kstate_scheme \<Rightarrow> 'a kstate_scheme \<Rightarrow> (ptr \<times> nat) list \<Rightarrow> bool" where
  "extends W s t V \<longleftrightarrow> (\<exists>u. ktrace t = ktrace s @ u \<and> writes_inside W u \<and> foldl track W u = V)"

lemma extends_trans: "extends W s t V \<Longrightarrow> extends V t u U \<Longrightarrow> extends W s u U"
  by (force simp: extends_def writes_inside_append)

lemma extends_refl: "ktrace t = ktrace s \<Longrightarrow> extends W s t W"
  by (simp add: extends_def)

lemma extends_start: "ktrace s = [] \<Longrightarrow> extends [] s t V \<Longrightarrow> writes_inside [] (ktrace t)"
  by (auto simp: extends_def)

lemma covers_in [simp]: "(q, n) \<in> set V \<Longrightarrow> unat off + 4 \<le> n \<Longrightarrow> covers V (q + off)"
  unfolding covers_def by (rule bexI [of _ "(q, n)"]) simp_all

lemma covers_in_base [simp]: "(q, n) \<in> set V \<Longrightarrow> 4 \<le> n \<Longrightarrow> covers V q"
  using covers_in [of q n V 0] by simp

section \<open>Operations that stay inside\<close>

text \<open>\<open>wins s\<close> are the windows the driver relies on; its operations write nowhere else and keep them.\<close>

locale register_user =
  fixes ops :: "('a kstate_scheme \<Rightarrow> 'a kstate_scheme) set" and ok :: "'a kstate_scheme \<Rightarrow> bool"
    and wins :: "'a kstate_scheme \<Rightarrow> (ptr \<times> nat) list"
  assumes op: "ok s \<Longrightarrow> f \<in> ops \<Longrightarrow> ok (f s) \<and> wins (f s) = wins s \<and>
    (\<forall>V. set (wins s) \<subseteq> set V \<longrightarrow> extends V s (f s) V)"
begin

lemma ops_inside:
  assumes "ok s" and "set fs \<subseteq> ops" and "set (wins s) \<subseteq> set V"
  shows "ok (fold (\<lambda>f. f) fs s) \<and> wins (fold (\<lambda>f. f) fs s) = wins s \<and> extends V s (fold (\<lambda>f. f) fs s) V"
  using assms
proof (induction fs arbitrary: s)
  case (Cons f fs)
  from Cons.prems op [OF Cons.prems(1), of f] have f: "ok (f s)" "wins (f s) = wins s" "extends V s (f s) V"
    by auto
  with Cons.IH [of "f s"] Cons.prems show ?case by (auto intro: extends_trans)
qed (simp add: extends_refl)

text \<open>Loading, operating and unloading the module.\<close>

lemma session_inside:
  assumes "ktrace s0 = []" and "ok s \<and> (\<exists>V. set (wins s) \<subseteq> set V \<and> extends [] s0 s V)"
    and "set fs \<subseteq> ops" and "\<And>t V. ok t \<Longrightarrow> set (wins t) \<subseteq> set V \<Longrightarrow> \<exists>U. extends V t (e t) U"
  shows "writes_inside [] (ktrace (e (fold (\<lambda>f. f) fs s)))"
proof -
  from assms(2) obtain V where V: "set (wins s) \<subseteq> set V" "extends [] s0 s V" by blast
  note run = ops_inside [OF conjunct1 [OF assms(2)] assms(3) V(1)]
  with assms(4) [of "fold (\<lambda>f. f) fs s" V] V(1) obtain U where
    "extends V (fold (\<lambda>f. f) fs s) (e (fold (\<lambda>f. f) fs s)) U" by auto
  with run V(2) have "extends [] s0 (e (fold (\<lambda>f. f) fs s)) U" by (blast intro: extends_trans)
  with assms(1) show ?thesis by (rule extends_start)
qed

end

abbreviation step :: "('s, 'r) state \<Rightarrow> 's \<Rightarrow> 's" where
  "step m s \<equiv> snd (run_state m s)"

end
