(* ===== verification/Led.thy ===== *)
theory Led
  imports Kernel
begin

text \<open>
  The LED drivers: \<open>src/Drivers/1.firstdrv/first_drv.c\<close> (three LEDs on GPF4, GPF5, GPF6 behind
  the character device \<open>/dev/xyz\<close>), the platform pair \<open>src/Drivers/9.led_dev_drv/led_dev.c\<close>
  (the board's resources) and \<open>led_drv.c\<close> (the driver that finds its pin in them). The
  registers are memory words at the address that \<open>ioremap\<close> answered; the data register is the word
  after the control register, as in the source's pointer arithmetic. The contract that both drivers
  keep is the locale \<open>led_device\<close>, interpreted for each of them.
\<close>

section \<open>GPIO registers\<close>

text \<open>The mode of pin \<open>i\<close> is the two-bit field \<open>[2i+1:2i]\<close> of the control register; 1 is output.\<close>

definition pin_mode :: "u32 \<Rightarrow> nat \<Rightarrow> u32" where
  "pin_mode con i = take_bit 2 (drop_bit (2 * i) con)"

lemma pin_mode_output:
  assumes "i < 16"
  shows "pin_mode con i = 1 \<longleftrightarrow> bit con (2 * i) \<and> \<not> bit con (2 * i + 1)"
proof -
  have "pin_mode con i = 1 \<longleftrightarrow> (\<forall>n < 32. bit (pin_mode con i) n \<longleftrightarrow> n = 0)"
    by (simp add: bit_eq_iff [of "pin_mode con i" 1] bit_1_iff)
  also have "\<dots> \<longleftrightarrow> bit con (2 * i) \<and> \<not> bit con (2 * i + 1)"
    by (auto simp: pin_mode_def bit_take_bit_iff bit_drop_bit_eq less_2_cases_iff
      dest: spec [where x = 0] spec [where x = "Suc 0"])
  finally show ?thesis .
qed

section \<open>first_drv.c\<close>

record first_state = kstate +
  first_gpfcon :: ptr
  first_gpfdat :: ptr
  first_major :: int
  firstdrv_class :: ptr
  firstdrv_class_dev :: ptr

definition first_drv_open :: "(first_state, nat) state" where
  "first_drv_open = do {
     gpfcon \<leftarrow> gets first_gpfcon;
     modify gpfcon (\<lambda>r. r AND NOT (push_bit (4*2) 0x03 OR push_bit (5*2) 0x03 OR push_bit (6*2) 0x03));
     modify gpfcon (\<lambda>r. r OR (push_bit (4*2) 0x01 OR push_bit (5*2) 0x01 OR push_bit (6*2) 0x01));
     State_Monad.return 0 }"

text \<open>
  \<open>copy_from_user\<close> is the bytes the kernel routine leaves at the destination, \<open>stack\<close> the four bytes
  that the uninitialised local \<open>val\<close> holds before. The routine copies \<open>cnt\<close> bytes whatever the
  size of \<open>val\<close> is; beyond four it runs over the stack frame.
\<close>

definition first_drv_write :: "(nat \<Rightarrow> u8 list) \<Rightarrow> u8 list \<Rightarrow> nat \<Rightarrow> (first_state, nat) state" where
  "first_drv_write copy_from_user stack cnt = do {
     (if 4 < cnt then panic StackSmash else State_Monad.return ());
     (let val = le32 (copy_from_user cnt @ drop cnt stack) in do {
        gpfdat \<leftarrow> gets first_gpfdat;
        (if val = 1
         then modify gpfdat (\<lambda>r. r AND NOT (push_bit 4 1 OR push_bit 5 1 OR push_bit 6 1))
         else modify gpfdat (\<lambda>r. r OR (push_bit 4 1 OR push_bit 5 1 OR push_bit 6 1)));
        State_Monad.return 0 }) }"

definition first_drv_init :: "kenv \<Rightarrow> (first_state, nat) state" where
  "first_drv_init E = do {
     major \<leftarrow> register_chrdev E ''first_drv'';
     upd (\<lambda>s. s\<lparr>first_major := major\<rparr>);
     cls \<leftarrow> class_create E ''firstdrv'';
     upd (\<lambda>s. s\<lparr>firstdrv_class := cls\<rparr>);
     dev \<leftarrow> class_device_create E cls major ''xyz'';
     upd (\<lambda>s. s\<lparr>firstdrv_class_dev := dev\<rparr>);
     p \<leftarrow> ioremap E 0x56000050 16;
     upd (\<lambda>s. s\<lparr>first_gpfcon := p\<rparr>);
     upd (\<lambda>s. s\<lparr>first_gpfdat := first_gpfcon s + 4\<rparr>);
     State_Monad.return 0 }"

definition first_drv_exit :: "(first_state, unit) state" where
  "first_drv_exit = do {
     s \<leftarrow> State_Monad.get;
     call (KChr (UnregisterChrdev (first_major s)));
     call (KChr (ClassDeviceUnregister (firstdrv_class_dev s)));
     call (KChr (ClassDestroy (firstdrv_class s)));
     call (KMap (Iounmap (first_gpfcon s))) }"

definition first_initial :: "(ptr \<Rightarrow> u32) \<Rightarrow> first_state" where
  "first_initial m = \<lparr>ktrace = [], kmem = m, kfault = None, first_gpfcon = NULL,
     first_gpfdat = NULL, first_major = 0, firstdrv_class = NULL, firstdrv_class_dev = NULL\<rparr>"

declare first_drv_open_def [driver_defs] first_drv_write_def [driver_defs]
  first_drv_init_def [driver_defs] first_drv_exit_def [driver_defs]

section \<open>firstdrv.c\<close>

text \<open>
  An earlier copy of the driver in the same directory. It does not compile (a full-width
  semicolon, a missing one, \<open>first_class\<close>, \<open>class_destory\<close>, \<open>moudle_init\<close>, \<open>first_drv_exot\<close>); read with the identifiers
  that were meant it is the same driver (\<open>firstdrv_same\<close>).
\<close>

definition firstdrv_open :: "(first_state, nat) state" where
  "firstdrv_open = do {
     gpfcon \<leftarrow> gets first_gpfcon;
     modify gpfcon (\<lambda>r. r AND NOT (push_bit (4*2) 0x03 OR push_bit (5*2) 0x03 OR push_bit (6*2) 0x03));
     modify gpfcon (\<lambda>r. r OR (push_bit (4*2) 0x01 OR push_bit (5*2) 0x01 OR push_bit (6*2) 0x01));
     State_Monad.return 0 }"

definition firstdrv_write :: "(nat \<Rightarrow> u8 list) \<Rightarrow> u8 list \<Rightarrow> nat \<Rightarrow> (first_state, nat) state" where
  "firstdrv_write copy_from_user stack cnt = do {
     (if 4 < cnt then panic StackSmash else State_Monad.return ());
     (let val = le32 (copy_from_user cnt @ drop cnt stack) in do {
        gpfdat \<leftarrow> gets first_gpfdat;
        (if val = 1
         then modify gpfdat (\<lambda>r. r AND NOT (push_bit 4 0x1 OR push_bit 5 0x1 OR push_bit 6 0x1))
         else modify gpfdat (\<lambda>r. r OR (push_bit 4 0x1 OR push_bit 5 0x1 OR push_bit 6 0x1)));
        State_Monad.return 0 }) }"

definition firstdrv_init :: "kenv \<Rightarrow> (first_state, nat) state" where
  "firstdrv_init E = do {
     m \<leftarrow> register_chrdev E ''first_drv'';
     upd (\<lambda>s. s\<lparr>first_major := m\<rparr>);
     cls \<leftarrow> class_create E ''firstdrv'';
     upd (\<lambda>s. s\<lparr>firstdrv_class := cls\<rparr>);
     dev \<leftarrow> class_device_create E cls m ''xyz'';
     upd (\<lambda>s. s\<lparr>firstdrv_class_dev := dev\<rparr>);
     p \<leftarrow> ioremap E 0x56000050 16;
     upd (\<lambda>s. s\<lparr>first_gpfcon := p\<rparr>);
     upd (\<lambda>s. s\<lparr>first_gpfdat := first_gpfcon s + 4\<rparr>);
     State_Monad.return 0 }"

definition firstdrv_exit :: "(first_state, unit) state" where
  "firstdrv_exit = do {
     s \<leftarrow> State_Monad.get;
     call (KChr (UnregisterChrdev (first_major s)));
     call (KChr (ClassDeviceUnregister (firstdrv_class_dev s)));
     call (KChr (ClassDestroy (firstdrv_class s)));
     call (KMap (Iounmap (first_gpfcon s))) }"

lemma firstdrv_same:
  "firstdrv_open = first_drv_open" "firstdrv_write = first_drv_write" "firstdrv_init = first_drv_init"
  "firstdrv_exit = first_drv_exit"
  by (simp_all add: fun_eq_iff firstdrv_open_def firstdrv_write_def firstdrv_init_def firstdrv_exit_def driver_defs)

text \<open>The test programs call \<open>write(fd, &val, 4)\<close>, which passes the four bytes of \<open>val\<close>.\<close>

abbreviation user_int :: "u32 \<Rightarrow> nat \<Rightarrow> u8 list" where
  "user_int v \<equiv> (\<lambda>n. take n (bytes32 v))"

section \<open>led_dev.c and led_drv.c\<close>

datatype res_flag = IORESOURCE_MEM | IORESOURCE_IO

record plat_resource =
  res_start :: u32
  res_end :: u32
  res_flags :: res_flag

definition led_resource :: "plat_resource list" where
  "led_resource =
     [\<lparr>res_start = 0x56000050, res_end = 0x56000050 + 8 - 1, res_flags = IORESOURCE_MEM\<rparr>,
      \<lparr>res_start = 5, res_end = 5, res_flags = IORESOURCE_IO\<rparr>]"

definition led_release :: "('a kstate_scheme, unit) state" where
  "led_release = State_Monad.return ()"

record 's plat_device =
  pdev_name :: string
  pdev_id :: int
  pdev_resource :: "plat_resource list"
  pdev_release :: "('s, unit) state"

definition led_dev :: "'a kstate_scheme plat_device" where
  "led_dev = \<lparr>pdev_name = ''myled'', pdev_id = - 1, pdev_resource = led_resource, pdev_release = led_release\<rparr>"

definition led_dev_init :: "('a kstate_scheme, nat) state" where
  "led_dev_init = do {
     call (KPlat (DeviceRegister (pdev_name (led_dev :: 'a kstate_scheme plat_device))));
     State_Monad.return 0 }"

definition led_dev_exit :: "('a kstate_scheme, unit) state" where
  "led_dev_exit = call (KPlat (DeviceUnregister (pdev_name (led_dev :: 'a kstate_scheme plat_device))))"

lemma led_dev_simps [simp]: "pdev_name led_dev = ''myled''" "pdev_resource led_dev = led_resource"
  by (simp_all add: led_dev_def)

record led_state = kstate +
  led_major :: int
  led_cls :: ptr
  gpio_con :: ptr
  gpio_dat :: ptr
  led_pin :: nat

definition led_open :: "(led_state, nat) state" where
  "led_open = do {
     con \<leftarrow> gets gpio_con;
     pin \<leftarrow> gets led_pin;
     modify con (\<lambda>r. r AND NOT (push_bit (pin*2) 0x3));
     modify con (\<lambda>r. r OR push_bit (pin*2) 0x1);
     State_Monad.return 0 }"

definition led_write :: "(nat \<Rightarrow> u8 list) \<Rightarrow> u8 list \<Rightarrow> nat \<Rightarrow> (led_state, nat) state" where
  "led_write copy_from_user stack cnt = do {
     (if 4 < cnt then panic StackSmash else State_Monad.return ());
     (let val = le32 (copy_from_user cnt @ drop cnt stack) in do {
        dat \<leftarrow> gets gpio_dat;
        pin \<leftarrow> gets led_pin;
        (if val = 1 then modify dat (\<lambda>r. r AND NOT (push_bit pin 0x1))
         else modify dat (\<lambda>r. r OR push_bit pin 0x1));
        State_Monad.return 0 }) }"

text \<open>\<open>get_resource\<close> stands for \<open>platform_get_resource(pdev, type, num)\<close>; \<open>None\<close> is its NULL.\<close>

definition led_probe ::
  "kenv \<Rightarrow> (res_flag \<Rightarrow> nat \<Rightarrow> plat_resource option) \<Rightarrow> (led_state, nat) state" where
  "led_probe E get_resource = do {
     (case get_resource IORESOURCE_MEM 0 of
        None \<Rightarrow> panic NullDeref
      | Some res \<Rightarrow> do {
          p \<leftarrow> ioremap E (res_start res) (unat (res_end res - res_start res + 1));
          upd (\<lambda>s. s\<lparr>gpio_con := p\<rparr>);
          upd (\<lambda>s. s\<lparr>gpio_dat := gpio_con s + 4\<rparr>) });
     (case get_resource IORESOURCE_IO 0 of
        None \<Rightarrow> panic NullDeref
      | Some res \<Rightarrow> upd (\<lambda>s. s\<lparr>led_pin := unat (res_start res)\<rparr>));
     major \<leftarrow> register_chrdev E ''myled'';
     upd (\<lambda>s. s\<lparr>led_major := major\<rparr>);
     c \<leftarrow> class_create E ''myled'';
     upd (\<lambda>s. s\<lparr>led_cls := c\<rparr>);
     class_device_create E c major ''led'';
     State_Monad.return 0 }"

definition led_remove :: "(led_state, nat) state" where
  "led_remove = do {
     s \<leftarrow> State_Monad.get;
     call (KChr (ClassDeviceDestroy (led_cls s) (led_major s)));
     call (KChr (ClassDestroy (led_cls s)));
     call (KChr (UnregisterChrdev (led_major s)));
     call (KMap (Iounmap (gpio_con s)));
     State_Monad.return 0 }"

text \<open>\<open>struct platform_driver led_drv\<close>; \<open>get_resource\<close> is applied when the bus calls the probe.\<close>

record plat_driver =
  pdrv_probe :: "kenv \<Rightarrow> (res_flag \<Rightarrow> nat \<Rightarrow> plat_resource option) \<Rightarrow> (led_state, nat) state"
  pdrv_remove :: "(led_state, nat) state"
  pdrv_name :: string

definition led_drv :: plat_driver where
  "led_drv = \<lparr>pdrv_probe = led_probe, pdrv_remove = led_remove, pdrv_name = ''myled''\<rparr>"

lemma led_drv_simps [simp]: "pdrv_name led_drv = ''myled''" "pdrv_probe led_drv = led_probe"
    "pdrv_remove led_drv = led_remove"
  by (simp_all add: led_drv_def)

definition led_drv_init :: "kenv \<Rightarrow> (led_state, nat) state" where
  "led_drv_init E = do {
     call (KPlat (DriverRegister (pdrv_name led_drv) (e_platform_driver_register E)));
     State_Monad.return 0 }"

definition led_drv_exit :: "(led_state, unit) state" where
  "led_drv_exit = call (KPlat (DriverUnregister (pdrv_name led_drv)))"

definition led_initial :: "(ptr \<Rightarrow> u32) \<Rightarrow> led_state" where
  "led_initial m = \<lparr>ktrace = [], kmem = m, kfault = None, led_major = 0, led_cls = NULL,
     gpio_con = NULL, gpio_dat = NULL, led_pin = 0\<rparr>"

declare led_open_def [driver_defs] led_write_def [driver_defs] led_probe_def [driver_defs]
  led_remove_def [driver_defs]

section \<open>The contract of an LED device\<close>

text \<open>
  \<open>op_write v\<close> is the system call \<open>write(fd, &val, 4)\<close> of the test programs with \<open>val = v\<close>.
  \<open>ready\<close> says that the driver found its registers, \<open>pins\<close> which LEDs it drives, \<open>con\<close> and
  \<open>dat\<close> are the two registers.
\<close>

locale led_device =
  fixes op_open :: "'s \<Rightarrow> fault + nat \<times> 's"
    and op_write :: "u32 \<Rightarrow> 's \<Rightarrow> fault + nat \<times> 's"
    and con :: "'s \<Rightarrow> u32" and dat :: "'s \<Rightarrow> u32"
    and conf :: "'s \<Rightarrow> 'c" and pins :: "'c \<Rightarrow> nat set"
    and ready :: "'s \<Rightarrow> bool"
  assumes pins_bound: "ready s \<Longrightarrow> i \<in> pins (conf s) \<Longrightarrow> i < 16"
    and open_spec: "ready s \<Longrightarrow> \<exists>s'. op_open s = Inr (0, s') \<and> ready s' \<and> conf s' = conf s \<and>
      dat s' = dat s \<and>
      (\<forall>i < 32. bit (con s') i = (if i div 2 \<in> pins (conf s) then even i else bit (con s) i))"
    and write_spec: "ready s \<Longrightarrow> \<exists>s'. op_write v s = Inr (0, s') \<and> ready s' \<and> conf s' = conf s \<and>
      con s' = con s \<and>
      (\<forall>i < 32. bit (dat s') i = (if i \<in> pins (conf s) then v \<noteq> 1 else bit (dat s) i))"

fun write_all :: "(u32 \<Rightarrow> 's \<Rightarrow> fault + nat \<times> 's) \<Rightarrow> u32 list \<Rightarrow> 's \<Rightarrow> fault + 's" where
  "write_all w [] s = Inr s"
| "write_all w (v # vs) s = (case w v s of Inl e \<Rightarrow> Inl e | Inr (r, s') \<Rightarrow> write_all w vs s')"

definition led_session ::
  "('s \<Rightarrow> fault + nat \<times> 's) \<Rightarrow> (u32 \<Rightarrow> 's \<Rightarrow> fault + nat \<times> 's) \<Rightarrow> u32 list \<Rightarrow> 's \<Rightarrow> fault + 's" where
  "led_session op w vs s = (case op s of Inl e \<Rightarrow> Inl e | Inr (r, s') \<Rightarrow> write_all w vs s')"

context led_device begin

lemma write_all_spec:
  assumes "ready s"
  shows "\<exists>s'. write_all op_write vs s = Inr s' \<and> ready s' \<and> conf s' = conf s \<and> con s' = con s \<and>
    (\<forall>i < 32. bit (dat s') i =
      (if i \<in> pins (conf s) \<and> vs \<noteq> [] then last vs \<noteq> 1 else bit (dat s) i))"
  using assms
proof (induction vs arbitrary: s)
  case (Cons v vs)
  from write_spec [OF Cons.prems, of v] obtain s1 where s1:
    "op_write v s = Inr (0, s1)" "ready s1" "conf s1 = conf s" "con s1 = con s"
    "\<forall>i < 32. bit (dat s1) i = (if i \<in> pins (conf s) then v \<noteq> 1 else bit (dat s) i)"
    by blast
  from Cons.IH [OF s1(2)] s1 show ?case by auto
qed simp

lemma led_session_spec:
  assumes "ready s" and "vs \<noteq> []"
  shows "\<exists>s'. led_session op_open op_write vs s = Inr s' \<and> ready s' \<and> conf s' = conf s \<and>
    (\<forall>i \<in> pins (conf s). pin_mode (con s') i = 1 \<and> (bit (dat s') i \<longleftrightarrow> last vs \<noteq> 1)) \<and>
    (\<forall>i < 32. i \<notin> pins (conf s) \<longrightarrow> bit (dat s') i = bit (dat s) i) \<and>
    (\<forall>i < 32. i div 2 \<notin> pins (conf s) \<longrightarrow> bit (con s') i = bit (con s) i)"
proof -
  from open_spec [OF assms(1)] obtain s1 where s1:
    "op_open s = Inr (0, s1)" "ready s1" "conf s1 = conf s" "dat s1 = dat s"
    "\<forall>i < 32. bit (con s1) i = (if i div 2 \<in> pins (conf s) then even i else bit (con s) i)"
    by blast
  from write_all_spec [OF s1(2), of vs] s1 assms(2) obtain s2 where s2:
    "write_all op_write vs s1 = Inr s2" "con s2 = con s1" "ready s2" "conf s2 = conf s"
    "\<forall>i < 32. bit (dat s2) i = (if i \<in> pins (conf s) then last vs \<noteq> 1 else bit (dat s) i)"
    by auto
  have "pin_mode (con s2) i = 1" if "i \<in> pins (conf s)" for i
    using that s1(5) s2(2) pins_bound [OF assms(1) that] by (simp add: pin_mode_output)
  moreover have "i < 32" if "i \<in> pins (conf s)" for i
    using pins_bound [OF assms(1) that] by simp
  ultimately show ?thesis
    using s1 s2 by (auto simp: led_session_def)
qed

end

section \<open>Both drivers keep the contract\<close>

definition first_ready :: "first_state \<Rightarrow> bool" where
  "first_ready s \<longleftrightarrow> kfault s = None \<and> first_gpfcon s \<noteq> NULL \<and> first_gpfdat s \<noteq> NULL \<and>
     first_gpfdat s \<noteq> first_gpfcon s"

definition led_ready :: "led_state \<Rightarrow> bool" where
  "led_ready s \<longleftrightarrow> kfault s = None \<and> gpio_con s \<noteq> NULL \<and> gpio_dat s \<noteq> NULL \<and>
     gpio_dat s \<noteq> gpio_con s \<and> led_pin s < 16"

definition first_pins :: "nat set" where
  "first_pins = {4, 5, 6}"

lemma first_open_bits:
  assumes "i < 32"
  shows "bit (r AND NOT (push_bit (4*2) 0x03 OR push_bit (5*2) 0x03 OR push_bit (6*2) 0x03)
      OR (push_bit (4*2) 0x01 OR push_bit (5*2) 0x01 OR push_bit (6*2) 0x01) :: u32) i
    = (if i div 2 \<in> first_pins then even i else bit r i)"
proof -
  have "\<forall>i \<in> set [0..<32]. bit (r AND NOT (push_bit (4*2) 0x03 OR push_bit (5*2) 0x03 OR
      push_bit (6*2) 0x03) OR (push_bit (4*2) 0x01 OR push_bit (5*2) 0x01 OR push_bit (6*2) 0x01) :: u32) i
    = (if i div 2 \<in> first_pins then even i else bit r i)"
    by (simp add: upt_rec first_pins_def bit_and_iff bit_or_iff bit_not_iff)
  with assms show ?thesis by simp
qed

lemma first_on_bits:
  assumes "i < 32"
  shows "bit (r AND NOT (push_bit 4 1 OR push_bit 5 1 OR push_bit 6 1) :: u32) i
    = (if i \<in> first_pins then False else bit r i)"
proof -
  have "\<forall>i \<in> set [0..<32]. bit (r AND NOT (push_bit 4 1 OR push_bit 5 1 OR push_bit 6 1) :: u32) i
    = (if i \<in> first_pins then False else bit r i)"
    by (simp add: upt_rec first_pins_def bit_and_iff bit_or_iff bit_not_iff)
  with assms show ?thesis by simp
qed

lemma first_off_bits:
  assumes "i < 32"
  shows "bit (r OR (push_bit 4 1 OR push_bit 5 1 OR push_bit 6 1) :: u32) i
    = (if i \<in> first_pins then True else bit r i)"
proof -
  have "\<forall>i \<in> set [0..<32]. bit (r OR (push_bit 4 1 OR push_bit 5 1 OR push_bit 6 1) :: u32) i
    = (if i \<in> first_pins then True else bit r i)"
    by (simp add: upt_rec first_pins_def bit_or_iff)
  with assms show ?thesis by simp
qed

lemmas first_bits = first_open_bits [simplified] first_on_bits [simplified]
  first_off_bits [simplified]

interpretation first: led_device
  "exec first_drv_open"
  "\<lambda>v. exec (first_drv_write (user_int v) stack 4)"
  "\<lambda>s. kmem s (first_gpfcon s)" "\<lambda>s. kmem s (first_gpfdat s)"
  "\<lambda>s. (first_gpfcon s, first_gpfdat s)" "\<lambda>_. first_pins" first_ready
proof (unfold_locales, goal_cases)
  case (1 s i)
  then show ?case by (auto simp: first_pins_def)
next
  case (2 s)
  then show ?case
    by (simp add: first_ready_def driver_defs exec_def first_bits)
next
  case (3 s v)
  then show ?case
    by (auto simp: first_ready_def driver_defs exec_def first_bits Let_def)
qed

lemma bit_3: "bit (0x3 :: int) n \<longleftrightarrow> n < 2"
proof -
  have "(0x3 :: int) = mask 2" by (simp add: mask_eq_exp_minus_1)
  then show ?thesis by (simp only: bit_mask_iff) auto
qed

lemma led_open_bits:
  assumes "i < 32"
  shows "bit (r AND NOT (push_bit (p*2) 0x3) OR push_bit (p*2) 0x1 :: u32) i
    = (if i div 2 = p then even i else bit r i)"
  using assms
  by (cases "even i")
    (auto simp: bit_and_iff bit_or_iff bit_not_iff bit_push_bit_iff bit_3 bit_exp_iff
      elim!: evenE oddE)

lemma led_on_bits:
  "i < 32 \<Longrightarrow> bit (r AND NOT (push_bit p 0x1) :: u32) i = (if i = p then False else bit r i)"
  by (auto simp: bit_and_iff bit_not_iff bit_exp_iff)

lemma led_off_bits:
  "i < 32 \<Longrightarrow> bit (r OR push_bit p 0x1 :: u32) i = (if i = p then True else bit r i)"
  by (auto simp: bit_or_iff bit_exp_iff)

lemmas led_bits = led_open_bits led_on_bits led_off_bits

interpretation led: led_device
  "exec led_open"
  "\<lambda>v. exec (led_write (user_int v) stack 4)"
  "\<lambda>s. kmem s (gpio_con s)" "\<lambda>s. kmem s (gpio_dat s)"
  "\<lambda>s. (gpio_con s, gpio_dat s, led_pin s)" "\<lambda>(_, _, pin). {pin}" led_ready
proof (unfold_locales, goal_cases)
  case (1 s i)
  then show ?case by (auto simp: led_ready_def)
next
  case (2 s)
  then show ?case
    using led_open_bits [of _ "kmem s (gpio_con s)" "led_pin s"]
    by (auto simp: led_ready_def driver_defs exec_def)
next
  case (3 s v)
  then show ?case
    by (auto simp: led_ready_def driver_defs exec_def led_on_bits [simplified] led_off_bits [simplified] Let_def)
qed

section \<open>From loading the module to the LEDs\<close>

lemma first_init_state:
  assumes "e_ioremap E 0x56000050 16 = p"
  shows "exec (first_drv_init E) (first_initial m) = Inr (0, (first_initial m)
    \<lparr>ktrace := [KChr (RegisterChrdev ''first_drv'' (e_register_chrdev E ''first_drv'')),
       KChr (ClassCreate ''firstdrv'' (e_class_create E ''firstdrv'')),
       KChr (ClassDeviceCreate (e_class_create E ''firstdrv'') (e_register_chrdev E ''first_drv'')
         ''xyz'' (e_class_device_create E (e_class_create E ''firstdrv'')
           (e_register_chrdev E ''first_drv'') ''xyz'')),
       KMap (Ioremap 0x56000050 16 p)],
     first_gpfcon := p, first_gpfdat := p + 4,
     first_major := e_register_chrdev E ''first_drv'',
     firstdrv_class := e_class_create E ''firstdrv'',
     firstdrv_class_dev := e_class_device_create E (e_class_create E ''firstdrv'')
       (e_register_chrdev E ''first_drv'') ''xyz''\<rparr>)"
  using assms
  by (simp add: driver_defs exec_def first_initial_def)

lemma first_init_ready:
  assumes "e_ioremap E 0x56000050 16 = p" and "p \<noteq> NULL" and "p + 4 \<noteq> NULL"
  shows "\<exists>s. exec (first_drv_init E) (first_initial m) = Inr (0, s) \<and> first_ready s \<and>
    first_gpfcon s = p \<and> first_gpfdat s = p + 4 \<and> kmem s = m"
  unfolding first_init_state [OF assms(1)]
  using assms by (simp add: first_initial_def first_ready_def)

text \<open>
  C12: Opening the LED driver once and then writing any non-empty sequence of four-byte integers
  succeeds whenever the registers were mapped; afterwards GPF4, GPF5 and GPF6 are outputs, each is
  low (LED lit) exactly if the last integer written was 1, and no other bit of the two registers has
  changed.
\<close>

theorem first_drv_session:
  assumes "first_ready s" and "vs \<noteq> []"
  shows "\<exists>s'. led_session (exec first_drv_open)
      (\<lambda>v. exec (first_drv_write (user_int v) stack 4)) vs s = Inr s' \<and>
    (\<forall>i \<in> {4, 5, 6}. pin_mode (kmem s' (first_gpfcon s)) i = 1 \<and>
      (bit (kmem s' (first_gpfdat s)) i \<longleftrightarrow> last vs \<noteq> 1)) \<and>
    (\<forall>i < 32. i \<notin> {4, 5, 6} \<longrightarrow>
      bit (kmem s' (first_gpfdat s)) i = bit (kmem s (first_gpfdat s)) i) \<and>
    (\<forall>i < 32. i div 2 \<notin> {4, 5, 6} \<longrightarrow>
      bit (kmem s' (first_gpfcon s)) i = bit (kmem s (first_gpfcon s)) i)"
  using first.led_session_spec [OF assms, of stack] unfolding first_pins_def
  by (elim exE, intro exI) (elim conjE, intro conjI, simp_all)

theorem first_drv_session_witness:
  "\<exists>s. first_ready s \<and> (\<exists>s'. led_session (exec first_drv_open)
      (\<lambda>v. exec (first_drv_write (user_int v) [0, 0, 0, 0] 4)) [0, 1] s = Inr s' \<and>
    \<not> bit (kmem s' (first_gpfdat s)) 4)"
proof -
  define s where "s = (first_initial (\<lambda>_. 0))\<lparr>first_gpfcon := 0x1000, first_gpfdat := 0x1004\<rparr>"
  have r: "first_ready s" by (simp add: s_def first_ready_def first_initial_def)
  show ?thesis using r first_drv_session [OF r, of "[0, 1]" "[0, 0, 0, 0]"] by auto
qed

text \<open>
  \<open>first_drv_write\<close> has one way to corrupt the kernel: a count above four lets
  \<open>copy_from_user\<close> run over the four-byte local. Once the registers are mapped every write of at most
  four bytes succeeds, and it returns 0 where the VFS expects the number of bytes written.
\<close>

theorem first_drv_write_outcome:
  assumes "first_ready s"
  shows "(exec (first_drv_write copy stack cnt) s = Inl StackSmash \<longleftrightarrow> 4 < cnt) \<and>
    (cnt \<le> 4 \<longrightarrow> (\<exists>s'. exec (first_drv_write copy stack cnt) s = Inr (0, s')))"
  using assms by (auto simp: first_ready_def driver_defs exec_def Let_def)

theorem first_drv_write_outcome_witness:
  "\<exists>s. first_ready s \<and> exec (first_drv_write (\<lambda>n. replicate n 0) [0, 0, 0, 0] 5) s = Inl StackSmash"
proof -
  define s where "s = (first_initial (\<lambda>_. 0))\<lparr>first_gpfcon := 0x1000, first_gpfdat := 0x1004\<rparr>"
  have r: "first_ready s" by (simp add: s_def first_ready_def first_initial_def)
  have "exec (first_drv_write (\<lambda>n. replicate n 0) [0, 0, 0, 0] 5) s = Inl StackSmash"
    using first_drv_write_outcome [OF r, of "\<lambda>n. replicate n 0" "[0, 0, 0, 0]" 5] by simp
  with r show ?thesis by blast
qed

lemma led_probe_state:
  assumes "\<forall>t n. get t n = (let l = filter (\<lambda>r. res_flags r = t) led_resource in
      if n < length l then Some (l ! n) else None)"
    and "e_ioremap E 0x56000050 8 = p" and "p \<noteq> NULL" and "p + 4 \<noteq> NULL"
  shows "\<exists>s. exec (led_probe E get) (led_initial m) = Inr (0, s) \<and> led_ready s \<and>
    gpio_con s = p \<and> gpio_dat s = p + 4 \<and> led_pin s = 5 \<and> kmem s = m"
  using assms
  by (simp add: driver_defs exec_def led_initial_def led_resource_def led_ready_def)

text \<open>
  The driver \<open>led_drv\<close> finds its LED in the resources that \<open>led_dev\<close> registers: on this board
  \<open>led_probe\<close> maps the eight bytes at 0x56000050 and picks pin 5, so that after opening and any
  non-empty sequence of four-byte writes exactly the mode field and the data bit of GPF5 are the
  driver's, and the LED is lit (bit low) exactly if the last value written was 1. The kernel's
  \<open>platform_get_resource\<close> is assumed to return the n-th resource of the requested type.
\<close>

theorem led_drv_on_board:
  assumes "\<forall>t n. get t n = (let l = filter (\<lambda>r. res_flags r = t) led_resource in
      if n < length l then Some (l ! n) else None)"
    and "e_ioremap E 0x56000050 8 = p" and "p \<noteq> NULL" and "p + 4 \<noteq> NULL" and "vs \<noteq> []"
  shows "\<exists>s0 s. exec (led_probe E get) (led_initial m) = Inr (0, s0) \<and>
    led_session (exec led_open) (\<lambda>v. exec (led_write (user_int v) stack 4)) vs s0 = Inr s \<and>
    pin_mode (kmem s p) 5 = 1 \<and> (bit (kmem s (p + 4)) 5 \<longleftrightarrow> last vs \<noteq> 1) \<and>
    (\<forall>i < 32. i \<noteq> 5 \<longrightarrow> bit (kmem s (p + 4)) i = bit (m (p + 4)) i) \<and>
    (\<forall>i < 32. i div 2 \<noteq> 5 \<longrightarrow> bit (kmem s p) i = bit (m p) i)"
proof -
  from led_probe_state [OF assms(1-4)] obtain s0 where s0:
    "exec (led_probe E get) (led_initial m) = Inr (0, s0)" "led_ready s0" "gpio_con s0 = p"
    "gpio_dat s0 = p + 4" "led_pin s0 = 5" "kmem s0 = m"
    by blast
  from led.led_session_spec [OF s0(2) assms(5), of stack] s0 show ?thesis by auto
qed

theorem led_drv_on_board_witness:
  "\<exists>s0 s. exec (led_probe sample_env (\<lambda>t n. if n = 0 then find (\<lambda>r. res_flags r = t) led_resource
      else None)) (led_initial (\<lambda>_. 0)) = Inr (0, s0) \<and>
    led_session (exec led_open) (\<lambda>v. exec (led_write (user_int v) [0, 0, 0, 0] 4)) [1] s0 = Inr s \<and>
    \<not> bit (kmem s 0xee000054) 5"
proof -
  have get: "\<forall>t n. (if n = 0 then find (\<lambda>r. res_flags r = t) led_resource else None) =
    (let l = filter (\<lambda>r. res_flags r = t) led_resource in
      if n < length l then Some (l ! n) else None)"
    by (auto simp: led_resource_def)
  have h: "e_ioremap sample_env 0x56000050 8 = 0xee000050" "(0xee000050 :: ptr) \<noteq> NULL"
    "(0xee000050 :: ptr) + 4 \<noteq> NULL"
    by (simp_all add: sample_env_def)
  show ?thesis
    using led_drv_on_board [OF get h, of "[1]" "\<lambda>_. 0" "[0, 0, 0, 0]"] by auto
qed

text \<open>
  Loading and unloading the LED drivers is balanced: if the kernel grants what
  \<open>first_drv_init\<close> and \<open>led_probe\<close> ask for (neither checks), then \<open>first_drv_exit\<close> and \<open>led_remove\<close>
  give back every resource exactly once and nothing else.
\<close>

theorem led_drivers_balanced:
  assumes "e_ioremap E 0x56000050 16 \<noteq> NULL" and "e_ioremap E 0x56000050 8 \<noteq> NULL"
    and "\<forall>n. \<not> e_register_chrdev E n < 0"
    and "\<forall>t n. get t n = (let l = filter (\<lambda>r. res_flags r = t) led_resource in
      if n < length l then Some (l ! n) else None)"
  shows "no_leak (ktrace (snd (run_state (do { first_drv_init E; first_drv_exit }) (first_initial m))))
    \<and> no_leak (ktrace (snd (run_state (do { led_probe E get; led_remove }) (led_initial m))))"
  using assms
  by (simp add: driver_defs first_initial_def led_initial_def led_resource_def no_leak_def)

theorem led_drivers_balanced_witness:
  "no_leak (ktrace (snd (run_state (do { first_drv_init sample_env; first_drv_exit })
     (first_initial (\<lambda>_. 0)))))"
proof -
  have h: "e_ioremap sample_env 0x56000050 16 \<noteq> NULL" "e_ioremap sample_env 0x56000050 8 \<noteq> NULL"
    "\<forall>n. \<not> e_register_chrdev sample_env n < 0"
    "\<forall>t n. (let l = filter (\<lambda>r. res_flags r = t) led_resource in
        if n < length l then Some (l ! n) else None) =
      (let l = filter (\<lambda>r. res_flags r = t) led_resource in
        if n < length l then Some (l ! n) else None)"
    by (simp_all add: sample_env_def)
  show ?thesis using led_drivers_balanced [OF h] by blast
qed

end
