(* ===== verification/Led_Bus.thy ===== *)
theory Led_Bus
  imports Windows Led
begin

text \<open>
  The LED platform modules on the platform bus: \<open>src/Drivers/9.led_dev_drv/led_dev.c\<close> registers the device,
  \<open>led_drv.c\<close> the driver, in any order, and the bus pairs them by name. \<open>bus_step\<close> is the life of the two
  modules: loading, unloading, and programs that open the node, write and close it. The kernel's part is
  what \<open>Documentation/driver-model\<close> says: \<open>probe\<close> runs as soon as a device and a driver of the same
  name are registered, \<open>remove\<close> before either of the two is gone, a module whose \<open>file_operations\<close> name
  it as owner is not unloaded while a file is open. Nothing protects \<open>led_dev\<close>, which has no file operations.
\<close>

section \<open>The bus\<close>

record led_bus =
  dev_in :: bool
  drv_in :: bool
  bound :: bool
  users :: nat
  led :: led_state

text \<open>The names that are registered on both sides, from the calls of the two modules.\<close>

definition paired :: "kcall list \<Rightarrow> bool" where
  "paired t = (case account [] t of
     None \<Rightarrow> False
   | Some R \<Rightarrow> list_ex (\<lambda>r. case r of RPlatDevice n \<Rightarrow> RPlatDriver n \<in> set R | _ \<Rightarrow> False) R)"

abbreviation get_type :: "(res_flag \<Rightarrow> nat \<Rightarrow> plat_resource option) \<Rightarrow> bool" where
  "get_type get \<equiv> \<forall>t n. get t n = (let l = filter (\<lambda>r. res_flags r = t) led_resource in
     if n < length l then Some (l ! n) else None)"

definition bind_led :: "kenv \<Rightarrow> (res_flag \<Rightarrow> nat \<Rightarrow> plat_resource option) \<Rightarrow> led_bus \<Rightarrow> led_bus" where
  "bind_led E get s = (if paired (ktrace (led s)) \<and> \<not> bound s
     then s\<lparr>bound := True, led := step (pdrv_probe led_drv E get) (led s)\<rparr> else s)"

definition unbind_led :: "led_bus \<Rightarrow> led_bus" where
  "unbind_led s = (if bound s then s\<lparr>bound := False, led := step (pdrv_remove led_drv) (led s)\<rparr> else s)"

text \<open>A module that is loaded again starts with fresh static variables.\<close>

definition fresh_led :: "led_state \<Rightarrow> led_state" where
  "fresh_led l = (led_initial (kmem l))\<lparr>ktrace := ktrace l, kfault := kfault l\<rparr>"

definition bus_start :: "(ptr \<Rightarrow> u32) \<Rightarrow> led_bus" where
  "bus_start m = \<lparr>dev_in = False, drv_in = False, bound = False, users = 0, led = led_initial m\<rparr>"

text \<open>\<open>careful\<close>: nobody unloads \<open>led_dev\<close> while a program has the node open.\<close>

inductive bus_step ::
  "bool \<Rightarrow> kenv \<Rightarrow> (res_flag \<Rightarrow> nat \<Rightarrow> plat_resource option) \<Rightarrow> led_bus \<Rightarrow> led_bus \<Rightarrow> bool"
  for careful :: bool and E :: kenv and get :: "res_flag \<Rightarrow> nat \<Rightarrow> plat_resource option" where
  load_dev: "\<not> dev_in s \<Longrightarrow>
    bus_step careful E get s (bind_led E get (s\<lparr>dev_in := True, led := step led_dev_init (led s)\<rparr>))"
| load_drv: "\<not> drv_in s \<Longrightarrow>
    bus_step careful E get s
      (bind_led E get (s\<lparr>drv_in := True, led := step (led_drv_init E) (fresh_led (led s))\<rparr>))"
| unload_dev: "dev_in s \<Longrightarrow> careful \<longrightarrow> users s = 0 \<Longrightarrow> t = unbind_led s \<Longrightarrow>
    bus_step careful E get s (t\<lparr>dev_in := False, led := step led_dev_exit (led t)\<rparr>)"
| unload_drv: "drv_in s \<Longrightarrow> users s = 0 \<Longrightarrow> t = unbind_led s \<Longrightarrow>
    bus_step careful E get s (t\<lparr>drv_in := False, led := step led_drv_exit (led t)\<rparr>)"
| open_node: "bound s \<Longrightarrow> bus_step careful E get s (s\<lparr>users := Suc (users s), led := step led_open (led s)\<rparr>)"
| write_node: "0 < users s \<Longrightarrow> n \<le> 4 \<Longrightarrow>
    bus_step careful E get s (s\<lparr>led := step (led_write buf stack n) (led s)\<rparr>)"
| close_node: "0 < users s \<Longrightarrow> bus_step careful E get s (s\<lparr>users := users s - 1\<rparr>)"

abbreviation bus_run where
  "bus_run careful E get \<equiv> (bus_step careful E get)\<^sup>*\<^sup>*"

section \<open>What holds on the bus\<close>

definition led_devt :: "kenv \<Rightarrow> resource" where
  "led_devt E = (let c = e_class_create E ''myled''; m = e_register_chrdev E ''myled'' in
     RClassDev c m (e_class_device_create E c m ''led''))"

definition bus_holds :: "kenv \<Rightarrow> led_bus \<Rightarrow> resource multiset" where
  "bus_holds E s = (if dev_in s then {#RPlatDevice ''myled''#} else {#}) +
     (if drv_in s then {#RPlatDriver ''myled''#} else {#}) +
     (if bound s then {#led_devt E, RClass (e_class_create E ''myled''), RChrdev (e_register_chrdev E ''myled''),
        RMap (e_ioremap E 0x56000050 8)#} else {#})"

lemma bus_holds_update [simp]:
  "bus_holds E (s\<lparr>users := k\<rparr>) = bus_holds E s" "bus_holds E (s\<lparr>led := l\<rparr>) = bus_holds E s"
  by (simp_all add: bus_holds_def)

definition bus_inv :: "kenv \<Rightarrow> led_bus \<Rightarrow> bool" where
  "bus_inv E s \<longleftrightarrow> kfault (led s) = None \<and> (bound s \<longleftrightarrow> dev_in s \<and> drv_in s) \<and> (0 < users s \<longrightarrow> bound s) \<and>
     holds (ktrace (led s)) (bus_holds E s) \<and> writes_inside [] (ktrace (led s)) \<and>
     foldl track [] (ktrace (led s)) = (if bound s then [(gpio_con (led s), 8)] else []) \<and>
     (bound s \<longrightarrow> led_ready (led s) \<and> gpio_con (led s) = e_ioremap E 0x56000050 8 \<and>
        gpio_dat (led s) = gpio_con (led s) + 4 \<and> led_pin (led s) = 5 \<and>
        led_cls (led s) = e_class_create E ''myled'' \<and> led_major (led s) = e_register_chrdev E ''myled'')"

lemma paired_iff:
  assumes "holds t M"
  shows "paired t \<longleftrightarrow> (\<exists>n. RPlatDevice n \<in># M \<and> RPlatDriver n \<in># M)"
proof -
  obtain R where R: "account [] t = Some R" "M = mset R" using assms by (auto simp: holds_def)
  have "(case r of RPlatDevice n \<Rightarrow> RPlatDriver n \<in> set R | _ \<Rightarrow> False) \<longleftrightarrow>
      (\<exists>n. r = RPlatDevice n \<and> RPlatDriver n \<in> set R)" for r
    by (cases r) simp_all
  then show ?thesis by (auto simp: R paired_def list_ex_iff)
qed

text \<open>\<open>probe\<close> and \<open>remove\<close> from any state of the bus.\<close>

lemma probe_run:
  assumes "kfault l = None" and "get_type get" and "e_ioremap E 0x56000050 8 = p" and "p \<noteq> NULL"
  shows "\<exists>t. step (led_probe E get) l = t \<and> kfault t = None \<and> gpio_con t = p \<and> gpio_dat t = p + 4 \<and> led_pin t = 5 \<and>
    led_cls t = e_class_create E ''myled'' \<and> led_major t = e_register_chrdev E ''myled'' \<and>
    ktrace t = ktrace l @ [KMap (Ioremap 0x56000050 8 p),
      KChr (RegisterChrdev ''myled'' (e_register_chrdev E ''myled'')),
      KChr (ClassCreate ''myled'' (e_class_create E ''myled'')),
      KChr (ClassDeviceCreate (e_class_create E ''myled'') (e_register_chrdev E ''myled'') ''led''
        (e_class_device_create E (e_class_create E ''myled'') (e_register_chrdev E ''myled'') ''led''))]"
  using assms by (simp add: driver_defs led_resource_def)

lemma remove_run:
  assumes "kfault l = None"
  shows "step led_remove l = l\<lparr>ktrace := ktrace l @ [KChr (ClassDeviceDestroy (led_cls l) (led_major l)),
    KChr (ClassDestroy (led_cls l)), KChr (UnregisterChrdev (led_major l)), KMap (Iounmap (gpio_con l))]\<rparr>"
  using assms by (simp add: driver_defs)

text \<open>The state between the calls of the bus: nothing is bound, no file is open.\<close>

definition bus_idle :: "kenv \<Rightarrow> led_bus \<Rightarrow> bool" where
  "bus_idle E s \<longleftrightarrow> kfault (led s) = None \<and> \<not> bound s \<and> users s = 0 \<and> holds (ktrace (led s)) (bus_holds E s) \<and>
     writes_inside [] (ktrace (led s)) \<and> foldl track [] (ktrace (led s)) = []"

lemma idle_inv: "bus_inv E s \<Longrightarrow> \<not> bound s \<Longrightarrow> bus_idle E s"
  by (auto simp: bus_inv_def bus_idle_def)

lemma append4: "t @ [a, b, c, d] = (((t @ [a]) @ [b]) @ [c]) @ [d]"
  by simp

lemma bind_inv:
  assumes "bus_idle E s" and "get_type get" and "e_ioremap E 0x56000050 8 = p" and "p \<noteq> NULL" and "p + 4 \<noteq> NULL"
    and "\<not> e_register_chrdev E ''myled'' < 0"
  shows "bus_inv E (bind_led E get s)"
proof -
  note idle = assms(1) [unfolded bus_idle_def]
  have paired: "paired (ktrace (led s)) \<longleftrightarrow> dev_in s \<and> drv_in s"
    using idle paired_iff [of "ktrace (led s)" "bus_holds E s"]
    by (cases "dev_in s"; cases "drv_in s") (auto simp: bus_holds_def)
  show ?thesis
  proof (cases "dev_in s \<and> drv_in s")
    case True
    let ?l = "step (led_probe E get) (led s)"
    let ?s = "s\<lparr>bound := True, led := ?l\<rparr>"
    from probe_run [OF _ assms(2,3,4), of "led s"] idle have l: "kfault ?l = None" "gpio_con ?l = p"
      "gpio_dat ?l = p + 4" "led_pin ?l = 5" "led_cls ?l = e_class_create E ''myled''"
      "led_major ?l = e_register_chrdev E ''myled''"
      and t: "ktrace ?l = ktrace (led s) @ [KMap (Ioremap 0x56000050 8 p),
        KChr (RegisterChrdev ''myled'' (e_register_chrdev E ''myled'')),
        KChr (ClassCreate ''myled'' (e_class_create E ''myled'')),
        KChr (ClassDeviceCreate (e_class_create E ''myled'') (e_register_chrdev E ''myled'') ''led''
          (e_class_device_create E (e_class_create E ''myled'') (e_register_chrdev E ''myled'') ''led''))]"
      by auto
    have "holds (ktrace ?l) (bus_holds E ?s)"
      unfolding t append4 using idle assms(3,4,6)
      by (intro holds_acquire [OF holds_acquire [OF holds_acquire [OF holds_acquire]]])
        (auto simp: bus_holds_def led_devt_def Let_def)
    with idle l assms(3-5) True have "bus_inv E ?s"
      by (simp add: bus_inv_def t writes_inside_append led_ready_def)
    with True paired idle show ?thesis by (simp add: bind_led_def)
  next
    case False
    with paired idle show ?thesis by (auto simp: bind_led_def bus_inv_def)
  qed
qed

lemma unbind_idle:
  assumes "bus_inv E s" and "users s = 0"
  shows "bus_idle E (unbind_led s)"
proof (cases "bound s")
  case True
  let ?l = "step led_remove (led s)"
  note inv = assms(1) [unfolded bus_inv_def]
  have t: "?l = led s\<lparr>ktrace := ktrace (led s) @ [KChr (ClassDeviceDestroy (led_cls (led s)) (led_major (led s))),
      KChr (ClassDestroy (led_cls (led s))), KChr (UnregisterChrdev (led_major (led s))),
      KMap (Iounmap (gpio_con (led s)))]\<rparr>"
    using remove_run inv by simp
  let ?M = "(if dev_in s then {#RPlatDevice ''myled''#} else {#}) + (if drv_in s then {#RPlatDriver ''myled''#} else {#})"
  have split: "bus_holds E s = add_mset (led_devt E) (add_mset (RClass (e_class_create E ''myled''))
      (add_mset (RChrdev (e_register_chrdev E ''myled'')) (add_mset (RMap (e_ioremap E 0x56000050 8)) ?M)))"
    using True by (simp add: bus_holds_def)
  have "holds (ktrace (led s)) (add_mset (led_devt E) (add_mset (RClass (e_class_create E ''myled''))
      (add_mset (RChrdev (e_register_chrdev E ''myled'')) (add_mset (RMap (e_ioremap E 0x56000050 8)) ?M))))"
    using inv split by simp
  then have h1: "holds (ktrace (led s) @ [KChr (ClassDeviceDestroy (led_cls (led s)) (led_major (led s)))])
     (add_mset (RClass (e_class_create E ''myled'')) (add_mset (RChrdev (e_register_chrdev E ''myled''))
        (add_mset (RMap (e_ioremap E 0x56000050 8)) ?M)))"
    by (rule holds_release_only [where P = "\<lambda>r. \<exists>d. r = RClassDev (led_cls (led s)) (led_major (led s)) d"]) (use inv True in \<open>auto simp: led_devt_def Let_def\<close>)
  have h2: "holds ((ktrace (led s) @ [KChr (ClassDeviceDestroy (led_cls (led s)) (led_major (led s)))]) @
      [KChr (ClassDestroy (led_cls (led s)))])
     (add_mset (RChrdev (e_register_chrdev E ''myled'')) (add_mset (RMap (e_ioremap E 0x56000050 8)) ?M))"
    by (rule holds_release [OF h1]) (use inv True in simp_all)
  have h3: "holds (((ktrace (led s) @ [KChr (ClassDeviceDestroy (led_cls (led s)) (led_major (led s)))]) @
      [KChr (ClassDestroy (led_cls (led s)))]) @ [KChr (UnregisterChrdev (led_major (led s)))])
     (add_mset (RMap (e_ioremap E 0x56000050 8)) ?M)"
    by (rule holds_release [OF h2]) (use inv True in simp_all)
  have "holds ((((ktrace (led s) @ [KChr (ClassDeviceDestroy (led_cls (led s)) (led_major (led s)))]) @
      [KChr (ClassDestroy (led_cls (led s)))]) @ [KChr (UnregisterChrdev (led_major (led s)))]) @
      [KMap (Iounmap (gpio_con (led s)))]) ?M"
    by (rule holds_release [OF h3]) (use inv True in simp_all)
  then have "holds (ktrace ?l) ?M" by (simp add: t)
  with inv True assms(2) show ?thesis
    by (simp add: unbind_led_def bus_idle_def bus_holds_def t writes_inside_append)
next
  case False
  with idle_inv [OF assms(1)] show ?thesis by (simp add: unbind_led_def)
qed

text \<open>What the two modules' own load and unload functions do to an idle bus.\<close>

lemma load_dev_idle:
  assumes "bus_idle E s" and "\<not> dev_in s"
  shows "bus_idle E (s\<lparr>dev_in := True, led := step led_dev_init (led s)\<rparr>)"
  using assms
  by (auto simp: bus_idle_def led_dev_init_def writes_inside_append bus_holds_def intro!: holds_acquire)

lemma load_drv_idle:
  assumes "bus_idle E s" and "\<not> drv_in s" and "e_platform_driver_register E = 0"
  shows "bus_idle E (s\<lparr>drv_in := True, led := step (led_drv_init E) (fresh_led (led s))\<rparr>)"
  using assms
  by (auto simp: bus_idle_def led_drv_init_def fresh_led_def led_initial_def writes_inside_append bus_holds_def
      intro!: holds_acquire)

lemma unload_idle:
  assumes "bus_idle E s"
  shows "dev_in s \<Longrightarrow> bus_idle E (s\<lparr>dev_in := False, led := step led_dev_exit (led s)\<rparr>)"
    and "drv_in s \<Longrightarrow> bus_idle E (s\<lparr>drv_in := False, led := step led_drv_exit (led s)\<rparr>)"
  using assms
  by (auto simp: bus_idle_def led_dev_exit_def led_drv_exit_def writes_inside_append bus_holds_def
      intro!: holds_release)

lemma idle_to_inv: "bus_idle E s \<Longrightarrow> \<not> (dev_in s \<and> drv_in s) \<Longrightarrow> bus_inv E s"
  by (auto simp: bus_idle_def bus_inv_def)

lemma unbind_keeps [simp]: "dev_in (unbind_led s) = dev_in s" "drv_in (unbind_led s) = drv_in s"
  "users (unbind_led s) = users s"
  by (simp_all add: unbind_led_def)

text \<open>A file that is open on a bound device: the operations of the driver only write to its window.\<close>

definition led_ops :: "(led_state \<Rightarrow> led_state) set" where
  "led_ops = insert (step led_open) {step (led_write buf stack n) |buf stack n. n \<le> 4}"

lemma led_write_step:
  assumes "kfault s = None" and "gpio_dat s \<noteq> NULL" and "n \<le> 4"
  shows "\<exists>v. step (led_write buf stack n) s =
    s\<lparr>kmem := (kmem s)(gpio_dat s := v), ktrace := ktrace s @ [KMap (WriteReg (gpio_dat s) v)]\<rparr>"
  using assms by (cases "le32 (buf n @ drop n stack) = 1") (auto simp: driver_defs Let_def)

interpretation led_regs: register_user led_ops
  "\<lambda>s. led_ready s \<and> gpio_dat s = gpio_con s + 4" "\<lambda>s. [(gpio_con s, 8)]"
proof
  fix s f
  assume ok: "led_ready s \<and> gpio_dat s = gpio_con s + 4" and "f \<in> led_ops"
  then consider "f = step led_open" | buf stack n where "f = step (led_write buf stack n)" "n \<le> 4"
    by (auto simp: led_ops_def)
  then show "(led_ready (f s) \<and> gpio_dat (f s) = gpio_con (f s) + 4) \<and>
    [(gpio_con (f s), 8)] = [(gpio_con s, 8)] \<and> (\<forall>V. set [(gpio_con s, 8)] \<subseteq> set V \<longrightarrow> extends V s (f s) V)"
  proof cases
    case 1
    with ok show ?thesis by (auto simp: led_ready_def driver_defs extends_def)
  next
    case 2
    with ok led_write_step [of s n buf stack] show ?thesis
      by (auto simp: led_ready_def extends_def)
  qed
qed

lemma led_ops_trace:
  assumes "f \<in> led_ops" and "led_ready l"
  shows "\<exists>mem u. f l = l\<lparr>kmem := mem, ktrace := ktrace l @ u\<rparr> \<and> (\<forall>c \<in> set u. acquires c = [] \<and> releases c = None)"
proof -
  from assms(1) consider "f = step led_open" | buf stack n where "f = step (led_write buf stack n)" "n \<le> 4"
    by (auto simp: led_ops_def)
  then show ?thesis
  proof cases
    case 1
    with assms(2) show ?thesis
      by (intro exI [of _ "kmem (f l)"] exI [of _ "drop (length (ktrace l)) (ktrace (f l))"])
        (simp add: led_ready_def driver_defs)
  next
    case 2
    with assms(2) led_write_step [of l n buf stack] obtain v where
      "f l = l\<lparr>kmem := (kmem l)(gpio_dat l := v), ktrace := ktrace l @ [KMap (WriteReg (gpio_dat l) v)]\<rparr>"
      by (auto simp: led_ready_def)
    then show ?thesis
      by (intro exI [of _ "(kmem l)(gpio_dat l := v)"] exI [of _ "[KMap (WriteReg (gpio_dat l) v)]"]) simp
  qed
qed

lemma holds_writes: "\<forall>c \<in> set u. acquires c = [] \<and> releases c = None \<Longrightarrow> holds (t @ u) M \<longleftrightarrow> holds t M"
  by (auto simp: holds_def account_append account_neutral split: bind_splits)

lemma file_op_inv:
  assumes "bus_inv E s" and "bound s" and "f \<in> led_ops"
  shows "bus_inv E (s\<lparr>users := k, led := f (led s)\<rparr>)"
proof -
  note inv = assms(1) [unfolded bus_inv_def]
  have ready: "led_ready (led s) \<and> gpio_dat (led s) = gpio_con (led s) + 4" using inv assms(2) by simp
  from led_regs.ops_inside [OF ready, of "[f]" "[(gpio_con (led s), 8)]"] assms(3)
  have f: "led_ready (f (led s))" "extends [(gpio_con (led s), 8)] (led s) (f (led s)) [(gpio_con (led s), 8)]"
    by simp_all
  from led_ops_trace [OF assms(3) conjunct1 [OF ready]] obtain mem u where
    u: "f (led s) = led s\<lparr>kmem := mem, ktrace := ktrace (led s) @ u\<rparr>" "\<forall>c \<in> set u. acquires c = [] \<and> releases c = None"
    by blast
  have track: "foldl track [] (ktrace (led s)) = [(gpio_con (led s), 8)]" using inv assms(2) by simp
  have "writes_inside [] (ktrace (f (led s)))"
    using f(2) inv track by (auto simp: extends_def writes_inside_append)
  moreover have "foldl track [] (ktrace (f (led s))) = [(gpio_con (led s), 8)]"
    using f(2) track by (auto simp: extends_def)
  moreover have "holds (ktrace (f (led s))) (bus_holds E (s\<lparr>users := k, led := f (led s)\<rparr>))"
    using inv holds_writes [OF u(2)] by (simp add: u(1))
  ultimately show ?thesis
    using inv assms(2) f(1) unfolding bus_inv_def by (simp add: u(1) led_ready_def)
qed

lemma bus_step_inv:
  assumes "bus_step True E get s t" and "bus_inv E s" and "get_type get"
    and "e_ioremap E 0x56000050 8 = p" and "p \<noteq> NULL" and "p + 4 \<noteq> NULL"
    and "\<not> e_register_chrdev E ''myled'' < 0" and "e_platform_driver_register E = 0"
  shows "bus_inv E t"
  using assms(1)
proof cases
  case load_dev
  have "\<not> bound s" using assms(2) load_dev by (simp add: bus_inv_def)
  with load_dev bind_inv [OF load_dev_idle assms(3-7)] idle_inv [OF assms(2)] show ?thesis by simp
next
  case load_drv
  have "\<not> bound s" using assms(2) load_drv by (simp add: bus_inv_def)
  with load_drv bind_inv [OF load_drv_idle assms(3-7)] idle_inv [OF assms(2)] assms(8) show ?thesis by simp
next
  case (unload_dev u)
  with unload_idle(1) [OF unbind_idle [OF assms(2)]] show ?thesis by (intro idle_to_inv) simp_all
next
  case (unload_drv u)
  with unload_idle(2) [OF unbind_idle [OF assms(2)]] show ?thesis by (intro idle_to_inv) simp_all
next
  case open_node
  then show ?thesis using file_op_inv [OF assms(2), of "step led_open"] by (simp add: led_ops_def)
next
  case (write_node n buf stack)
  have "bound s" using assms(2) write_node unfolding bus_inv_def by blast
  with write_node file_op_inv [OF assms(2), of "step (led_write buf stack n)" "users s"] show ?thesis
    by (auto simp: led_ops_def)
next
  case close_node
  with assms(2) show ?thesis unfolding bus_inv_def by auto
qed

lemma bus_run_inv:
  assumes "bus_run True E get (bus_start m) s" and "get_type get"
    and "e_ioremap E 0x56000050 8 = p" and "p \<noteq> NULL" and "p + 4 \<noteq> NULL"
    and "\<not> e_register_chrdev E ''myled'' < 0" and "e_platform_driver_register E = 0"
  shows "bus_inv E s"
  using assms(1)
proof (induction rule: rtranclp_induct)
  case base
  then show ?case by (simp add: bus_inv_def bus_start_def led_initial_def bus_holds_def)
next
  case (step s t)
  with bus_step_inv [OF step.hyps(2) step.IH assms(2-7)] show ?case by blast
qed

text \<open>Unloading \<open>led_dev\<close> under an open file.\<close>

lemma careful_step: "bus_step True E get s t \<Longrightarrow> bus_step False E get s t"
  by (induction rule: bus_step.induct) (blast intro: bus_step.intros)+

lemma bind_keeps [simp]: "dev_in (bind_led E get s) = dev_in s" "drv_in (bind_led E get s) = drv_in s"
  "users (bind_led E get s) = users s"
  by (simp_all add: bind_led_def)

lemma write_after_unbind:
  assumes "bus_inv E s" and "bound s" and "t = unbind_led s"
    and "u = t\<lparr>dev_in := False, led := step led_dev_exit (led t)\<rparr>"
  shows "\<not> writes_inside [] (ktrace (step (led_write buf stack 4) (led u)))" and "\<not> bound u"
proof -
  note inv = assms(1) [unfolded bus_inv_def]
  from inv have "kfault (led s) = None" by simp
  note t = assms(3) [unfolded unbind_led_def led_drv_simps remove_run [OF this]]
  from t assms(2,4) show "\<not> bound u" by simp
  have u: "led u = (led s)\<lparr>ktrace := ktrace (led u)\<rparr>" "foldl track [] (ktrace (led u)) = []"
    using t inv assms(2,4) by (simp_all add: led_dev_exit_def)
  have "led_ready (led s)" using inv assms(2) by simp
  then have ready: "kfault (led u) = None" "gpio_dat (led u) \<noteq> NULL"
    by (subst u(1), simp add: led_ready_def)+
  from led_write_step [OF ready, of 4 buf stack] obtain v where
    "ktrace (step (led_write buf stack 4) (led u)) = ktrace (led u) @ [KMap (WriteReg (gpio_dat (led u)) v)]"
    by auto
  then show "\<not> writes_inside [] (ktrace (step (led_write buf stack 4) (led u)))"
    by (simp add: writes_inside_append u(2) covers_def)
qed

section \<open>Properties\<close>


lemma both_loaded: "\<exists>s. bus_run careful E get (bus_start m) s \<and> dev_in s \<and> drv_in s \<and> users s = 0"
proof -
  let ?s0 = "bus_start m"
  let ?s1 = "bind_led E get (?s0\<lparr>dev_in := True, led := step led_dev_init (led ?s0)\<rparr>)"
  let ?s2 = "bind_led E get (?s1\<lparr>drv_in := True, led := step (led_drv_init E) (fresh_led (led ?s1))\<rparr>)"
  have "\<not> dev_in ?s0" "\<not> drv_in ?s1" by (simp_all add: bus_start_def)
  then have "bus_run careful E get ?s0 ?s2"
    using load_dev [of ?s0 careful E get] load_drv [of ?s1 careful E get]
    by (blast intro: rtranclp.rtrancl_into_rtrancl)
  then show ?thesis by (intro exI [of _ ?s2]) (simp add: bus_start_def)
qed


text \<open>
  Without that care it goes wrong: unloading \<open>led_dev\<close> removes the device under an open file (only \<open>led_drv\<close>
  is pinned by the file), \<open>led_remove\<close> unmaps the registers, and the next \<open>write\<close> of the program goes to an
  address that is no longer mapped.
\<close>

theorem led_dev_unloaded_under_open_file:
  assumes "get_type get" and "e_ioremap E 0x56000050 8 = p" and "p \<noteq> NULL" and "p + 4 \<noteq> NULL"
    and "\<not> e_register_chrdev E ''myled'' < 0" and "e_platform_driver_register E = 0"
  shows "\<exists>s. bus_run False E get (bus_start m) s \<and> 0 < users s \<and> \<not> bound s \<and> \<not> writes_inside [] (ktrace (led s))"
proof -
  obtain s2 where r2: "bus_run True E get (bus_start m) s2" and in2: "dev_in s2" "drv_in s2"
    using both_loaded [of True E get m] by blast
  let ?s3 = "s2\<lparr>users := Suc (users s2), led := step led_open (led s2)\<rparr>"
  let ?s4 = "(unbind_led ?s3)\<lparr>dev_in := False, led := step led_dev_exit (led (unbind_led ?s3))\<rparr>"
  let ?s5 = "?s4\<lparr>led := step (led_write (user_int 1) [0, 0, 0, 0] 4) (led ?s4)\<rparr>"
  have b2: "bound s2" using bus_run_inv [OF r2 assms] in2 by (simp add: bus_inv_def)
  have r3: "bus_run True E get (bus_start m) ?s3"
    using r2 open_node [OF b2, of True E get] by (rule rtranclp.rtrancl_into_rtrancl)
  have b3: "bound ?s3" using b2 by simp
  note bad = write_after_unbind(1) [OF bus_run_inv [OF r3 assms] b3 refl refl, of "user_int 1" "[0, 0, 0, 0]"]
    write_after_unbind(2) [OF bus_run_inv [OF r3 assms] b3 refl refl]
  have "bus_step False E get ?s3 ?s4" by (rule unload_dev) (simp_all add: in2)
  moreover have "bus_step False E get ?s4 ?s5" by (rule write_node) simp_all
  moreover have "bus_run False E get (bus_start m) ?s3"
    using r3 by (rule rtranclp_mono [THEN predicate2D, rotated]) (blast intro: careful_step)
  ultimately have "bus_run False E get (bus_start m) ?s5" by (meson rtranclp.rtrancl_into_rtrancl)
  moreover have "0 < users ?s5 \<and> \<not> bound ?s5 \<and> \<not> writes_inside [] (ktrace (led ?s5))"
    using bad by simp
  ultimately show ?thesis by blast
qed

end
