(* ===== verification/Buttons_Irq.thy ===== *)
theory Buttons_Irq
  imports Kernel "HOL-Library.Sublist"
begin

text \<open>
  The button drivers that read keys without debouncing: \<open>src/Drivers/2.seconddrv/second_drv.c\<close>
  (reads the levels of three pins on every call) and the interrupt-driven
  \<open>src/Drivers/3.thirddrv/third_drv.c\<close>, \<open>4.forthdrv/forth_drv.c\<close> (with \<open>poll\<close>) and
  \<open>5.fifthdrv/fifth_drv.c\<close> (with \<open>fasync\<close>). The interrupt handler and any number of reading
  processes run interleaved: \<open>reader_step\<close> has one rule per atomic step of \<open>third_drv_read\<close> and
  one for the interrupt. The three interrupt drivers share the contract \<open>key_source\<close>. A last section has
  the device opened by two processes: the kernel refuses the lines the first one holds, and \<open>open\<close> ignores it.
\<close>

section \<open>second_drv.c\<close>

record second_state = kstate +
  second_gpfcon :: ptr
  second_gpfdat :: ptr
  second_gpgcon :: ptr
  second_gpgdat :: ptr
  second_major :: int
  seconddrv_class :: ptr
  seconddrv_class_dev :: ptr

definition second_drv_open :: "(second_state, nat) state" where
  "second_drv_open = do {
     gpfcon \<leftarrow> gets second_gpfcon;
     modify gpfcon (\<lambda>r. r AND NOT (push_bit (0*2) 0x3 OR push_bit (2*2) 0x3));
     gpgcon \<leftarrow> gets second_gpgcon;
     modify gpgcon (\<lambda>r. r AND NOT (push_bit (3*2) 0x3));
     State_Monad.return 0 }"

text \<open>The second component of the result is what \<open>copy_to_user\<close> is asked to copy.\<close>

definition second_drv_read :: "nat \<Rightarrow> (second_state, c_int \<times> u8 list) state" where
  "second_drv_read sz =
     (if sz \<noteq> 3 then State_Monad.return (Inl EINVAL, [])
      else do {
        gpfdat \<leftarrow> gets second_gpfdat;
        regval \<leftarrow> load gpfdat;
        (let k0 = (if regval AND push_bit 0 1 \<noteq> 0 then 1 else 0);
             k1 = (if regval AND push_bit 2 1 \<noteq> 0 then 1 else 0) in do {
          gpgdat \<leftarrow> gets second_gpgdat;
          regval \<leftarrow> load gpgdat;
          (let k2 = (if regval AND push_bit 3 1 \<noteq> 0 then 1 else 0) in
           State_Monad.return (Inr 3, [k0, k1, k2])) }) })"

definition second_drv_init :: "kenv \<Rightarrow> (second_state, nat) state" where
  "second_drv_init E = do {
     major \<leftarrow> register_chrdev E ''second_drv'';
     upd (\<lambda>s. s\<lparr>second_major := major\<rparr>);
     cls \<leftarrow> class_create E ''second_drv'';
     upd (\<lambda>s. s\<lparr>seconddrv_class := cls\<rparr>);
     dev \<leftarrow> class_device_create E cls major ''bottons'';
     upd (\<lambda>s. s\<lparr>seconddrv_class_dev := dev\<rparr>);
     p \<leftarrow> ioremap E 0x56000050 16;
     upd (\<lambda>s. s\<lparr>second_gpfcon := p\<rparr>);
     upd (\<lambda>s. s\<lparr>second_gpfdat := second_gpfcon s + 4\<rparr>);
     q \<leftarrow> ioremap E 0x56000060 16;
     upd (\<lambda>s. s\<lparr>second_gpgcon := q\<rparr>);
     upd (\<lambda>s. s\<lparr>second_gpgdat := second_gpgcon s + 4\<rparr>);
     State_Monad.return 0 }"

definition second_drv_exit :: "(second_state, unit) state" where
  "second_drv_exit = do {
     s \<leftarrow> State_Monad.get;
     call (KChr (UnregisterChrdev (second_major s)));
     call (KChr (ClassDeviceUnregister (seconddrv_class_dev s)));
     call (KChr (ClassDestroy (seconddrv_class s)));
     call (KMap (Iounmap (second_gpfcon s)));
     call (KMap (Iounmap (second_gpgcon s))) }"

definition second_initial :: "(ptr \<Rightarrow> u32) \<Rightarrow> second_state" where
  "second_initial m = \<lparr>ktrace = [], kmem = m, kfault = None, second_gpfcon = NULL,
     second_gpfdat = NULL, second_gpgcon = NULL, second_gpgdat = NULL, second_major = 0,
     seconddrv_class = NULL, seconddrv_class_dev = NULL\<rparr>"

declare second_drv_open_def [driver_defs] second_drv_read_def [driver_defs]
  second_drv_init_def [driver_defs] second_drv_exit_def [driver_defs]

lemma and_bit_nonzero:
  fixes w :: u32
  assumes "n < 32"
  shows "w AND push_bit n 1 \<noteq> 0 \<longleftrightarrow> bit w n"
  using assms by (simp add: and_exp_eq_0_iff_not_bit)

lemma second_read_run:
  assumes "kfault s = None" and "second_gpfdat s \<noteq> NULL" and "second_gpgdat s \<noteq> NULL"
  shows "exec (second_drv_read 3) s = Inr ((Inr 3,
    [of_bool (bit (kmem s (second_gpfdat s)) 0), of_bool (bit (kmem s (second_gpfdat s)) 2),
     of_bool (bit (kmem s (second_gpgdat s)) 3)]), s)"
  using assms and_bit_nonzero [of 0] and_bit_nonzero [of 2] and_bit_nonzero [of 3]
  by (simp add: driver_defs exec_def Let_def)

section \<open>The interrupt drivers\<close>

text \<open>
  Pins and interrupt lines of the three buttons, and the table \<open>pins_desc\<close>. A \<open>dev_id\<close> is the
  index of the entry whose address the driver passes.
\<close>

datatype gpio_pin = S3C2410_GPF0 | S3C2410_GPF2 | S3C2410_GPG3

record pin_desc =
  pd_pin :: gpio_pin
  pd_key_val :: u32

definition pins_desc :: "pin_desc list" where
  "pins_desc = [\<lparr>pd_pin = S3C2410_GPF0, pd_key_val = 0x01\<rparr>,
     \<lparr>pd_pin = S3C2410_GPF2, pd_key_val = 0x02\<rparr>,
     \<lparr>pd_pin = S3C2410_GPG3, pd_key_val = 0x03\<rparr>]"

text \<open>The pins as a finite type, so that statements about all pins can be evaluated.\<close>

instantiation gpio_pin :: enum
begin

definition enum_gpio_pin :: "gpio_pin list" where
  "enum_gpio_pin = [S3C2410_GPF0, S3C2410_GPF2, S3C2410_GPG3]"

definition enum_all_gpio_pin :: "(gpio_pin \<Rightarrow> bool) \<Rightarrow> bool" where
  "enum_all_gpio_pin P \<longleftrightarrow> P S3C2410_GPF0 \<and> P S3C2410_GPF2 \<and> P S3C2410_GPG3"

definition enum_ex_gpio_pin :: "(gpio_pin \<Rightarrow> bool) \<Rightarrow> bool" where
  "enum_ex_gpio_pin P \<longleftrightarrow> P S3C2410_GPF0 \<or> P S3C2410_GPF2 \<or> P S3C2410_GPG3"

instance
proof
  show "(UNIV :: gpio_pin set) = set enum_class.enum"
    by (auto simp: enum_gpio_pin_def) (metis gpio_pin.exhaust)
  show "distinct (enum_class.enum :: gpio_pin list)" by (simp add: enum_gpio_pin_def)
  fix P :: "gpio_pin \<Rightarrow> bool"
  show "enum_class.enum_all P \<longleftrightarrow> Ball UNIV P"
    by (auto simp: enum_all_gpio_pin_def) (metis gpio_pin.exhaust)
  show "enum_class.enum_ex P \<longleftrightarrow> Bex UNIV P"
    by (auto simp: enum_ex_gpio_pin_def) (metis gpio_pin.exhaust)
qed

end

lemma one_entry_per_pin: "map pd_pin pins_desc = enum_class.enum"
  by (simp add: pins_desc_def enum_gpio_pin_def)

text \<open>\<open>forth_drv.c\<close> and \<open>fifth_drv.c\<close> declare tables of their own, with the same contents.\<close>

definition forth_pins_desc :: "pin_desc list" where
  "forth_pins_desc = [\<lparr>pd_pin = S3C2410_GPF0, pd_key_val = 0x01\<rparr>,
     \<lparr>pd_pin = S3C2410_GPF2, pd_key_val = 0x02\<rparr>,
     \<lparr>pd_pin = S3C2410_GPG3, pd_key_val = 0x03\<rparr>]"

definition fifth_pins_desc :: "pin_desc list" where
  "fifth_pins_desc = [\<lparr>pd_pin = S3C2410_GPF0, pd_key_val = 0x01\<rparr>,
     \<lparr>pd_pin = S3C2410_GPF2, pd_key_val = 0x02\<rparr>,
     \<lparr>pd_pin = S3C2410_GPG3, pd_key_val = 0x03\<rparr>]"

lemma same_pins [simp]: "forth_pins_desc = pins_desc" "fifth_pins_desc = pins_desc"
  by (simp_all add: forth_pins_desc_def fifth_pins_desc_def pins_desc_def)

text \<open>The address of \<open>pins_desc[i]\<close>: eight bytes per entry from the address of the table.\<close>

definition pin_addr :: "ptr \<Rightarrow> nat \<Rightarrow> ptr" where
  "pin_addr pins i = pins + of_nat (8 * i)"

record btn_state = kstate +
  ev_press :: nat
  keyval :: u8
  btn_major :: int
  btn_class :: ptr
  btn_class_dev :: ptr

definition btn_initial :: btn_state where
  "btn_initial = \<lparr>ktrace = [], kmem = (\<lambda>_. 0), kfault = None, ev_press = 0, keyval = 0,
     btn_major = 0, btn_class = NULL, btn_class_dev = NULL\<rparr>"

text \<open>\<open>getpin\<close> stands for \<open>s3c2410_gpio_getpin\<close>: zero if the pin is low.\<close>

definition third_buttons_irq :: "(gpio_pin \<Rightarrow> u32) \<Rightarrow> nat \<Rightarrow> (btn_state, unit) state" where
  "third_buttons_irq getpin dev_id =
     (let pindesc = pins_desc ! dev_id; pinval = getpin (pd_pin pindesc) in do {
        (if pinval \<noteq> 0 then upd (\<lambda>s. s\<lparr>keyval := ucast (0x80 OR pd_key_val pindesc)\<rparr>)
         else upd (\<lambda>s. s\<lparr>keyval := ucast (pd_key_val pindesc)\<rparr>));
        upd (\<lambda>s. s\<lparr>ev_press := 1\<rparr>);
        call (KWait WakeUp) })"

definition third_drv_open :: "kenv \<Rightarrow> ptr \<Rightarrow> (btn_state, nat) state" where
  "third_drv_open E pins = do {
     request_irq E IRQ_EINT0 (pin_addr pins 0);
     request_irq E IRQ_EINT2 (pin_addr pins 1);
     request_irq E IRQ_EINT11 (pin_addr pins 2);
     State_Monad.return 0 }"

definition third_drv_close :: "ptr \<Rightarrow> (btn_state, nat) state" where
  "third_drv_close pins = do {
     call (KIrq (FreeIrq IRQ_EINT0 (pin_addr pins 0)));
     call (KIrq (FreeIrq IRQ_EINT2 (pin_addr pins 1)));
     call (KIrq (FreeIrq IRQ_EINT11 (pin_addr pins 2)));
     State_Monad.return 0 }"

text \<open>
  \<open>third_drv_read\<close> in its three atomic parts: the wait, of which it ignores the result, the copy to
  user space and the reset of \<open>ev_press\<close>. The sequential composition takes the outcome of the wait as
  a parameter: \<open>interrupted\<close> says that a signal ended it. \<open>None\<close> is a read that still sleeps.
\<close>

definition read_copy :: "btn_state \<Rightarrow> u8" where
  "read_copy s = keyval s"

definition read_clear :: "btn_state \<Rightarrow> btn_state" where
  "read_clear s = s\<lparr>ev_press := 0\<rparr>"

definition third_drv_read ::
  "bool \<Rightarrow> nat \<Rightarrow> btn_state \<Rightarrow> ((c_int \<times> u8 list) \<times> btn_state) option" where
  "third_drv_read interrupted sz s =
     (if sz \<noteq> 1 then Some ((Inl EINVAL, []), s)
      else if ev_press s \<noteq> 0 \<or> interrupted
      then Some ((Inr 1, [read_copy s]), read_clear s)
      else None)"

section \<open>forth_drv.c and fifth_drv.c\<close>

definition forth_buttons_irq :: "(gpio_pin \<Rightarrow> u32) \<Rightarrow> nat \<Rightarrow> (btn_state, unit) state" where
  "forth_buttons_irq getpin dev_id =
     (let pindesc = forth_pins_desc ! dev_id; pinval = getpin (pd_pin pindesc) in do {
        (if pinval \<noteq> 0 then upd (\<lambda>s. s\<lparr>keyval := ucast (0x80 OR pd_key_val pindesc)\<rparr>)
         else upd (\<lambda>s. s\<lparr>keyval := ucast (pd_key_val pindesc)\<rparr>));
        upd (\<lambda>s. s\<lparr>ev_press := 1\<rparr>);
        call (KWait WakeUp) })"

definition forth_drv_read ::
  "bool \<Rightarrow> nat \<Rightarrow> btn_state \<Rightarrow> ((c_int \<times> u8 list) \<times> btn_state) option" where
  "forth_drv_read interrupted sz s =
     (if sz \<noteq> 1 then Some ((Inl EINVAL, []), s)
      else if ev_press s \<noteq> 0 \<or> interrupted
      then Some ((Inr 1, [keyval s]), s\<lparr>ev_press := 0\<rparr>)
      else None)"

definition POLLIN :: u32 where "POLLIN = 0x0001"
definition POLLRDNORM :: u32 where "POLLRDNORM = 0x0040"

definition forth_drv_poll :: "(btn_state, u32) state" where
  "forth_drv_poll = do {
     call (KWait PollWait);
     pressed \<leftarrow> gets ev_press;
     State_Monad.return (if pressed \<noteq> 0 then 0 OR (POLLIN OR POLLRDNORM) else 0) }"

definition fifth_buttons_irq :: "(gpio_pin \<Rightarrow> u32) \<Rightarrow> nat \<Rightarrow> (btn_state, unit) state" where
  "fifth_buttons_irq getpin dev_id =
     (let pindesc = fifth_pins_desc ! dev_id; pinval = getpin (pd_pin pindesc) in do {
        (if pinval \<noteq> 0 then upd (\<lambda>s. s\<lparr>keyval := ucast (0x80 OR pd_key_val pindesc)\<rparr>)
         else upd (\<lambda>s. s\<lparr>keyval := ucast (pd_key_val pindesc)\<rparr>));
        upd (\<lambda>s. s\<lparr>ev_press := 1\<rparr>);
        call (KWait WakeUp) })"

definition fifth_drv_read ::
  "bool \<Rightarrow> nat \<Rightarrow> btn_state \<Rightarrow> ((c_int \<times> u8 list) \<times> btn_state) option" where
  "fifth_drv_read interrupted sz s =
     (if sz \<noteq> 1 then Some ((Inl EINVAL, []), s)
      else if ev_press s \<noteq> 0 \<or> interrupted
      then Some ((Inr 1, [keyval s]), s\<lparr>ev_press := 0\<rparr>)
      else None)"

definition fifth_drv_poll :: "(btn_state, u32) state" where
  "fifth_drv_poll = do {
     call (KWait PollWait);
     pressed \<leftarrow> gets ev_press;
     State_Monad.return (if pressed \<noteq> 0 then 0 OR (POLLIN OR POLLRDNORM) else 0) }"

text \<open>The result of \<open>fasync_helper\<close> is handed through.\<close>

definition fifth_drv_fasync :: "nat \<Rightarrow> bool \<Rightarrow> (btn_state, nat) state" where
  "fifth_drv_fasync result on = do {
     call (KWait (FasyncHelper on));
     State_Monad.return result }"

definition forth_drv_open :: "kenv \<Rightarrow> ptr \<Rightarrow> (btn_state, nat) state" where
  "forth_drv_open E pins = do {
     request_irq E IRQ_EINT0 (pin_addr pins 0);
     request_irq E IRQ_EINT2 (pin_addr pins 1);
     request_irq E IRQ_EINT11 (pin_addr pins 2);
     State_Monad.return 0 }"

definition forth_drv_close :: "ptr \<Rightarrow> (btn_state, nat) state" where
  "forth_drv_close pins = do {
     call (KIrq (FreeIrq IRQ_EINT0 (pin_addr pins 0)));
     call (KIrq (FreeIrq IRQ_EINT2 (pin_addr pins 1)));
     call (KIrq (FreeIrq IRQ_EINT11 (pin_addr pins 2)));
     State_Monad.return 0 }"

definition fifth_drv_open :: "kenv \<Rightarrow> ptr \<Rightarrow> (btn_state, nat) state" where
  "fifth_drv_open E pins = do {
     request_irq E IRQ_EINT0 (pin_addr pins 0);
     request_irq E IRQ_EINT2 (pin_addr pins 1);
     request_irq E IRQ_EINT11 (pin_addr pins 2);
     State_Monad.return 0 }"

definition fifth_drv_close :: "ptr \<Rightarrow> (btn_state, nat) state" where
  "fifth_drv_close pins = do {
     call (KIrq (FreeIrq IRQ_EINT0 (pin_addr pins 0)));
     call (KIrq (FreeIrq IRQ_EINT2 (pin_addr pins 1)));
     call (KIrq (FreeIrq IRQ_EINT11 (pin_addr pins 2)));
     State_Monad.return 0 }"

definition third_drv_init :: "kenv \<Rightarrow> (btn_state, nat) state" where
  "third_drv_init E = do {
     major \<leftarrow> register_chrdev E ''third_drv'';
     upd (\<lambda>s. s\<lparr>btn_major := major\<rparr>);
     cls \<leftarrow> class_create E ''third_drv'';
     upd (\<lambda>s. s\<lparr>btn_class := cls\<rparr>);
     dev \<leftarrow> class_device_create E cls major ''buttons'';
     upd (\<lambda>s. s\<lparr>btn_class_dev := dev\<rparr>);
     State_Monad.return 0 }"

definition third_drv_exit :: "(btn_state, unit) state" where
  "third_drv_exit = do {
     s \<leftarrow> State_Monad.get;
     call (KChr (UnregisterChrdev (btn_major s)));
     call (KChr (ClassDeviceUnregister (btn_class_dev s)));
     call (KChr (ClassDestroy (btn_class s))) }"

definition forth_drv_init :: "kenv \<Rightarrow> (btn_state, nat) state" where
  "forth_drv_init E = do {
     major \<leftarrow> register_chrdev E ''forth_drv'';
     upd (\<lambda>s. s\<lparr>btn_major := major\<rparr>);
     cls \<leftarrow> class_create E ''forth_drv'';
     upd (\<lambda>s. s\<lparr>btn_class := cls\<rparr>);
     dev \<leftarrow> class_device_create E cls major ''buttons'';
     upd (\<lambda>s. s\<lparr>btn_class_dev := dev\<rparr>);
     State_Monad.return 0 }"

definition forth_drv_exit :: "(btn_state, nat) state" where
  "forth_drv_exit = do {
     s \<leftarrow> State_Monad.get;
     call (KChr (UnregisterChrdev (btn_major s)));
     call (KChr (ClassDeviceUnregister (btn_class_dev s)));
     call (KChr (ClassDestroy (btn_class s)));
     State_Monad.return 0 }"

definition fifth_drv_init :: "kenv \<Rightarrow> (btn_state, nat) state" where
  "fifth_drv_init E = do {
     major \<leftarrow> register_chrdev E ''fifth_drv'';
     upd (\<lambda>s. s\<lparr>btn_major := major\<rparr>);
     cls \<leftarrow> class_create E ''fifth_drv'';
     upd (\<lambda>s. s\<lparr>btn_class := cls\<rparr>);
     dev \<leftarrow> class_device_create E cls major ''buttons'';
     upd (\<lambda>s. s\<lparr>btn_class_dev := dev\<rparr>);
     State_Monad.return 0 }"

definition fifth_drv_exit :: "(btn_state, nat) state" where
  "fifth_drv_exit = do {
     s \<leftarrow> State_Monad.get;
     call (KChr (UnregisterChrdev (btn_major s)));
     call (KChr (ClassDeviceUnregister (btn_class_dev s)));
     call (KChr (ClassDestroy (btn_class s)));
     State_Monad.return 0 }"

lemmas btn_module_defs [driver_defs] = third_drv_init_def third_drv_exit_def forth_drv_init_def
  forth_drv_exit_def fifth_drv_init_def fifth_drv_exit_def

declare third_buttons_irq_def [driver_defs] third_drv_open_def [driver_defs]
  third_drv_close_def [driver_defs] forth_buttons_irq_def [driver_defs]
  forth_drv_poll_def [driver_defs] fifth_buttons_irq_def [driver_defs]
  fifth_drv_poll_def [driver_defs] fifth_drv_fasync_def [driver_defs]
  forth_drv_open_def [driver_defs] forth_drv_close_def [driver_defs]
  fifth_drv_open_def [driver_defs] fifth_drv_close_def [driver_defs]

section \<open>Key codes\<close>

text \<open>What a key code says: which button, and with bit 7 that it was released.\<close>

definition key_code :: "(gpio_pin \<Rightarrow> u32) \<Rightarrow> nat \<Rightarrow> u8" where
  "key_code getpin d = (if getpin (pd_pin (pins_desc ! d)) \<noteq> 0 then 0x80 else 0) OR of_nat (d + 1)"

definition decode_key :: "u8 \<Rightarrow> nat \<times> bool" where
  "decode_key k = (unat (k AND 0x7f) - 1, bit k 7)"

lemma pins_cases: "d < 3 \<Longrightarrow> d = 0 \<or> d = 1 \<or> d = (2::nat)"
  by auto

lemma decode_key_code:
  "d < 3 \<Longrightarrow> decode_key (key_code g d) = (d, g (pd_pin (pins_desc ! d)) \<noteq> 0)"
  by (drule pins_cases) (auto simp: key_code_def decode_key_def)

lemma key_code_range: "d < 3 \<Longrightarrow> key_code g d \<in> {0x01, 0x02, 0x03, 0x81, 0x82, 0x83}"
  by (drule pins_cases) (auto simp: key_code_def)

lemma third_irq_run:
  assumes "kfault s = None" and "d < 3"
  shows "run_state (third_buttons_irq g d) s =
    ((), s\<lparr>keyval := key_code g d, ev_press := 1, ktrace := ktrace s @ [KWait WakeUp]\<rparr>)"
  using assms(1) pins_cases [OF assms(2)]
  by (auto simp: driver_defs key_code_def pins_desc_def Let_def)

lemma forth_irq_eq: "forth_buttons_irq = third_buttons_irq"
  by (intro ext) (simp add: forth_buttons_irq_def third_buttons_irq_def)

lemma fifth_irq_eq: "fifth_buttons_irq = third_buttons_irq"
  by (intro ext) (simp add: fifth_buttons_irq_def third_buttons_irq_def)

section \<open>The contract of the interrupt drivers\<close>

locale key_source =
  fixes irq :: "(gpio_pin \<Rightarrow> u32) \<Rightarrow> nat \<Rightarrow> 's \<Rightarrow> 's"
    and read :: "bool \<Rightarrow> nat \<Rightarrow> 's \<Rightarrow> ((c_int \<times> u8 list) \<times> 's) option"
    and pending :: "'s \<Rightarrow> bool" and key :: "'s \<Rightarrow> u8" and ok :: "'s \<Rightarrow> bool"
  assumes irq_spec: "ok s \<Longrightarrow> d < 3 \<Longrightarrow>
      ok (irq g d s) \<and> pending (irq g d s) \<and> key (irq g d s) = key_code g d"
    and read_size: "n \<noteq> 1 \<Longrightarrow> read i n s = Some ((Inl EINVAL, []), s)"
    and read_sleeps: "\<not> pending s \<Longrightarrow> read False 1 s = None"
    and read_key: "ok s \<Longrightarrow> pending s \<Longrightarrow> \<exists>s'. read i 1 s = Some ((Inr 1, [key s]), s') \<and>
      ok s' \<and> \<not> pending s' \<and> key s' = key s"

fun presses_run :: "((gpio_pin \<Rightarrow> u32) \<Rightarrow> nat \<Rightarrow> 's \<Rightarrow> 's) \<Rightarrow> ((gpio_pin \<Rightarrow> u32) \<times> nat) list \<Rightarrow> 's \<Rightarrow> 's"
  where
  "presses_run f [] s = s"
| "presses_run f ((g, d) # ps) s = presses_run f ps (f g d s)"

context key_source begin

lemma presses_ok: "ok s \<Longrightarrow> \<forall>p \<in> set ps. snd p < 3 \<Longrightarrow> ok (presses_run irq ps s)"
  by (induction ps arbitrary: s) (auto simp: irq_spec)

lemma presses_last:
  assumes "ok s" and "\<forall>p \<in> set ps. snd p < 3" and "ps \<noteq> []"
  shows "pending (presses_run irq ps s) \<and>
    key (presses_run irq ps s) = key_code (fst (last ps)) (snd (last ps))"
  using assms
proof (induction ps arbitrary: s)
  case (Cons p ps)
  obtain g d where p: "p = (g, d)" by fastforce
  with Cons.prems have "ok (irq g d s)" "pending (irq g d s)" "key (irq g d s) = key_code g d"
    using irq_spec [of s d g] by auto
  with Cons.IH [of "irq g d s"] Cons.prems p show ?case by (cases "ps = []") auto
qed simp

lemma burst_then_read:
  assumes "ok s" and "\<forall>p \<in> set ps. snd p < 3" and "ps \<noteq> []"
  shows "\<exists>s'. read i 1 (presses_run irq ps s) =
      Some ((Inr 1, [key_code (fst (last ps)) (snd (last ps))]), s') \<and> read False 1 s' = None"
proof -
  from presses_ok [OF assms(1,2)] presses_last [OF assms] read_key obtain s' where
    "read i 1 (presses_run irq ps s) = Some ((Inr 1, [key (presses_run irq ps s)]), s')"
    "\<not> pending s'"
    by blast
  with presses_last [OF assms] read_sleeps show ?thesis by auto
qed

end

definition btn_ok :: "btn_state \<Rightarrow> bool" where
  "btn_ok s \<longleftrightarrow> kfault s = None"

interpretation third: key_source
  "\<lambda>g d s. snd (run_state (third_buttons_irq g d) s)" third_drv_read
  "\<lambda>s. ev_press s \<noteq> 0" keyval btn_ok
  by unfold_locales
    (auto simp: btn_ok_def third_irq_run third_drv_read_def read_copy_def read_clear_def)

interpretation forth: key_source
  "\<lambda>g d s. snd (run_state (forth_buttons_irq g d) s)" forth_drv_read
  "\<lambda>s. ev_press s \<noteq> 0" keyval btn_ok
  by unfold_locales
    (auto simp: btn_ok_def forth_irq_eq third_irq_run forth_drv_read_def)

interpretation fifth: key_source
  "\<lambda>g d s. snd (run_state (fifth_buttons_irq g d) s)" fifth_drv_read
  "\<lambda>s. ev_press s \<noteq> 0" keyval btn_ok
  by unfold_locales
    (auto simp: btn_ok_def fifth_irq_eq third_irq_run fifth_drv_read_def)

section \<open>Readers and the interrupt, interleaved\<close>

text \<open>
  Every process is at a point of \<open>third_drv_read\<close>: not in it, asleep in \<open>wait_event_interruptible\<close>,
  about to copy, or about to reset \<open>ev_press\<close>. \<open>presses\<close> and \<open>delivered\<close> are ghost state: the codes
  the handler has produced and the codes copied to user space with the process that got them. A step
  is one atomic part of some process or one interrupt. The rule \<open>signal\<close> is
  \<open>wait_event_interruptible\<close> returning \<open>-ERESTARTSYS\<close>, which the driver does not look at.
\<close>

datatype rpc = Idle | Waiting | Copying | Clearing

record rsys =
  drv :: btn_state
  pcs :: "nat \<Rightarrow> rpc"
  presses :: "u8 list"
  delivered :: "(nat \<times> u8) list"

datatype rlabel = Irq nat | Enter nat | Resume nat | Signal nat | Copy nat | Clear nat

definition rsys_init :: rsys where
  "rsys_init = \<lparr>drv = btn_initial, pcs = (\<lambda>_. Idle), presses = [], delivered = []\<rparr>"

inductive reader_step :: "rlabel \<Rightarrow> rsys \<Rightarrow> rsys \<Rightarrow> bool" where
  irq: "d < 3 \<Longrightarrow> run_state (third_buttons_irq g d) (drv s) = (u, b) \<Longrightarrow>
    reader_step (Irq d) s (s\<lparr>drv := b, presses := presses s @ [keyval b]\<rparr>)"
| enter: "pcs s p = Idle \<Longrightarrow> reader_step (Enter p) s (s\<lparr>pcs := (pcs s)(p := Waiting)\<rparr>)"
| resume: "pcs s p = Waiting \<Longrightarrow> ev_press (drv s) \<noteq> 0 \<Longrightarrow>
    reader_step (Resume p) s (s\<lparr>pcs := (pcs s)(p := Copying)\<rparr>)"
| signal: "pcs s p = Waiting \<Longrightarrow> reader_step (Signal p) s (s\<lparr>pcs := (pcs s)(p := Copying)\<rparr>)"
| copy: "pcs s p = Copying \<Longrightarrow>
    reader_step (Copy p) s (s\<lparr>delivered := delivered s @ [(p, read_copy (drv s))],
      pcs := (pcs s)(p := Clearing)\<rparr>)"
| clear: "pcs s p = Clearing \<Longrightarrow>
    reader_step (Clear p) s (s\<lparr>drv := read_clear (drv s), pcs := (pcs s)(p := Idle)\<rparr>)"

inductive_cases irqE: "reader_step (Irq d) s t"
inductive_cases enterE: "reader_step (Enter p) s t"
inductive_cases resumeE: "reader_step (Resume p) s t"
inductive_cases signalE: "reader_step (Signal p) s t"
inductive_cases copyE: "reader_step (Copy p) s t"
inductive_cases clearE: "reader_step (Clear p) s t"

lemmas reader_stepEs = irqE enterE resumeE signalE copyE clearE

inductive reader_run :: "rsys \<Rightarrow> rlabel list \<Rightarrow> rsys \<Rightarrow> bool" where
  run_nil: "reader_run s [] s"
| run_snoc: "reader_run s ls t \<Longrightarrow> reader_step l t u \<Longrightarrow> reader_run s (ls @ [l]) u"

text \<open>What holds in every run, whatever the number of readers and signals.\<close>

definition codes_inv :: "rsys \<Rightarrow> bool" where
  "codes_inv s \<longleftrightarrow> kfault (drv s) = None \<and>
     set (presses s) \<subseteq> {0x01, 0x02, 0x03, 0x81, 0x82, 0x83} \<and>
     keyval (drv s) = last (0 # presses s) \<and>
     (ev_press (drv s) \<noteq> 0 \<longrightarrow> presses s \<noteq> []) \<and>
     snd ` set (delivered s) \<subseteq> insert 0 (set (presses s))"

lemma codes_inv_init: "codes_inv rsys_init"
  by (simp add: codes_inv_def rsys_init_def btn_initial_def)

lemma codes_inv_irq:
  assumes "codes_inv s" and "d < 3" and "run_state (third_buttons_irq g d) (drv s) = (u, b)"
  shows "codes_inv (s\<lparr>drv := b, presses := presses s @ [keyval b]\<rparr>)"
  using assms key_code_range [OF assms(2), of g]
  by (auto simp: codes_inv_def third_irq_run)

lemma codes_inv_copy:
  assumes "codes_inv s"
  shows "codes_inv (s\<lparr>delivered := delivered s @ [(p, read_copy (drv s))], pcs := f\<rparr>)"
proof -
  have "last (0 # presses s) \<in> insert 0 (set (presses s))" by simp
  with assms show ?thesis by (simp add: codes_inv_def read_copy_def)
qed

lemma codes_inv_step: "reader_step l s t \<Longrightarrow> codes_inv s \<Longrightarrow> codes_inv t"
proof (induction rule: reader_step.induct)
  case (irq d g s u b)
  then show ?case by (blast intro: codes_inv_irq)
next
  case (copy s p)
  then show ?case by (blast intro: codes_inv_copy)
qed (auto simp: codes_inv_def read_clear_def)

lemma codes_inv_run: "reader_run s ls t \<Longrightarrow> codes_inv s \<Longrightarrow> codes_inv t"
  by (induction rule: reader_run.induct) (auto intro: codes_inv_step)

text \<open>
  One reader and no signals: the code in the driver that waits to be copied has not been delivered.
\<close>

fun label_of :: "nat \<Rightarrow> rlabel \<Rightarrow> bool" where
  "label_of p (Irq d) = True"
| "label_of p (Enter q) = (p = q)"
| "label_of p (Resume q) = (p = q)"
| "label_of p (Signal q) = False"
| "label_of p (Copy q) = (p = q)"
| "label_of p (Clear q) = (p = q)"

definition fresh :: "rsys \<Rightarrow> bool" where
  "fresh s \<longleftrightarrow> presses s \<noteq> [] \<and> subseq (map snd (delivered s)) (butlast (presses s))"

definition single_inv :: "nat \<Rightarrow> rsys \<Rightarrow> bool" where
  "single_inv p s \<longleftrightarrow> codes_inv s \<and> subseq (map snd (delivered s)) (presses s) \<and>
     (pcs s p \<in> {Idle, Waiting} \<and> ev_press (drv s) \<noteq> 0 \<longrightarrow> fresh s) \<and>
     (pcs s p = Copying \<longrightarrow> fresh s)"

lemma subseq_butlast: "subseq xs (butlast ys) \<Longrightarrow> subseq xs ys"
  by (cases ys rule: rev_cases) (auto intro: subseq_rev_drop_many)

lemma fresh_copy:
  assumes "fresh s" and "codes_inv s"
  shows "subseq (map snd (delivered s) @ [read_copy (drv s)]) (presses s)"
proof -
  from assms have ne: "presses s \<noteq> []" and sub: "subseq (map snd (delivered s)) (butlast (presses s))"
    by (auto simp: fresh_def)
  have "subseq (map snd (delivered s) @ [last (presses s)])
    (butlast (presses s) @ [last (presses s)])"
    using sub by (simp add: subseq_append)
  with ne assms(2) show ?thesis by (simp add: codes_inv_def read_copy_def)
qed

lemma single_inv_irq:
  assumes "single_inv p s" and "d < 3" and "run_state (third_buttons_irq g d) (drv s) = (u, b)"
  shows "single_inv p (s\<lparr>drv := b, presses := presses s @ [keyval b]\<rparr>)"
  using assms codes_inv_irq [of s d g u b]
  by (auto simp: single_inv_def fresh_def intro: subseq_rev_drop_many)

lemma single_inv_step:
  assumes "reader_step l s t" and "label_of p l" and "single_inv p s"
  shows "single_inv p t"
proof -
  have inv: "codes_inv t" using codes_inv_step assms(1,3) by (auto simp: single_inv_def)
  show ?thesis
  proof (cases l)
    case (Irq d)
    with assms(1,3) show ?thesis by (auto elim!: irqE intro: single_inv_irq)
  next
    case (Enter q)
    with assms inv show ?thesis by (auto elim!: enterE simp: single_inv_def fresh_def)
  next
    case (Resume q)
    with assms inv show ?thesis by (auto elim!: resumeE simp: single_inv_def fresh_def)
  next
    case (Signal q)
    with assms(2) show ?thesis by simp
  next
    case (Copy q)
    with assms inv fresh_copy [of s] show ?thesis
      by (auto elim!: copyE simp: single_inv_def)
  next
    case (Clear q)
    with assms inv show ?thesis by (auto elim!: clearE simp: single_inv_def read_clear_def)
  qed
qed

lemma single_inv_run:
  "reader_run s ls t \<Longrightarrow> single_inv p s \<Longrightarrow> list_all (label_of p) ls \<Longrightarrow> single_inv p t"
  by (induction rule: reader_run.induct) (auto intro: single_inv_step)

lemma single_inv_init: "single_inv p rsys_init"
  using codes_inv_init by (simp add: single_inv_def rsys_init_def btn_initial_def)

section \<open>Runs that lose or invent a key\<close>

lemma run_one: "reader_step l s t \<Longrightarrow> reader_run s [l] t"
  using run_snoc [OF run_nil, of l s t] by simp

lemma run_append:
  assumes "reader_run t ks u" and "reader_run s ls t"
  shows "reader_run s (ls @ ks) u"
  using assms
  by (induction rule: reader_run.induct) (auto simp flip: append_assoc intro: reader_run.intros)

lemma step_run: "reader_step l s t \<Longrightarrow> reader_run t ls u \<Longrightarrow> reader_run s (l # ls) u"
  using run_append [OF _ run_one, of t ls u l s] by simp

lemma irq_intro:
  assumes "d < 3" and "kfault (drv s) = None"
  shows "reader_step (Irq d) s (s\<lparr>drv := (drv s)\<lparr>keyval := key_code g d, ev_press := 1,
      ktrace := ktrace (drv s) @ [KWait WakeUp]\<rparr>, presses := presses s @ [key_code g d]\<rparr>)"
  using reader_step.irq [OF assms(1) third_irq_run [OF assms(2,1), of g]] by simp

text \<open>
  The reset of \<open>ev_press\<close> after the copy loses a key pressed in between: the second key of this run is
  never reported, and the reader sleeps although a press has not been delivered.
\<close>

theorem press_between_copy_and_clear_is_lost:
  "\<exists>t. reader_run rsys_init [Irq 0, Enter p, Resume p, Copy p, Irq 1, Clear p] t \<and>
    presses t = [0x01, 0x02] \<and> delivered t = [(p, 0x01)] \<and>
    ev_press (drv t) = 0 \<and> third_drv_read False 1 (drv t) = None"
proof -
  let ?g = "\<lambda>_ :: gpio_pin. 0 :: u32"
  have codes: "key_code ?g 0 = 0x01" "key_code ?g 1 = 0x02" by (simp_all add: key_code_def)
  show ?thesis
    apply (rule exI, rule conjI)
     apply (rule step_run, rule irq_intro [where g = ?g], simp, simp add: rsys_init_def btn_initial_def)
     apply (rule step_run, rule enter, simp add: rsys_init_def)
     apply (rule step_run, rule resume, simp, simp)
     apply (rule step_run, rule copy, simp)
     apply (rule step_run, rule irq_intro [where g = ?g], simp, simp add: rsys_init_def btn_initial_def)
     apply (rule step_run, rule clear, simp, rule run_nil)
    apply (simp add: codes [simplified] rsys_init_def btn_initial_def read_copy_def read_clear_def
        third_drv_read_def)
    done
qed

text \<open>A signal lets a reader return a key although none was ever pressed.\<close>

theorem signal_invents_a_key:
  "\<exists>t. reader_run rsys_init [Enter p, Signal p, Copy p] t \<and> presses t = [] \<and> delivered t = [(p, 0)]"
  apply (rule exI, rule conjI)
   apply (rule step_run, rule enter, simp add: rsys_init_def)
   apply (rule step_run, rule signal, simp)
   apply (rule step_run, rule copy, simp, rule run_nil)
  apply (simp add: rsys_init_def btn_initial_def read_copy_def)
  done

section \<open>Properties\<close>

text \<open>
  C3: With one reading process and no signals, the interrupt button driver delivers keys in the
  order they were pressed, none twice and none that was not pressed: in every run from loading the
  module the codes copied to user space are a subsequence of the codes the interrupt handler
  produced.
\<close>

theorem single_reader_in_order:
  assumes "reader_run rsys_init ls t" and "list_all (label_of p) ls"
  shows "subseq (map snd (delivered t)) (presses t)"
  using single_inv_run [OF assms(1) single_inv_init assms(2)] by (simp add: single_inv_def)

theorem single_reader_in_order_witness:
  "\<exists>t. reader_run rsys_init [Irq 0, Enter 0, Resume 0, Copy 0] t \<and>
     subseq (map snd (delivered t)) (presses t)"
proof -
  let ?g = "\<lambda>_ :: gpio_pin. 0 :: u32"
  have "\<exists>t. reader_run rsys_init [Irq 0, Enter 0, Resume 0, Copy 0] t"
    apply (rule exI)
    apply (rule step_run, rule irq_intro [where g = ?g], simp, simp add: rsys_init_def btn_initial_def)
    apply (rule step_run, rule enter, simp add: rsys_init_def)
    apply (rule step_run, rule resume, simp, simp)
    apply (rule step_run, rule copy, simp, rule run_nil)
    done
  then show ?thesis using single_reader_in_order [of "[Irq 0, Enter 0, Resume 0, Copy 0]" _ 0]
    by auto
qed

text \<open>
  Whatever the number of readers, and even if signals interrupt them, every code the driver
  delivers is either a code that the handler produced (1, 2, 3 for a press, with bit 7 for a release) or
  the initial 0; and \<open>ev_press\<close> is only ever set if some key was pressed.
\<close>

theorem delivered_codes_known:
  assumes "reader_run rsys_init ls t"
  shows "snd ` set (delivered t) \<subseteq> insert 0 (set (presses t)) \<and>
    set (presses t) \<subseteq> {0x01, 0x02, 0x03, 0x81, 0x82, 0x83} \<and>
    (ev_press (drv t) \<noteq> 0 \<longrightarrow> presses t \<noteq> [])"
  using codes_inv_run [OF assms codes_inv_init] by (simp add: codes_inv_def)

theorem delivered_codes_known_witness:
  "\<exists>t. reader_run rsys_init [Enter 3, Signal 3, Copy 3] t \<and>
     snd ` set (delivered t) \<subseteq> insert 0 (set (presses t))"
  using signal_invents_a_key [of 3] delivered_codes_known by blast

text \<open>
  C29: The three interrupt drivers keep the same contract: after any non-empty burst of presses and
  releases, a one-byte read returns one byte, the code of the last of them, from which button and
  direction can be read back, and the next read sleeps; a read of any other size fails with \<open>EINVAL\<close>
  and changes nothing.
\<close>

theorem interrupt_drivers_contract:
  assumes "kfault s = None" and "\<forall>p \<in> set ps. snd p < 3" and "ps \<noteq> []"
    and "(irq, read) \<in> {(third_buttons_irq, third_drv_read), (forth_buttons_irq, forth_drv_read),
      (fifth_buttons_irq, fifth_drv_read)}"
  shows "(\<exists>s' k. read i 1 (presses_run (\<lambda>g d s. snd (run_state (irq g d) s)) ps s) =
      Some ((Inr 1, [k]), s') \<and> read False 1 s' = None \<and>
      decode_key k = (snd (last ps), fst (last ps) (pd_pin (pins_desc ! snd (last ps))) \<noteq> 0)) \<and>
    (n \<noteq> 1 \<longrightarrow> read i n s = Some ((Inl EINVAL, []), s))"
proof -
  have ok: "btn_ok s" using assms(1) by (simp add: btn_ok_def)
  have "snd (last ps) < 3" using assms(2,3) by auto
  note dec = decode_key_code [OF this]
  consider "irq = third_buttons_irq" "read = third_drv_read"
    | "irq = forth_buttons_irq" "read = forth_drv_read"
    | "irq = fifth_buttons_irq" "read = fifth_drv_read"
    using assms(4) by auto
  then show ?thesis
  proof cases
    case 1
    with third.burst_then_read [OF ok assms(2,3), of i] third.read_size [of n i s] dec
    show ?thesis by blast
  next
    case 2
    with forth.burst_then_read [OF ok assms(2,3), of i] forth.read_size [of n i s] dec
    show ?thesis by blast
  next
    case 3
    with fifth.burst_then_read [OF ok assms(2,3), of i] fifth.read_size [of n i s] dec
    show ?thesis by blast
  qed
qed

theorem interrupt_drivers_contract_witness:
  "\<exists>s' k. third_drv_read False 1 (presses_run (\<lambda>g d s. snd (run_state (third_buttons_irq g d) s))
      [(\<lambda>_. 1, 2), (\<lambda>_. 0, 1)] btn_initial) = Some ((Inr 1, [k]), s') \<and> decode_key k = (1, False)"
proof -
  have "kfault btn_initial = None" "\<forall>p \<in> set [(\<lambda>_ :: gpio_pin. 1 :: u32, 2 :: nat), (\<lambda>_. 0, 1)]. snd p < 3"
    "[(\<lambda>_ :: gpio_pin. 1 :: u32, 2 :: nat), (\<lambda>_. 0, 1)] \<noteq> []"
    "(third_buttons_irq, third_drv_read) \<in> {(third_buttons_irq, third_drv_read),
      (forth_buttons_irq, forth_drv_read), (fifth_buttons_irq, fifth_drv_read)}"
    by (simp_all add: btn_initial_def)
  from interrupt_drivers_contract [OF this, of False 1] show ?thesis by auto
qed

text \<open>
  C32: \<open>poll\<close> and \<open>read\<close> agree in \<open>forth_drv\<close> and \<open>fifth_drv\<close>: \<open>poll\<close> reports the file readable
  (\<open>POLLIN | POLLRDNORM\<close>) exactly if a one-byte read would not sleep, and it reports nothing else.
\<close>

theorem poll_iff_read_ready:
  assumes "kfault s = None"
  shows "fst (run_state forth_drv_poll s) =
      (if forth_drv_read False 1 s \<noteq> None then 0x41 else 0) \<and>
    fst (run_state fifth_drv_poll s) =
      (if fifth_drv_read False 1 s \<noteq> None then 0x41 else 0)"
  using assms
  by (simp add: driver_defs forth_drv_read_def fifth_drv_read_def POLLIN_def POLLRDNORM_def)

theorem poll_iff_read_ready_witness:
  "fst (run_state forth_drv_poll (btn_initial\<lparr>ev_press := 1\<rparr>)) = 0x41"
proof -
  have "kfault (btn_initial\<lparr>ev_press := 1\<rparr>) = None" by (simp add: btn_initial_def)
  from poll_iff_read_ready [OF this] show ?thesis by (simp add: forth_drv_read_def)
qed

text \<open>
  \<open>second_drv_read\<close> answers only three-byte reads: it returns the levels of GPF0, GPF2 and GPG3
  as the bytes 0 or 1 in this order and leaves the registers alone; any other size is \<open>EINVAL\<close>. After
  \<open>second_drv_open\<close> the three pins are inputs (mode field 0) and every other bit of the two control
  registers is as before.
\<close>

theorem second_drv_reads_levels:
  assumes "kfault s = None" and "second_gpfcon s \<noteq> NULL" and "second_gpgcon s \<noteq> NULL"
    and "second_gpfdat s \<noteq> NULL" and "second_gpgdat s \<noteq> NULL" and "second_gpfcon s \<noteq> second_gpgcon s"
  shows "exec (second_drv_read 3) s = Inr ((Inr 3,
      [of_bool (bit (kmem s (second_gpfdat s)) 0), of_bool (bit (kmem s (second_gpfdat s)) 2),
       of_bool (bit (kmem s (second_gpgdat s)) 3)]), s) \<and>
    (n \<noteq> 3 \<longrightarrow> exec (second_drv_read n) s = Inr ((Inl EINVAL, []), s)) \<and>
    (\<exists>s'. exec second_drv_open s = Inr (0, s') \<and>
      kmem s' (second_gpfcon s) = kmem s (second_gpfcon s) AND NOT 0x33 \<and>
      kmem s' (second_gpgcon s) = kmem s (second_gpgcon s) AND NOT 0xc0)"
  using assms second_read_run [OF assms(1,4,5)] by (auto simp: driver_defs exec_def)

theorem second_drv_reads_levels_witness:
  "\<exists>s. exec (second_drv_read 3) s = Inr ((Inr 3, [1, 0, 1]), s)"
proof -
  define s where "s = (second_initial (\<lambda>_. 0xd))\<lparr>second_gpfcon := 0x1000, second_gpfdat := 0x1004,
     second_gpgcon := 0x1010, second_gpgdat := 0x1014, kmem := (\<lambda>a. if a = 0x1004 then 1 else 8)\<rparr>"
  have h: "kfault s = None" "second_gpfcon s \<noteq> NULL" "second_gpgcon s \<noteq> NULL"
    "second_gpfdat s \<noteq> NULL" "second_gpgdat s \<noteq> NULL" "second_gpfcon s \<noteq> second_gpgcon s"
    by (simp_all add: s_def second_initial_def)
  from second_drv_reads_levels [OF h, of 3]
  have "exec (second_drv_read 3) s = Inr ((Inr 3, [1, 0, 1]), s)" by (simp add: s_def)
  then show ?thesis by blast
qed

text \<open>
  Loading and unloading is balanced in the four drivers, and so are \<open>open\<close> and \<open>release\<close> of the
  interrupt drivers in between: if the kernel grants what the drivers ask for (they do not check), then
  they give back every major number, class, class device, mapping and interrupt exactly once and
  nothing else.
\<close>

theorem button_drivers_balanced:
  assumes "e_ioremap E 0x56000050 16 \<noteq> NULL" and "e_ioremap E 0x56000060 16 \<noteq> NULL"
    and "\<forall>n. \<not> e_register_chrdev E n < 0" and "\<forall>i. e_request_irq E i = 0"
  shows "no_leak (ktrace (snd (run_state (do { second_drv_init E; second_drv_exit }) (second_initial m)))) \<and>
    no_leak (ktrace (snd (run_state (do { third_drv_init E; third_drv_open E pins; third_drv_close pins;
      third_drv_exit }) btn_initial))) \<and>
    no_leak (ktrace (snd (run_state (do { forth_drv_init E; forth_drv_open E pins; forth_drv_close pins;
      forth_drv_exit }) btn_initial))) \<and>
    no_leak (ktrace (snd (run_state (do { fifth_drv_init E; fifth_drv_open E pins; fifth_drv_close pins;
      fifth_drv_exit }) btn_initial)))"
  using assms by (simp add: driver_defs second_initial_def btn_initial_def no_leak_def)

theorem button_drivers_balanced_witness:
  "no_leak (ktrace (snd (run_state (do { third_drv_init sample_env; third_drv_open sample_env 0x100;
     third_drv_close 0x100; third_drv_exit }) btn_initial)))"
proof -
  have h: "e_ioremap sample_env 0x56000050 16 \<noteq> NULL" "e_ioremap sample_env 0x56000060 16 \<noteq> NULL"
    "\<forall>n. \<not> e_register_chrdev sample_env n < 0" "\<forall>i. e_request_irq sample_env i = 0"
    by (simp_all add: sample_env_def)
  show ?thesis using button_drivers_balanced [OF h] by blast
qed

section \<open>Two processes\<close>

text \<open>The kernel gives a line that is not shared to one user at a time.\<close>

definition line_taken :: "kcall list \<Rightarrow> irq_line \<Rightarrow> bool" where
  "line_taken t i = (case account [] t of
     None \<Rightarrow> False
   | Some R \<Rightarrow> list_ex (\<lambda>r. case r of RIrq j d \<Rightarrow> j = i | _ \<Rightarrow> False) R)"

definition busy_env :: "kenv \<Rightarrow> btn_state \<Rightarrow> kenv" where
  "busy_env E s = E\<lparr>e_request_irq := (\<lambda>i. if line_taken (ktrace s) i then - 16 else 0)\<rparr>"

definition key_lines :: "ptr \<Rightarrow> resource multiset" where
  "key_lines pins = {#RIrq IRQ_EINT11 (pin_addr pins 2), RIrq IRQ_EINT2 (pin_addr pins 1),
     RIrq IRQ_EINT0 (pin_addr pins 0)#}"

lemma line_taken_iff:
  assumes "holds t M"
  shows "line_taken t i \<longleftrightarrow> (\<exists>d. RIrq i d \<in># M)"
proof -
  obtain R where R: "account [] t = Some R" "M = mset R" using assms by (auto simp: holds_def)
  have "(case r of RIrq j d \<Rightarrow> j = i | _ \<Rightarrow> False) \<longleftrightarrow> (\<exists>d. r = RIrq i d)" for r
    by (cases r) auto
  then show ?thesis by (auto simp: R line_taken_def list_ex_iff)
qed

lemma same_open: "forth_drv_open = third_drv_open" "fifth_drv_open = third_drv_open"
    "forth_drv_close = third_drv_close" "fifth_drv_close = third_drv_close"
  by (simp_all add: fun_eq_iff third_drv_open_def forth_drv_open_def fifth_drv_open_def
      third_drv_close_def forth_drv_close_def fifth_drv_close_def)

lemma open_trace:
  assumes "kfault s = None"
  shows "run_state (third_drv_open E pins) s = (0, s\<lparr>ktrace := ((ktrace s @
      [KIrq (RequestIrq IRQ_EINT0 (pin_addr pins 0) (e_request_irq E IRQ_EINT0))]) @
      [KIrq (RequestIrq IRQ_EINT2 (pin_addr pins 1) (e_request_irq E IRQ_EINT2))]) @
      [KIrq (RequestIrq IRQ_EINT11 (pin_addr pins 2) (e_request_irq E IRQ_EINT11))]\<rparr>)"
  using assms by (simp add: third_drv_open_def request_irq_def)

lemma close_trace:
  assumes "kfault s = None"
  shows "run_state (third_drv_close pins) s = (0, s\<lparr>ktrace := ((ktrace s @
      [KIrq (FreeIrq IRQ_EINT0 (pin_addr pins 0))]) @ [KIrq (FreeIrq IRQ_EINT2 (pin_addr pins 1))]) @
      [KIrq (FreeIrq IRQ_EINT11 (pin_addr pins 2))]\<rparr>)"
  using assms by (simp add: third_drv_close_def)

text \<open>Opening when the lines are free and when they are taken; closing when they are held and when they are not.\<close>

lemma open_free:
  assumes "holds (ktrace s) M" and "kfault s = None" and "\<forall>i d. RIrq i d \<notin># M"
  shows "\<exists>t. exec (third_drv_open (busy_env E s) pins) s = Inr (0, t) \<and> kfault t = None \<and>
    holds (ktrace t) (M + key_lines pins)"
proof -
  have "\<not> line_taken (ktrace s) i" for i using line_taken_iff [OF assms(1)] assms(3) by simp
  moreover have "holds (((ktrace s @ [KIrq (RequestIrq IRQ_EINT0 (pin_addr pins 0) 0)]) @
      [KIrq (RequestIrq IRQ_EINT2 (pin_addr pins 1) 0)]) @ [KIrq (RequestIrq IRQ_EINT11 (pin_addr pins 2) 0)])
     (M + key_lines pins)"
    by (rule holds_acquire [OF holds_acquire [OF holds_acquire [OF assms(1) _ refl] _ refl]])
      (simp_all add: key_lines_def)
  ultimately show ?thesis using assms(2) by (simp add: exec_Inr_iff open_trace busy_env_def)
qed

lemma open_taken:
  assumes "holds (ktrace s) (M + key_lines pins)" and "kfault s = None"
  shows "\<exists>t. exec (third_drv_open (busy_env E s) pins) s = Inr (0, t) \<and> kfault t = None \<and>
    holds (ktrace t) (M + key_lines pins)"
proof -
  have "line_taken (ktrace s) i" if "i \<in> {IRQ_EINT0, IRQ_EINT2, IRQ_EINT11}" for i
    using that line_taken_iff [OF assms(1)] by (auto simp: key_lines_def)
  moreover have "holds (((ktrace s @ [KIrq (RequestIrq IRQ_EINT0 (pin_addr pins 0) (- 16))]) @
      [KIrq (RequestIrq IRQ_EINT2 (pin_addr pins 1) (- 16))]) @
      [KIrq (RequestIrq IRQ_EINT11 (pin_addr pins 2) (- 16))]) (M + key_lines pins)"
    by (intro iffD2 [OF holds_neutral] assms(1)) simp_all
  ultimately show ?thesis using assms(2) by (simp add: exec_Inr_iff open_trace busy_env_def)
qed

lemma close_held:
  assumes "holds (ktrace s) (M + key_lines pins)" and "kfault s = None"
  shows "\<exists>t. exec (third_drv_close pins) s = Inr (0, t) \<and> kfault t = None \<and> holds (ktrace t) M"
proof -
  have h: "holds (ktrace s) (add_mset (RIrq IRQ_EINT0 (pin_addr pins 0)) (add_mset (RIrq IRQ_EINT2 (pin_addr pins 1))
      (add_mset (RIrq IRQ_EINT11 (pin_addr pins 2)) M)))"
    using assms(1) by (simp add: key_lines_def add_mset_commute)
  have "holds (((ktrace s @ [KIrq (FreeIrq IRQ_EINT0 (pin_addr pins 0))]) @
      [KIrq (FreeIrq IRQ_EINT2 (pin_addr pins 1))]) @ [KIrq (FreeIrq IRQ_EINT11 (pin_addr pins 2))]) M"
    by (rule holds_release [OF holds_release [OF holds_release [OF h]]]) simp_all
  then show ?thesis using assms(2) by (simp add: exec_Inr_iff close_trace)
qed

lemma close_unheld:
  assumes "holds (ktrace s) M" and "kfault s = None" and "\<forall>i d. RIrq i d \<notin># M"
  shows "\<exists>t. exec (third_drv_close pins) s = Inr (0, t) \<and> account [] (ktrace t) = None"
proof -
  obtain R where R: "account [] (ktrace s) = Some R" "M = mset R" using assms(1) by (auto simp: holds_def)
  with assms(2,3) show ?thesis
    by (auto simp: exec_Inr_iff close_trace account_append list_ex_iff)
qed

text \<open>
  C28: The interrupt drivers ignore the result of \<open>request_irq\<close>, so a second \<open>open\<close> goes wrong. It returns
  success although the kernel refuses all three lines (the first process has them); when this second
  process closes the device, \<open>free_irq\<close> with the same \<open>dev_id\<close> takes the lines away from the first
  one, which stays open and gets no more keys; and its own \<open>close\<close> then frees lines that nobody holds.
  \<open>buttons.c\<close> avoids this with its lock.
\<close>

theorem second_open_takes_the_keys_away:
  assumes "holds (ktrace s) M" and "kfault s = None" and "\<forall>i d. RIrq i d \<notin># M"
    and "(opn, cls) \<in> {(third_drv_open, third_drv_close), (forth_drv_open, forth_drv_close),
      (fifth_drv_open, fifth_drv_close)}"
  shows "\<exists>s1 s2 s3 s4. exec (opn (busy_env E s) pins) s = Inr (0, s1) \<and> holds (ktrace s1) (M + key_lines pins) \<and>
    exec (opn (busy_env E s1) pins) s1 = Inr (0, s2) \<and> holds (ktrace s2) (M + key_lines pins) \<and>
    exec (cls pins) s2 = Inr (0, s3) \<and> holds (ktrace s3) M \<and>
    exec (cls pins) s3 = Inr (0, s4) \<and> account [] (ktrace s4) = None"
proof -
  have oc: "opn = third_drv_open" "cls = third_drv_close" using assms(4) by (auto simp: same_open)
  obtain s1 where s1: "exec (third_drv_open (busy_env E s) pins) s = Inr (0, s1)" "kfault s1 = None"
    "holds (ktrace s1) (M + key_lines pins)"
    using open_free [OF assms(1-3)] by blast
  obtain s2 where s2: "exec (third_drv_open (busy_env E s1) pins) s1 = Inr (0, s2)" "kfault s2 = None"
    "holds (ktrace s2) (M + key_lines pins)"
    using open_taken [OF s1(3,2)] by blast
  obtain s3 where s3: "exec (third_drv_close pins) s2 = Inr (0, s3)" "kfault s3 = None" "holds (ktrace s3) M"
    using close_held [OF s2(3,2)] by blast
  obtain s4 where "exec (third_drv_close pins) s3 = Inr (0, s4)" "account [] (ktrace s4) = None"
    using close_unheld [OF s3(3,2) assms(3)] by blast
  with s1 s2 s3 show ?thesis unfolding oc by blast
qed

theorem second_open_takes_the_keys_away_witness:
  "\<exists>s1 s2. exec (forth_drv_open (busy_env sample_env btn_initial) 0x100) btn_initial = Inr (0, s1) \<and>
    exec (forth_drv_open (busy_env sample_env s1) 0x100) s1 = Inr (0, s2)"
proof -
  have "holds (ktrace btn_initial) {#}" "kfault btn_initial = None" "\<forall>i d. RIrq i d \<notin># {#}"
    "(forth_drv_open, forth_drv_close) \<in> {(third_drv_open, third_drv_close), (forth_drv_open, forth_drv_close),
      (fifth_drv_open, fifth_drv_close)}"
    by (simp_all add: btn_initial_def)
  from second_open_takes_the_keys_away [OF this, of sample_env "0x100"] show ?thesis by blast
qed

end
