(* ===== verification/Triples.thy ===== *)
theory Triples
  imports Kernel
begin

text \<open>
  Hoare triples for the state monad of the driver models, for code that runs in phases. A function of a
  driver always ends, so the triples are those of total correctness.
\<close>

definition triple :: "('s \<Rightarrow> bool) \<Rightarrow> ('s, 'r) state \<Rightarrow> ('r \<Rightarrow> 's \<Rightarrow> bool) \<Rightarrow> bool" where
  "triple P m Q \<longleftrightarrow> (\<forall>s. P s \<longrightarrow> (case run_state m s of (r, t) \<Rightarrow> Q r t))"

lemma tripleI: "(\<And>s. P s \<Longrightarrow> \<exists>r t. run_state m s = (r, t) \<and> Q r t) \<Longrightarrow> triple P m Q"
  by (force simp: triple_def)

lemma tripleD: "triple P m Q \<Longrightarrow> P s \<Longrightarrow> \<exists>r t. run_state m s = (r, t) \<and> Q r t"
  by (cases "run_state m s") (auto simp: triple_def)

lemma triple_seq:
  assumes "triple P m (\<lambda>_. R)" and "triple R n Q"
  shows "triple P (do { m; n }) Q"
  using assms by (force simp: triple_def split: prod.splits)

lemma triple_conseq:
  assumes "triple P m Q" and "\<And>s. P' s \<Longrightarrow> P s" and "\<And>r s. Q r s \<Longrightarrow> Q' r s"
  shows "triple P' m Q'"
  using assms by (force simp: triple_def split: prod.splits)

end
