(* ===== verification/Lcd.thy ===== *)
theory Lcd
  imports Triples
begin

text \<open>
  The frame buffer drivers of the LCD controller: \<open>src/Drivers/10.lcd/lcd.c\<close> (a 240x320 panel) and
  \<open>lcd_4.3.c\<close> (480x272). The registers of the controller and of the GPIO banks are memory words at
  the mapped addresses. \<open>palette\<close> is the contract of \<open>setcolreg\<close>, interpreted for both; \<open>panel_shows\<close>
  says that the registers describe the frame buffer of the \<open>fb_info\<close>.
\<close>

section \<open>Frame buffer descriptions\<close>

text \<open>The fields of \<open>struct fb_bitfield\<close> and \<open>struct fb_info\<close> that the drivers set.\<close>

record fb_bitfield =
  bf_offset :: nat
  bf_length :: nat

record fb_info =
  fix_id :: string
  smem_start :: u32
  smem_len :: nat
  fix_type :: nat
  visual :: nat
  line_length :: nat
  xres :: nat
  yres :: nat
  xres_virtual :: nat
  yres_virtual :: nat
  bits_per_pixel :: nat
  fb_red :: fb_bitfield
  fb_green :: fb_bitfield
  fb_blue :: fb_bitfield
  activate :: nat
  screen_base :: ptr
  screen_size :: nat

definition FB_TYPE_PACKED_PIXELS :: nat where "FB_TYPE_PACKED_PIXELS = 0"
definition FB_VISUAL_TRUECOLOR :: nat where "FB_VISUAL_TRUECOLOR = 2"
definition FB_ACTIVATE_NOW :: nat where "FB_ACTIVATE_NOW = 0"

text \<open>What \<open>framebuffer_alloc\<close> hands out: a structure of zeros.\<close>

definition zero_fb :: fb_info where
  "zero_fb = \<lparr>fix_id = [], smem_start = 0, smem_len = 0, fix_type = 0, visual = 0, line_length = 0,
     xres = 0, yres = 0, xres_virtual = 0, yres_virtual = 0, bits_per_pixel = 0,
     fb_red = \<lparr>bf_offset = 0, bf_length = 0\<rparr>, fb_green = \<lparr>bf_offset = 0, bf_length = 0\<rparr>,
     fb_blue = \<lparr>bf_offset = 0, bf_length = 0\<rparr>, activate = 0, screen_base = NULL, screen_size = 0\<rparr>"

text \<open>Offsets of the fields of \<open>struct lcd_regs\<close> in use.\<close>

definition lcdcon1 :: u32 where "lcdcon1 = 0x00"
definition lcdcon2 :: u32 where "lcdcon2 = 0x04"
definition lcdcon3 :: u32 where "lcdcon3 = 0x08"
definition lcdcon4 :: u32 where "lcdcon4 = 0x0c"
definition lcdcon5 :: u32 where "lcdcon5 = 0x10"
definition lcdsaddr1 :: u32 where "lcdsaddr1 = 0x14"
definition lcdsaddr2 :: u32 where "lcdsaddr2 = 0x18"
definition lcdsaddr3 :: u32 where "lcdsaddr3 = 0x1c"

lemmas lcd_offsets = lcdcon1_def lcdcon2_def lcdcon3_def lcdcon4_def lcdcon5_def lcdsaddr1_def
  lcdsaddr2_def lcdsaddr3_def

lemma lcd_offsets_distinct:
  "distinct [lcdcon1, lcdcon2, lcdcon3, lcdcon4, lcdcon5, lcdsaddr1, lcdsaddr2, lcdsaddr3]"
  "distinct [lcdsaddr3, lcdsaddr2, lcdsaddr1, lcdcon5, lcdcon4, lcdcon3, lcdcon2, lcdcon1]"
  by (simp_all add: lcd_offsets)

lemmas lcd_offsets_neq [simp] = lcd_offsets_distinct [simplified]

record lcd_state = kstate +
  s3c_lcd :: ptr
  fb :: fb_info
  gpbcon :: ptr
  gpccon :: ptr
  gpdcon :: ptr
  gpgcon :: ptr
  gpbdat :: ptr
  lcd_regs :: ptr
  pseudo_palette :: "u32 list"

definition lcd_initial :: "(ptr \<Rightarrow> u32) \<Rightarrow> lcd_state" where
  "lcd_initial m = \<lparr>ktrace = [], kmem = m, kfault = None, s3c_lcd = NULL, fb = zero_fb,
     gpbcon = NULL, gpccon = NULL, gpdcon = NULL, gpgcon = NULL, gpbdat = NULL, lcd_regs = NULL,
     pseudo_palette = replicate 16 0\<rparr>"

definition lcd_reg :: "u32 \<Rightarrow> (lcd_state, ptr) state" where
  "lcd_reg off = gets (\<lambda>s. lcd_regs s + off)"

section \<open>lcd.c\<close>

definition chan_to_field :: "u32 \<Rightarrow> fb_bitfield \<Rightarrow> u32" where
  "chan_to_field chan bf =
     (let chan = chan AND 0xffff; chan = drop_bit (16 - bf_length bf) chan
      in push_bit (bf_offset bf) chan)"

text \<open>\<open>pseudo_palette[i] = v\<close>, a fault outside the array of sixteen.\<close>

definition set_pseudo :: "nat \<Rightarrow> u32 \<Rightarrow> (lcd_state, unit) state" where
  "set_pseudo i v =
     (if i < 16 then upd (\<lambda>s. s\<lparr>pseudo_palette := (pseudo_palette s)[i := v]\<rparr>)
      else panic OutOfBounds)"

definition s3c_lcdfb_setcolreg :: "nat \<Rightarrow> u32 \<Rightarrow> u32 \<Rightarrow> u32 \<Rightarrow> (lcd_state, nat) state" where
  "s3c_lcdfb_setcolreg regno red green blue =
     (if regno > 16 then State_Monad.return 1
      else do {
        info \<leftarrow> gets fb;
        (let val = chan_to_field red (fb_red info);
             val = val OR chan_to_field green (fb_green info);
             val = val OR chan_to_field blue (fb_blue info) in do {
           set_pseudo regno val;
           State_Monad.return 0 }) })"

definition lcd_fill_info :: "kenv \<Rightarrow> (lcd_state, unit) state" where
  "lcd_fill_info E = do {
     f \<leftarrow> framebuffer_alloc E;
     upd (\<lambda>s. s\<lparr>s3c_lcd := f, fb := zero_fb\<rparr>);
     deref f;
     upd (\<lambda>s. s\<lparr>fb := (fb s)\<lparr>fix_id := ''mylcd'', smem_len := 240*320*16 div 8,
       fix_type := FB_TYPE_PACKED_PIXELS, visual := FB_VISUAL_TRUECOLOR, line_length := 240*2,
       xres := 240, yres := 320, xres_virtual := 240, yres_virtual := 320, bits_per_pixel := 16,
       fb_red := \<lparr>bf_offset = 11, bf_length = 5\<rparr>, fb_green := \<lparr>bf_offset = 5, bf_length = 6\<rparr>,
       fb_blue := \<lparr>bf_offset = 0, bf_length = 5\<rparr>, activate := FB_ACTIVATE_NOW,
       screen_size := 240*320*16 div 8\<rparr>\<rparr>) }"

definition lcd_setup_gpio :: "kenv \<Rightarrow> (lcd_state, unit) state" where
  "lcd_setup_gpio E = do {
     p \<leftarrow> ioremap E 0x56000010 8;
     upd (\<lambda>s. s\<lparr>gpbcon := p\<rparr>);
     p \<leftarrow> ioremap E 0x56000020 4;
     upd (\<lambda>s. s\<lparr>gpccon := p\<rparr>);
     p \<leftarrow> ioremap E 0x56000030 4;
     upd (\<lambda>s. s\<lparr>gpdcon := p\<rparr>);
     p \<leftarrow> ioremap E 0x56000060 4;
     upd (\<lambda>s. s\<lparr>gpgcon := p\<rparr>);
     upd (\<lambda>s. s\<lparr>gpbdat := gpbcon s + 4\<rparr>);
     s \<leftarrow> State_Monad.get;
     modify (gpbcon s) (\<lambda>r. r AND NOT 3);
     modify (gpbcon s) (\<lambda>r. r OR 1);
     modify (gpbdat s) (\<lambda>r. r AND NOT 1);
     store (gpccon s) 0xaaaaaaaa;
     store (gpdcon s) 0xaaaaaaaa;
     modify (gpgcon s) (\<lambda>r. r OR push_bit 8 3) }"

definition lcd_setup_regs :: "kenv \<Rightarrow> (lcd_state, unit) state" where
  "lcd_setup_regs E = do {
     r \<leftarrow> ioremap E 0x4D000000 104;
     upd (\<lambda>s. s\<lparr>lcd_regs := r\<rparr>);
     store (r + lcdcon1) (push_bit 8 4 OR push_bit 5 3 OR push_bit 1 0x0c);
     store (r + lcdcon2) (push_bit 24 3 OR push_bit 14 319 OR push_bit 6 1 OR push_bit 0 0);
     store (r + lcdcon3) (push_bit 19 16 OR push_bit 8 239 OR push_bit 0 10);
     store (r + lcdcon4) 4;
     store (r + lcdcon5) (push_bit 11 1 OR push_bit 10 0 OR push_bit 9 1 OR push_bit 8 1 OR push_bit 0 1) }"

definition lcd_setup_buffer :: "kenv \<Rightarrow> (lcd_state, unit) state" where
  "lcd_setup_buffer E = do {
     r \<leftarrow> gets lcd_regs;
     len \<leftarrow> gets (\<lambda>s. smem_len (fb s));
     (base, start) \<leftarrow> dma_alloc_writecombine E len;
     upd (\<lambda>s. s\<lparr>fb := (fb s)\<lparr>screen_base := base, smem_start := start\<rparr>\<rparr>);
     store (r + lcdsaddr1) (drop_bit 1 start AND NOT (push_bit 30 3));
     store (r + lcdsaddr2) (drop_bit 1 (start + of_nat len) AND 0x1fffff);
     store (r + lcdsaddr3) (push_bit 11 0x200 OR (240*16 div 16)) }"

definition lcd_enable :: "(lcd_state, unit) state" where
  "lcd_enable = do {
     s \<leftarrow> State_Monad.get;
     modify (lcd_regs s + lcdcon1) (\<lambda>v. v OR 1);
     modify (lcd_regs s + lcdcon5) (\<lambda>v. v OR push_bit 3 1);
     modify (gpbdat s) (\<lambda>v. v OR 1) }"

definition lcd_init :: "kenv \<Rightarrow> (lcd_state, nat) state" where
  "lcd_init E = do {
     lcd_fill_info E;
     lcd_setup_gpio E;
     lcd_setup_regs E;
     lcd_setup_buffer E;
     lcd_enable;
     f \<leftarrow> gets s3c_lcd;
     register_framebuffer E f;
     State_Monad.return 0 }"

definition lcd_exit :: "(lcd_state, unit) state" where
  "lcd_exit = do {
     s \<leftarrow> State_Monad.get;
     call (KFb (UnregisterFramebuffer (s3c_lcd s)));
     modify (gpbdat s) (\<lambda>v. v AND NOT 1);
     modify (lcd_regs s + lcdcon5) (\<lambda>v. v AND NOT (push_bit 3 1));
     modify (lcd_regs s + lcdcon1) (\<lambda>v. v AND NOT 1);
     call (KMap (Iounmap (lcd_regs s)));
     call (KMap (Iounmap (gpbcon s)));
     call (KMap (Iounmap (gpccon s)));
     call (KMap (Iounmap (gpdcon s)));
     call (KMap (Iounmap (gpgcon s)));
     call (KFb (FramebufferRelease (s3c_lcd s))) }"

section \<open>lcd_4.3.c\<close>

definition lcd43_chan_to_field :: "u32 \<Rightarrow> fb_bitfield \<Rightarrow> u32" where
  "lcd43_chan_to_field chan bf =
     (let chan = chan AND 0xffff; chan = drop_bit (16 - bf_length bf) chan
      in push_bit (bf_offset bf) chan)"

definition s3c_fb_setcolreg :: "nat \<Rightarrow> u32 \<Rightarrow> u32 \<Rightarrow> u32 \<Rightarrow> (lcd_state, nat) state" where
  "s3c_fb_setcolreg regno red green blue =
     (if regno > 16 then State_Monad.return 1
      else do {
        info \<leftarrow> gets fb;
        (let val = lcd43_chan_to_field red (fb_red info);
             val = val OR lcd43_chan_to_field green (fb_green info);
             val = val OR lcd43_chan_to_field blue (fb_blue info) in do {
           set_pseudo regno val;
           State_Monad.return 0 }) })"

definition lcd43_fill_info :: "kenv \<Rightarrow> (lcd_state, unit) state" where
  "lcd43_fill_info E = do {
     f \<leftarrow> framebuffer_alloc E;
     upd (\<lambda>s. s\<lparr>s3c_lcd := f, fb := zero_fb\<rparr>);
     deref f;
     upd (\<lambda>s. s\<lparr>fb := (fb s)\<lparr>fix_id := ''mylcd'', smem_len := 480*272*2,
       fix_type := FB_TYPE_PACKED_PIXELS, visual := FB_VISUAL_TRUECOLOR, line_length := 480*2,
       xres := 480, yres := 272, xres_virtual := 480, yres_virtual := 272, bits_per_pixel := 16,
       fb_red := \<lparr>bf_offset = 11, bf_length = 5\<rparr>, fb_green := \<lparr>bf_offset = 5, bf_length = 6\<rparr>,
       fb_blue := \<lparr>bf_offset = 0, bf_length = 5\<rparr>, activate := FB_ACTIVATE_NOW,
       screen_size := 480*272*2\<rparr>\<rparr>) }"

definition lcd43_setup_gpio :: "kenv \<Rightarrow> (lcd_state, unit) state" where
  "lcd43_setup_gpio E = do {
     p \<leftarrow> ioremap E 0x56000010 8;
     upd (\<lambda>s. s\<lparr>gpbcon := p\<rparr>);
     upd (\<lambda>s. s\<lparr>gpbdat := gpbcon s + 4\<rparr>);
     p \<leftarrow> ioremap E 0x56000020 4;
     upd (\<lambda>s. s\<lparr>gpccon := p\<rparr>);
     p \<leftarrow> ioremap E 0x56000030 4;
     upd (\<lambda>s. s\<lparr>gpdcon := p\<rparr>);
     p \<leftarrow> ioremap E 0x56000060 4;
     upd (\<lambda>s. s\<lparr>gpgcon := p\<rparr>);
     s \<leftarrow> State_Monad.get;
     store (gpccon s) 0xaaaaaaaa;
     store (gpdcon s) 0xaaaaaaaa;
     modify (gpbcon s) (\<lambda>r. r AND NOT 3);
     modify (gpbcon s) (\<lambda>r. r OR 1);
     modify (gpbdat s) (\<lambda>r. r AND NOT 1);
     modify (gpgcon s) (\<lambda>r. r OR push_bit 8 3) }"

definition lcd43_setup_regs :: "kenv \<Rightarrow> (lcd_state, unit) state" where
  "lcd43_setup_regs E = do {
     r \<leftarrow> ioremap E 0x4D000000 100;
     upd (\<lambda>s. s\<lparr>lcd_regs := r\<rparr>);
     store (r + lcdcon1) (push_bit 8 4 OR push_bit 5 3 OR push_bit 1 0x0c);
     store (r + lcdcon2) (push_bit 24 1 OR push_bit 14 271 OR push_bit 6 1 OR 9);
     store (r + lcdcon3) (push_bit 19 1 OR push_bit 8 479 OR 1);
     store (r + lcdcon4) 40;
     store (r + lcdcon5) (push_bit 11 1 OR push_bit 10 0 OR push_bit 9 1 OR push_bit 8 1 OR push_bit 0 1) }"

definition lcd43_setup_buffer :: "kenv \<Rightarrow> (lcd_state, unit) state" where
  "lcd43_setup_buffer E = do {
     r \<leftarrow> gets lcd_regs;
     len \<leftarrow> gets (\<lambda>s. smem_len (fb s));
     (base, start) \<leftarrow> dma_alloc_writecombine E len;
     upd (\<lambda>s. s\<lparr>fb := (fb s)\<lparr>screen_base := base, smem_start := start\<rparr>\<rparr>);
     store (r + lcdsaddr1) (drop_bit 1 start AND NOT (push_bit 30 3));
     store (r + lcdsaddr2) (drop_bit 1 (start + of_nat len) AND 0x1fffff);
     store (r + lcdsaddr3) (480*16 div 16) }"

definition lcd43_enable :: "(lcd_state, unit) state" where
  "lcd43_enable = do {
     s \<leftarrow> State_Monad.get;
     modify (lcd_regs s + lcdcon1) (\<lambda>v. v OR push_bit 0 1);
     modify (lcd_regs s + lcdcon5) (\<lambda>v. v OR push_bit 3 1);
     modify (gpbdat s) (\<lambda>v. v OR 1) }"

definition lcd43_init :: "kenv \<Rightarrow> (lcd_state, nat) state" where
  "lcd43_init E = do {
     lcd43_fill_info E;
     lcd43_setup_gpio E;
     lcd43_setup_regs E;
     lcd43_setup_buffer E;
     lcd43_enable;
     f \<leftarrow> gets s3c_lcd;
     register_framebuffer E f;
     State_Monad.return 0 }"

definition lcd43_exit :: "(lcd_state, unit) state" where
  "lcd43_exit = do {
     s \<leftarrow> State_Monad.get;
     call (KFb (UnregisterFramebuffer (s3c_lcd s)));
     modify (lcd_regs s + lcdcon1) (\<lambda>v. v AND NOT (push_bit 0 1));
     modify (lcd_regs s + lcdcon5) (\<lambda>v. v AND NOT (push_bit 3 1));
     modify (gpbdat s) (\<lambda>v. v AND NOT 1);
     call (KMem (DmaFree (smem_len (fb s)) (screen_base (fb s)) (smem_start (fb s))));
     call (KMap (Iounmap (lcd_regs s)));
     call (KMap (Iounmap (gpbcon s)));
     call (KMap (Iounmap (gpccon s)));
     call (KMap (Iounmap (gpdcon s)));
     call (KMap (Iounmap (gpgcon s)));
     call (KFb (FramebufferRelease (s3c_lcd s))) }"

section \<open>The tables of frame buffer operations\<close>

text \<open>Colours are the drivers' own; drawing is left to the software routines of the frame buffer core.\<close>

datatype fb_drawing = Cfb_fillrect | Cfb_copyarea | Cfb_imageblit

record fb_ops =
  fb_setcolreg :: "nat \<Rightarrow> u32 \<Rightarrow> u32 \<Rightarrow> u32 \<Rightarrow> (lcd_state, nat) state"
  fb_fillrect :: fb_drawing
  fb_copyarea :: fb_drawing
  fb_imageblit :: fb_drawing

definition s3c_lcdfb_ops :: fb_ops where
  "s3c_lcdfb_ops = \<lparr>fb_setcolreg = s3c_lcdfb_setcolreg, fb_fillrect = Cfb_fillrect,
     fb_copyarea = Cfb_copyarea, fb_imageblit = Cfb_imageblit\<rparr>"

definition s3c_fb_ops :: fb_ops where
  "s3c_fb_ops = \<lparr>fb_setcolreg = s3c_fb_setcolreg, fb_fillrect = Cfb_fillrect,
     fb_copyarea = Cfb_copyarea, fb_imageblit = Cfb_imageblit\<rparr>"

lemmas lcd_phases = lcd_fill_info_def lcd43_fill_info_def lcd_setup_gpio_def lcd43_setup_gpio_def
  lcd_setup_regs_def lcd43_setup_regs_def lcd_setup_buffer_def lcd43_setup_buffer_def
  lcd_enable_def lcd43_enable_def

section \<open>Colours\<close>

text \<open>The pixel format RGB565: the top five, six and five bits of 16-bit intensities.\<close>

definition rgb565 :: "u32 \<times> u32 \<times> u32 \<Rightarrow> u32" where
  "rgb565 c = (case c of (r, g, b) \<Rightarrow> push_bit 11 (take_bit 5 (drop_bit 11 r)) OR
     push_bit 5 (take_bit 6 (drop_bit 10 g)) OR take_bit 5 (drop_bit 11 b))"

definition field :: "nat \<Rightarrow> nat \<Rightarrow> u32 \<Rightarrow> u32" where
  "field lo n w = take_bit n (drop_bit lo w)"

lemma rgb565_fields:
  "field 11 5 (rgb565 (r, g, b)) = field 11 5 r" "field 5 6 (rgb565 (r, g, b)) = field 10 6 g"
  "field 0 5 (rgb565 (r, g, b)) = field 11 5 b" "drop_bit 16 (rgb565 (r, g, b)) = 0"
proof -
  note bits = field_def rgb565_def bit_or_iff bit_push_bit_word bit_take_bit_iff bit_drop_bit_eq
  show "field 11 5 (rgb565 (r, g, b)) = field 11 5 r"
    by (rule bit_word_eqI, rename_tac n, case_tac "n < 5") (simp_all add: bits)
  show "field 5 6 (rgb565 (r, g, b)) = field 10 6 g"
    by (rule bit_word_eqI, rename_tac n, case_tac "n < 6") (simp_all add: bits)
  show "field 0 5 (rgb565 (r, g, b)) = field 11 5 b"
    by (rule bit_word_eqI, rename_tac n, case_tac "n < 5") (simp_all add: bits)
  show "drop_bit 16 (rgb565 (r, g, b)) = 0"
    by (rule bit_word_eqI) (simp add: bits)
qed

lemma chan_to_field_bits:
  assumes "0 < n" and "n \<le> 16"
  shows "chan_to_field w \<lparr>bf_offset = off, bf_length = n\<rparr> = push_bit off (take_bit n (drop_bit (16 - n) w))"
proof -
  have "w AND 0xffff = take_bit 16 w"
    by (simp add: take_bit_eq_mask mask_eq_exp_minus_1)
  then show ?thesis using assms by (simp add: chan_to_field_def drop_bit_take_bit Let_def)
qed

text \<open>
  \<open>set i c\<close> is \<open>fb_setcolreg(i, ...)\<close>; \<open>set_cmap\<close> is what the frame buffer core does with a colour
  map: one call per entry.
\<close>

locale palette =
  fixes set_color :: "nat \<Rightarrow> u32 \<times> u32 \<times> u32 \<Rightarrow> 's \<Rightarrow> fault + nat \<times> 's"
    and pal :: "'s \<Rightarrow> u32 list" and ok :: "'s \<Rightarrow> bool"
  assumes pal_length: "ok s \<Longrightarrow> length (pal s) = 16"
    and set_entry: "ok s \<Longrightarrow> i < 16 \<Longrightarrow> \<exists>s'. set_color i c s = Inr (0, s') \<and> ok s' \<and>
      pal s' = (pal s)[i := rgb565 c]"

fun set_cmap ::
  "(nat \<Rightarrow> u32 \<times> u32 \<times> u32 \<Rightarrow> 's \<Rightarrow> fault + nat \<times> 's) \<Rightarrow> nat \<Rightarrow> (u32 \<times> u32 \<times> u32) list \<Rightarrow> 's \<Rightarrow> fault + 's"
  where
  "set_cmap f i [] s = Inr s"
| "set_cmap f i (c # cs) s = (case f i c s of Inl e \<Rightarrow> Inl e | Inr (r, s') \<Rightarrow> set_cmap f (Suc i) cs s')"

context palette begin

lemma set_cmap_spec:
  assumes "ok s" and "i + length cs \<le> 16"
  shows "\<exists>s'. set_cmap set_color i cs s = Inr s' \<and> ok s' \<and> pal s' = overwrite (pal s) i (map rgb565 cs)"
  using assms
proof (induction cs arbitrary: i s)
  case (Cons c cs)
  from Cons.prems set_entry [of s i c] obtain s1 where s1:
    "set_color i c s = Inr (0, s1)" "ok s1" "pal s1 = (pal s)[i := rgb565 c]"
    by auto
  from Cons.IH [OF s1(2), of "Suc i"] Cons.prems obtain s2 where s2:
    "set_cmap set_color (Suc i) cs s1 = Inr s2" "ok s2"
    "pal s2 = overwrite (pal s1) (Suc i) (map rgb565 cs)"
    by auto
  with s1 pal_length [OF Cons.prems(1)] Cons.prems(2) show ?case
    by (auto simp: overwrite_update)
qed simp

lemma cmap_entry:
  assumes "ok s" and "i + length cs \<le> 16" and "k < length cs" and "cs ! k = (r, g, b)"
  shows "\<exists>s'. set_cmap set_color i cs s = Inr s' \<and> pal s' ! (i + k) = rgb565 (r, g, b)"
  using set_cmap_spec [OF assms(1,2)] pal_length [OF assms(1)] assms(2-4)
  by (auto simp: nth_overwrite)

end

definition lcd_ready :: "lcd_state \<Rightarrow> bool" where
  "lcd_ready s \<longleftrightarrow> kfault s = None \<and> length (pseudo_palette s) = 16 \<and>
     fb_red (fb s) = \<lparr>bf_offset = 11, bf_length = 5\<rparr> \<and>
     fb_green (fb s) = \<lparr>bf_offset = 5, bf_length = 6\<rparr> \<and> fb_blue (fb s) = \<lparr>bf_offset = 0, bf_length = 5\<rparr>"

abbreviation lcd_color :: "nat \<Rightarrow> u32 \<times> u32 \<times> u32 \<Rightarrow> lcd_state \<Rightarrow> fault + nat \<times> lcd_state" where
  "lcd_color i c \<equiv> exec (case c of (r, g, b) \<Rightarrow> s3c_lcdfb_setcolreg i r g b)"

abbreviation lcd43_color :: "nat \<Rightarrow> u32 \<times> u32 \<times> u32 \<Rightarrow> lcd_state \<Rightarrow> fault + nat \<times> lcd_state" where
  "lcd43_color i c \<equiv> exec (case c of (r, g, b) \<Rightarrow> s3c_fb_setcolreg i r g b)"

lemma setcolreg_same: "s3c_fb_setcolreg = s3c_lcdfb_setcolreg"
  by (intro ext) (simp add: s3c_fb_setcolreg_def s3c_lcdfb_setcolreg_def lcd43_chan_to_field_def chan_to_field_def)

lemma setcolreg_run:
  assumes "lcd_ready s" and "i < 16"
  shows "exec (s3c_lcdfb_setcolreg i r g b) s =
    Inr (0, s\<lparr>pseudo_palette := (pseudo_palette s)[i := rgb565 (r, g, b)]\<rparr>)"
  using assms
  by (simp add: lcd_ready_def s3c_lcdfb_setcolreg_def set_pseudo_def exec_def chan_to_field_bits
      rgb565_def or.assoc)

interpretation lcd: palette lcd_color pseudo_palette lcd_ready
proof
  fix s :: lcd_state and i :: nat and c :: "u32 \<times> u32 \<times> u32"
  assume s: "lcd_ready s" and i: "i < 16"
  obtain r g b where c: "c = (r, g, b)" by (cases c) auto
  show "\<exists>s'. lcd_color i c s = Inr (0, s') \<and> lcd_ready s' \<and>
      pseudo_palette s' = (pseudo_palette s)[i := rgb565 c]"
    using setcolreg_run [OF s i, of r g b] s by (simp add: c lcd_ready_def)
qed (simp add: lcd_ready_def)

interpretation lcd43: palette lcd43_color pseudo_palette lcd_ready
  unfolding setcolreg_same by (rule lcd.palette_axioms)

section \<open>Geometry\<close>

text \<open>
  What the controller reads from its registers (fields as in the S3C2440 manual, quoted in the source's
  comments): \<open>LINEVAL\<close>, \<open>HOZVAL\<close>, the number of half-words of a line \<open>PAGEWIDTH\<close>, the gap between lines
  \<open>OFFSIZE\<close>, the base address of the frame buffer \<open>LCDBASEU\<close> and its end \<open>LCDBASEL\<close>.
\<close>

definition panel_reg :: "lcd_state \<Rightarrow> u32 \<Rightarrow> u32" where
  "panel_reg s off = kmem s (lcd_regs s + off)"

definition panel_shows :: "lcd_state \<Rightarrow> bool" where
  "panel_shows s \<longleftrightarrow>
     unat (field 14 10 (panel_reg s lcdcon2)) + 1 = yres (fb s) \<and>
     unat (field 8 11 (panel_reg s lcdcon3)) + 1 = xres (fb s) \<and>
     2 * unat (field 0 11 (panel_reg s lcdsaddr3)) = line_length (fb s) \<and>
     field 1 4 (panel_reg s lcdcon1) = 0xc \<and>
     push_bit 1 (panel_reg s lcdsaddr1) = smem_start (fb s) \<and>
     panel_reg s lcdsaddr2 = field 1 21 (smem_start (fb s) + of_nat (smem_len (fb s))) \<and>
     smem_len (fb s) = line_length (fb s) * yres (fb s) \<and> screen_size (fb s) = smem_len (fb s) \<and>
     8 * line_length (fb s) = xres (fb s) * bits_per_pixel (fb s)"

definition panel_on :: "lcd_state \<Rightarrow> bool" where
  "panel_on s \<longleftrightarrow> bit (panel_reg s lcdcon1) 0 \<and> bit (panel_reg s lcdcon5) 3 \<and> bit (kmem s (gpbdat s)) 0 \<and>
     field 0 2 (kmem s (gpbcon s)) = 1"

text \<open>
  The kernel mapped the banks: no register at address 0, and the backlight registers are apart from the
  other ones.
\<close>

definition lcd_mapped :: "kenv \<Rightarrow> nat \<Rightarrow> bool" where
  "lcd_mapped E n \<longleftrightarrow>
     (let b = e_ioremap E 0x56000010 8; c = e_ioremap E 0x56000020 4; d = e_ioremap E 0x56000030 4;
          g = e_ioremap E 0x56000060 4; r = e_ioremap E 0x4D000000 n;
          regs = map ((+) r) [lcdcon1, lcdcon2, lcdcon3, lcdcon4, lcdcon5, lcdsaddr1, lcdsaddr2, lcdsaddr3]
      in NULL \<notin> set ([b, b + 4, c, d, g] @ regs) \<and> set [b, b + 4] \<inter> set ([c, d, g] @ regs) = {})"

lemma base_address:
  fixes d :: u32
  assumes "\<not> bit d 0" and "\<not> bit d 31"
  shows "push_bit 1 (drop_bit 1 d AND NOT (push_bit 30 3)) = d"
proof -
  define M :: u32 where "M = push_bit 30 3"
  have "\<forall>i \<in> set [0..<32]. bit M i \<longleftrightarrow> i = 30 \<or> i = 31" by (simp add: M_def upt_rec)
  then have M: "bit M i \<longleftrightarrow> i = 30 \<or> i = 31" if "i < 32" for i using that by simp
  have "push_bit 1 (drop_bit 1 d AND NOT M) = d"
  proof (rule bit_word_eqI)
    fix n
    assume n: "n < LENGTH(32)"
    show "bit (push_bit 1 (drop_bit 1 d AND NOT M)) n = bit d n"
    proof (cases n)
      case 0
      with assms show ?thesis by (simp only: bit_push_bit_word) simp
    next
      case (Suc k)
      with n assms M [of k] show ?thesis
        by (simp only: bit_push_bit_word) (auto simp: bit_and_iff bit_not_iff bit_drop_bit_eq)
    qed
  qed
  then show ?thesis by (simp only: M_def)
qed

text \<open>
  Loading in phases. \<open>described\<close>: the frame buffer of the \<open>fb_info\<close>; \<open>banked\<close>: the GPIO banks are mapped
  and the backlight pin is an output; \<open>timed\<close>: the control registers of the controller; \<open>addressed\<close>: the buffer
  and its address registers. \<open>lcd_trace\<close> are the kernel calls in their order.
\<close>

lemma out_pin: "field 0 2 ((w AND NOT 3) OR 1) = 1"
proof (rule bit_word_eqI)
  fix n
  show "bit (field 0 2 ((w AND NOT 3) OR 1)) n = bit (1 :: u32) n"
    by (cases "n = 0"; cases "n = 1")
      (auto simp: field_def bit_take_bit_iff bit_or_iff bit_and_iff bit_not_iff bit_1_iff)
qed

lemma mask21: "drop_bit 1 w AND 0x1fffff = field 1 21 (w :: u32)"
  by (simp add: field_def take_bit_eq_mask mask_eq_exp_minus_1)

definition lcd_trace :: "kenv \<Rightarrow> nat \<Rightarrow> nat \<Rightarrow> kcall list" where
  "lcd_trace E n len = KFb (FramebufferAlloc (e_framebuffer_alloc E)) #
     map (\<lambda>(p, n). KMap (Ioremap p n (e_ioremap E p n)))
       [(0x56000010, 8), (0x56000020, 4), (0x56000030, 4), (0x56000060, 4), (0x4D000000, n)] @
     [KMem (DmaAlloc len (fst (e_dma_alloc E len)) (snd (e_dma_alloc E len))),
      KFb (RegisterFramebuffer (e_framebuffer_alloc E) (e_register_framebuffer E (e_framebuffer_alloc E)))]"

definition described :: "kenv \<Rightarrow> nat \<Rightarrow> nat \<Rightarrow> nat \<Rightarrow> nat \<Rightarrow> lcd_state \<Rightarrow> bool" where
  "described E n k x y s \<longleftrightarrow> lcd_ready s \<and> s3c_lcd s = e_framebuffer_alloc E \<and> xres (fb s) = x \<and> yres (fb s) = y \<and>
     bits_per_pixel (fb s) = 16 \<and> line_length (fb s) = 2 * x \<and> smem_len (fb s) = 2 * x * y \<and>
     screen_size (fb s) = 2 * x * y \<and> rtrace (ktrace s) = take k (lcd_trace E n (2 * x * y))"

definition banked :: "kenv \<Rightarrow> lcd_state \<Rightarrow> bool" where
  "banked E s \<longleftrightarrow> gpbcon s = e_ioremap E 0x56000010 8 \<and> gpbdat s = gpbcon s + 4 \<and>
     gpccon s = e_ioremap E 0x56000020 4 \<and> gpdcon s = e_ioremap E 0x56000030 4 \<and>
     gpgcon s = e_ioremap E 0x56000060 4 \<and> field 0 2 (kmem s (gpbcon s)) = 1"

definition timed :: "kenv \<Rightarrow> nat \<Rightarrow> u32 \<times> u32 \<times> u32 \<times> u32 \<Rightarrow> lcd_state \<Rightarrow> bool" where
  "timed E n c s \<longleftrightarrow> lcd_regs s = e_ioremap E 0x4D000000 n \<and>
     (panel_reg s lcdcon1, panel_reg s lcdcon2, panel_reg s lcdcon3, panel_reg s lcdcon5) = c"

definition addressed :: "kenv \<Rightarrow> u32 \<Rightarrow> u32 \<Rightarrow> lcd_state \<Rightarrow> bool" where
  "addressed E d a3 s \<longleftrightarrow> (screen_base (fb s), smem_start (fb s)) = e_dma_alloc E (smem_len (fb s)) \<and>
     smem_start (fb s) = d \<and> panel_reg s lcdsaddr1 = drop_bit 1 d AND NOT (push_bit 30 3) \<and>
     panel_reg s lcdsaddr2 = field 1 21 (d + of_nat (smem_len (fb s))) \<and> panel_reg s lcdsaddr3 = a3"

lemmas lcd_stages = described_def banked_def timed_def addressed_def lcd_trace_def lcd_ready_def

lemma info_phase:
  assumes "e_framebuffer_alloc E \<noteq> NULL"
    and "(m, x, y) \<in> {(lcd_fill_info E, 240, 320), (lcd43_fill_info E, 480, 272)}"
  shows "triple (\<lambda>s. s = lcd_initial mem) m (\<lambda>_. described E n 1 x y)"
  using assms(2,1)
  by (auto intro!: tripleI simp: lcd_phases kernel_calls lcd_initial_def lcd_stages)

lemma gpio_phase:
  assumes "lcd_mapped E n" and "m \<in> {lcd_setup_gpio E, lcd43_setup_gpio E}"
  shows "triple (described E n 1 x y) m (\<lambda>_ s. described E n 5 x y s \<and> banked E s)"
  using assms(2,1)
  by (auto intro!: tripleI simp: lcd_phases kernel_calls lcd_mapped_def Let_def out_pin [simplified] lcd_stages)

lemma regs_phase:
  assumes "lcd_mapped E n"
    and "(n, m, c2, c3) \<in> {(104, lcd_setup_regs E, 0x34fc040, 0x80ef0a), (100, lcd43_setup_regs E, 0x143c049, 0x9df01)}"
  shows "triple (\<lambda>s. described E n 5 x y s \<and> banked E s) m
    (\<lambda>_ s. described E n 6 x y s \<and> banked E s \<and> timed E n (0x478, c2, c3, 0xb01) s)"
  using assms(2,1)
  by (auto intro!: tripleI simp: lcd_phases kernel_calls lcd_mapped_def Let_def panel_reg_def lcd_stages)

lemma buffer_phase:
  assumes "lcd_mapped E n" and "e_dma_alloc E (2 * x * y) = (base, d)"
    and "(m, a3) \<in> {(lcd_setup_buffer E, 0x1000f0), (lcd43_setup_buffer E, 480)}"
  shows "triple (\<lambda>s. described E n 6 x y s \<and> banked E s \<and> timed E n c s) m
    (\<lambda>_ s. described E n 7 x y s \<and> banked E s \<and> timed E n c s \<and> addressed E d a3 s)"
  using assms(3,1,2)
  by (auto intro!: tripleI
      simp: lcd_phases kernel_calls lcd_mapped_def Let_def panel_reg_def lcd_stages mask21 [simplified])

lemma enable_phase:
  assumes "lcd_mapped E n" and "m \<in> {lcd_enable, lcd43_enable}"
  shows "triple (\<lambda>s. described E n 7 x y s \<and> banked E s \<and> timed E n (c1, c2, c3, c5) s \<and> addressed E d a3 s) m
    (\<lambda>_ s. described E n 7 x y s \<and> banked E s \<and> timed E n (c1 OR 1, c2, c3, c5 OR 8) s \<and> addressed E d a3 s \<and>
      bit (kmem s (gpbdat s)) 0)"
  using assms(2,1)
  by (auto intro!: tripleI simp: lcd_phases lcd_mapped_def Let_def panel_reg_def lcd_stages bit_or_iff)

definition lcd_loaded :: "kenv \<Rightarrow> nat \<Rightarrow> lcd_state \<Rightarrow> bool" where
  "lcd_loaded E n s \<longleftrightarrow> lcd_ready s \<and> rtrace (ktrace s) = lcd_trace E n (smem_len (fb s)) \<and>
     s3c_lcd s = e_framebuffer_alloc E \<and> lcd_regs s = e_ioremap E 0x4D000000 n \<and>
     gpbcon s = e_ioremap E 0x56000010 8 \<and> gpbdat s = gpbcon s + 4 \<and>
     gpccon s = e_ioremap E 0x56000020 4 \<and> gpdcon s = e_ioremap E 0x56000030 4 \<and>
     gpgcon s = e_ioremap E 0x56000060 4 \<and>
     (screen_base (fb s), smem_start (fb s)) = e_dma_alloc E (smem_len (fb s))"

text \<open>All phases in a row, for both drivers.\<close>

lemma register_phase:
  "triple (\<lambda>s. described E n 7 x y s \<and> banked E s \<and> timed E n (0x479, c2, c3, 0xb09) s \<and> addressed E d a3 s \<and>
      bit (kmem s (gpbdat s)) 0)
    (do { f \<leftarrow> gets s3c_lcd; register_framebuffer E f; State_Monad.return (0 :: nat) })
    (\<lambda>r s. r = 0 \<and> lcd_loaded E n s \<and> panel_on s \<and> described E n 8 x y s \<and>
      timed E n (0x479, c2, c3, 0xb09) s \<and> addressed E d a3 s)"
  by (auto intro!: tripleI simp: kernel_calls lcd_loaded_def panel_on_def panel_reg_def lcd_stages bit_numeral_rec)

lemma init_chain:
  assumes "e_framebuffer_alloc E \<noteq> NULL" and "lcd_mapped E n" and "e_dma_alloc E (2 * x * y) = (base, d)"
    and "(A, x, y) \<in> {(lcd_fill_info E, 240, 320), (lcd43_fill_info E, 480, 272)}"
    and "B \<in> {lcd_setup_gpio E, lcd43_setup_gpio E}"
    and "(n, C, c2, c3) \<in>
      {(104, lcd_setup_regs E, 0x34fc040, 0x80ef0a), (100, lcd43_setup_regs E, 0x143c049, 0x9df01)}"
    and "(D, a3) \<in> {(lcd_setup_buffer E, 0x1000f0), (lcd43_setup_buffer E, 480)}"
    and "F \<in> {lcd_enable, lcd43_enable}"
  shows "triple (\<lambda>s. s = lcd_initial m)
    (do { A; B; C; D; F; f \<leftarrow> gets s3c_lcd; register_framebuffer E f; State_Monad.return (0 :: nat) })
    (\<lambda>r s. r = 0 \<and> lcd_loaded E n s \<and> panel_on s \<and> described E n 8 x y s \<and>
      timed E n (0x479, c2, c3, 0xb09) s \<and> addressed E d a3 s)"
  using enable_phase [OF assms(2,8), of x y "0x478" c2 c3 "0xb01" d a3]
  by (intro triple_seq [OF info_phase [OF assms(1,4), of m n]] triple_seq [OF gpio_phase [OF assms(2,5)]]
      triple_seq [OF regs_phase [OF assms(2,6)]] triple_seq [OF buffer_phase [OF assms(2,3,7)]]
      triple_seq [OF _ register_phase]) simp

text \<open>The registers after all phases show the frame buffer; \<open>OFFSIZE\<close> is what differs.\<close>

lemma stages_show:
  assumes "described E n 8 x y s" and "timed E n (0x479, c2, c3, 0xb09) s" and "addressed E d a3 s"
    and "\<not> bit d 0" and "\<not> bit d 31"
    and "(x, y, c2, c3, a3) \<in> {(240, 320, 0x34fc040, 0x80ef0a, 0x1000f0), (480, 272, 0x143c049, 0x9df01, 480)}"
  shows "panel_shows s"
proof -
  have "push_bit 1 (panel_reg s lcdsaddr1) = smem_start (fb s)"
    using assms(3) base_address [OF assms(4,5)] by (simp add: addressed_def)
  with assms(1-3,6) show ?thesis
    by (auto simp: panel_shows_def described_def timed_def addressed_def field_def)
qed

lemma lcd_init_spec:
  assumes "e_framebuffer_alloc E \<noteq> NULL" and "lcd_mapped E 104"
    and "e_dma_alloc E 153600 = (base, d)" and "\<not> bit d 0" and "\<not> bit d 31"
  shows "\<exists>s. exec (lcd_init E) (lcd_initial m) = Inr (0, s) \<and> lcd_loaded E 104 s \<and> panel_shows s \<and>
    panel_on s \<and> xres (fb s) = 240 \<and> yres (fb s) = 320 \<and> smem_len (fb s) = 153600 \<and>
    field 11 11 (panel_reg s lcdsaddr3) = 0x200"
proof -
  have "e_dma_alloc E (2 * 240 * 320) = (base, d)" using assms(3) by simp
  from tripleD [OF init_chain [OF assms(1,2) this, of "lcd_fill_info E" "lcd_setup_gpio E" "lcd_setup_regs E"
      "0x34fc040" "0x80ef0a" "lcd_setup_buffer E" "0x1000f0" lcd_enable m]]
  obtain s where s: "run_state (lcd_init E) (lcd_initial m) = (0, s)" "lcd_loaded E 104 s" "panel_on s"
    "described E 104 8 240 320 s" "timed E 104 (0x479, 0x34fc040, 0x80ef0a, 0xb09) s" "addressed E d 0x1000f0 s"
    unfolding lcd_init_def by auto
  with stages_show [OF s(4-6) assms(4,5)] show ?thesis
    by (auto simp: exec_Inr_iff lcd_stages field_def)
qed

lemma lcd43_init_spec:
  assumes "e_framebuffer_alloc E \<noteq> NULL" and "lcd_mapped E 100"
    and "e_dma_alloc E 261120 = (base, d)" and "\<not> bit d 0" and "\<not> bit d 31"
  shows "\<exists>s. exec (lcd43_init E) (lcd_initial m) = Inr (0, s) \<and> lcd_loaded E 100 s \<and> panel_shows s \<and>
    panel_on s \<and> xres (fb s) = 480 \<and> yres (fb s) = 272 \<and> smem_len (fb s) = 261120 \<and>
    field 11 11 (panel_reg s lcdsaddr3) = 0"
proof -
  have "e_dma_alloc E (2 * 480 * 272) = (base, d)" using assms(3) by simp
  from tripleD [OF init_chain [OF assms(1,2) this, of "lcd43_fill_info E" "lcd43_setup_gpio E" "lcd43_setup_regs E"
      "0x143c049" "0x9df01" "lcd43_setup_buffer E" "480" lcd43_enable m]]
  obtain s where s: "run_state (lcd43_init E) (lcd_initial m) = (0, s)" "lcd_loaded E 100 s" "panel_on s"
    "described E 100 8 480 272 s" "timed E 100 (0x479, 0x143c049, 0x9df01, 0xb09) s" "addressed E d 480 s"
    unfolding lcd43_init_def by auto
  with stages_show [OF s(4-6) assms(4,5)] show ?thesis
    by (auto simp: exec_Inr_iff lcd_stages field_def)
qed

section \<open>Unloading\<close>

definition lcd_dark :: "lcd_state \<Rightarrow> bool" where
  "lcd_dark s \<longleftrightarrow> \<not> bit (panel_reg s lcdcon1) 0 \<and> \<not> bit (panel_reg s lcdcon5) 3 \<and>
     \<not> bit (kmem s (gpbdat s)) 0"

definition lcd_free_trace :: "lcd_state \<Rightarrow> bool \<Rightarrow> kcall list" where
  "lcd_free_trace s frees_buffer = KFb (UnregisterFramebuffer (s3c_lcd s)) #
     (if frees_buffer then [KMem (DmaFree (smem_len (fb s)) (screen_base (fb s)) (smem_start (fb s)))] else []) @
     map (\<lambda>p. KMap (Iounmap p)) [lcd_regs s, gpbcon s, gpccon s, gpdcon s, gpgcon s] @
     [KFb (FramebufferRelease (s3c_lcd s))]"

lemma exit_phase:
  assumes "lcd_loaded E n s" and "lcd_mapped E n"
    and "(m, b) \<in> {(lcd_exit, False), (lcd43_exit, True)}"
  shows "\<exists>t. run_state m s = ((), t) \<and> kfault t = None \<and> lcd_dark t \<and>
    rtrace (ktrace t) = rtrace (ktrace s) @ lcd_free_trace s b"
  using assms(3,1,2)
  by (auto simp: lcd_exit_def lcd43_exit_def lcd_mapped_def lcd_loaded_def lcd_ready_def Let_def
      panel_reg_def lcd_dark_def lcd_free_trace_def bit_and_iff bit_not_iff)

lemma exit_account:
  assumes "lcd_loaded E n s" and "e_framebuffer_alloc E \<noteq> NULL"
    and "\<not> e_register_framebuffer E (e_framebuffer_alloc E) < 0"
    and "fst (e_dma_alloc E (smem_len (fb s))) \<noteq> NULL"
    and "lcd_mapped E n"
    and "distinct [lcd_regs s, gpbcon s, gpccon s, gpdcon s, gpgcon s]"
  shows "account [] (rtrace (ktrace s) @ lcd_free_trace s b) =
    Some (if b then [] else [RDma (screen_base (fb s))])"
proof -
  have base: "screen_base (fb s) \<noteq> NULL" "e_dma_alloc E (smem_len (fb s)) = (screen_base (fb s), smem_start (fb s))"
    using assms(1,4) by (metis fst_conv lcd_loaded_def)+
  have "lcd_regs s \<noteq> NULL" "gpbcon s \<noteq> NULL" "gpccon s \<noteq> NULL" "gpdcon s \<noteq> NULL" "gpgcon s \<noteq> NULL"
    using assms(1,5) by (auto simp: lcd_loaded_def lcd_mapped_def Let_def lcdcon1_def)
  with base assms show ?thesis
    by (simp add: lcd_loaded_def lcd_trace_def lcd_free_trace_def)
qed

section \<open>Properties\<close>


lemma sample_lcd_mapped: "lcd_mapped sample_env n"
  by (simp add: lcd_mapped_def sample_env_def lcd_offsets Let_def)


text \<open>
  Unloading switches backlight, panel power and controller off while the registers are still
  mapped. \<open>lcd_4.3\<close> then gives back everything it acquired, exactly once; \<open>lcd\<close> gives back everything
  except the frame buffer memory, which it leaks.
\<close>

theorem lcd_drivers_unload:
  assumes "e_framebuffer_alloc E \<noteq> NULL" and "lcd_mapped E 104" and "lcd_mapped E 100"
    and "\<forall>n. \<not> bit (snd (e_dma_alloc E n)) 0 \<and> \<not> bit (snd (e_dma_alloc E n)) 31"
    and "\<forall>n. fst (e_dma_alloc E n) \<noteq> NULL"
    and "\<not> e_register_framebuffer E (e_framebuffer_alloc E) < 0"
    and "\<forall>n \<in> {100, 104}. distinct [e_ioremap E 0x4D000000 n, e_ioremap E 0x56000010 8,
      e_ioremap E 0x56000020 4, e_ioremap E 0x56000030 4, e_ioremap E 0x56000060 4]"
  shows "(\<exists>s. exec (do { lcd_init E; lcd_exit }) (lcd_initial m) = Inr ((), s) \<and> lcd_dark s \<and>
      account [] (ktrace s) = Some [RDma (fst (e_dma_alloc E 153600))]) \<and>
    (\<exists>s. exec (do { lcd43_init E; lcd43_exit }) (lcd_initial m) = Inr ((), s) \<and> lcd_dark s \<and>
      no_leak (ktrace s))"
proof -
  note bits = assms(4) [rule_format, THEN conjunct1] assms(4) [rule_format, THEN conjunct2]
  have dma: "fst (e_dma_alloc E n) \<noteq> NULL" for n using assms(5) by blast
  obtain s where s: "exec (lcd_init E) (lcd_initial m) = Inr (0, s)" "lcd_loaded E 104 s"
    "smem_len (fb s) = 153600"
    using lcd_init_spec [OF assms(1,2) prod.collapse [symmetric] bits, of m] by blast
  from exit_phase [OF s(2) assms(2), of lcd_exit False] obtain t where t:
    "run_state lcd_exit s = ((), t)" "kfault t = None" "lcd_dark t"
    "rtrace (ktrace t) = rtrace (ktrace s) @ lcd_free_trace s False"
    by auto
  have "account [] (ktrace t) = Some [RDma (screen_base (fb s))]"
    using exit_account [OF s(2) assms(1,6) dma assms(2), of False] s(2) assms(7) t(4)
      account_rtrace [of "[]" "ktrace t"]
    by (simp add: lcd_loaded_def)
  moreover have "screen_base (fb s) = fst (e_dma_alloc E 153600)"
    using s(2,3) by (metis fst_conv lcd_loaded_def)
  moreover obtain u where u: "exec (lcd43_init E) (lcd_initial m) = Inr (0, u)" "lcd_loaded E 100 u"
    using lcd43_init_spec [OF assms(1,3) prod.collapse [symmetric] bits, of m] by blast
  from exit_phase [OF u(2) assms(3), of lcd43_exit True] obtain v where v:
    "run_state lcd43_exit u = ((), v)" "kfault v = None" "lcd_dark v"
    "rtrace (ktrace v) = rtrace (ktrace u) @ lcd_free_trace u True"
    by auto
  have "no_leak (ktrace v)"
    using exit_account [OF u(2) assms(1,6) dma assms(3), of True] u(2) assms(7) v(4)
      account_rtrace [of "[]" "ktrace v"]
    by (simp add: lcd_loaded_def no_leak_def)
  ultimately show ?thesis
    using s(1) t u(1) v by (auto simp: exec_Inr_iff)
qed

theorem lcd_drivers_unload_witness:
  "\<exists>s. exec (do { lcd43_init sample_env; lcd43_exit }) (lcd_initial (\<lambda>_. 0)) = Inr ((), s) \<and>
     no_leak (ktrace s)"
proof -
  have "e_framebuffer_alloc sample_env \<noteq> NULL" "\<forall>n. fst (e_dma_alloc sample_env n) \<noteq> NULL"
    "\<not> e_register_framebuffer sample_env (e_framebuffer_alloc sample_env) < 0"
    "\<forall>n \<in> {100, 104}. distinct [e_ioremap sample_env 0x4D000000 n, e_ioremap sample_env 0x56000010 8,
      e_ioremap sample_env 0x56000020 4, e_ioremap sample_env 0x56000030 4,
      e_ioremap sample_env 0x56000060 4]"
    by (simp_all add: sample_env_def)
  moreover have "\<forall>n. \<not> bit (snd (e_dma_alloc sample_env n)) 0 \<and> \<not> bit (snd (e_dma_alloc sample_env n)) 31"
    by (simp add: sample_env_def)
  ultimately show ?thesis
    using lcd_drivers_unload [OF _ sample_lcd_mapped sample_lcd_mapped, of "\<lambda>_. 0"] by blast
qed

text \<open>
  C33: In both drivers the \<open>fb_setcolreg\<close> of the operations table keeps a palette of sixteen RGB565 colours: after the colour map
  \<open>cs\<close> was stored from entry \<open>i\<close> on, entry \<open>i + k\<close> holds the top five, six and five bits of the red,
  green and blue of the \<open>k\<close>-th colour and fits into 16 bits. Register numbers above 16 are refused with
  1, but number 16 itself passes the check and writes beyond the array.
\<close>

theorem lcd_palette:
  assumes "lcd_ready s" and "i + length cs \<le> 16" and "k < length cs" and "cs ! k = (r, g, b)"
    and "ops \<in> {s3c_lcdfb_ops, s3c_fb_ops}" and "n > 16"
  shows "(\<exists>s'. set_cmap (\<lambda>i c. exec (case c of (r, g, b) \<Rightarrow> fb_setcolreg ops i r g b)) i cs s = Inr s' \<and>
      (let v = pseudo_palette s' ! (i + k) in field 11 5 v = field 11 5 r \<and> field 5 6 v = field 10 6 g \<and>
        field 0 5 v = field 11 5 b \<and> drop_bit 16 v = 0)) \<and>
    exec (fb_setcolreg ops 16 r g b) s = Inl OutOfBounds \<and> exec (fb_setcolreg ops n r g b) s = Inr (1, s)"
proof -
  have "exec (s3c_lcdfb_setcolreg 16 r g b) s = Inl OutOfBounds"
    "exec (s3c_lcdfb_setcolreg n r g b) s = Inr (1, s)"
    using assms(1,6) by (simp_all add: lcd_ready_def s3c_lcdfb_setcolreg_def set_pseudo_def exec_def)
  moreover have "fb_setcolreg ops = s3c_lcdfb_setcolreg"
    using assms(5) by (auto simp: s3c_lcdfb_ops_def s3c_fb_ops_def setcolreg_same)
  moreover from lcd.cmap_entry [OF assms(1-4)] obtain s' where
    "set_cmap lcd_color i cs s = Inr s'" "pseudo_palette s' ! (i + k) = rgb565 (r, g, b)"
    by blast
  ultimately show ?thesis
    by (intro conjI exI [of _ s']) (simp_all only: rgb565_fields Let_def simp_thms)
qed

theorem lcd_palette_witness:
  "\<exists>s s'. lcd_ready s \<and> set_cmap (\<lambda>i c. exec (case c of (r, g, b) \<Rightarrow> fb_setcolreg s3c_fb_ops i r g b)) 3
      [(0xffff, 0, 0x8000)] s = Inr s' \<and> field 11 5 (pseudo_palette s' ! 3) = 31"
proof -
  define s where "s = (lcd_initial (\<lambda>_. 0))\<lparr>fb := zero_fb\<lparr>fb_red := \<lparr>bf_offset = 11, bf_length = 5\<rparr>,
     fb_green := \<lparr>bf_offset = 5, bf_length = 6\<rparr>, fb_blue := \<lparr>bf_offset = 0, bf_length = 5\<rparr>\<rparr>\<rparr>"
  have s: "lcd_ready s" by (simp add: s_def lcd_ready_def lcd_initial_def)
  have "3 + length [(0xffff :: u32, 0 :: u32, 0x8000 :: u32)] \<le> 16"
    "0 < length [(0xffff :: u32, 0 :: u32, 0x8000 :: u32)]"
    "[(0xffff :: u32, 0 :: u32, 0x8000 :: u32)] ! 0 = (0xffff, 0, 0x8000)"
    "s3c_fb_ops \<in> {s3c_lcdfb_ops, s3c_fb_ops}" "17 > (16 :: nat)"
    by simp_all
  from lcd_palette [OF s this] s show ?thesis by (auto simp: Let_def field_def)
qed

end
