(* ===== verification/Gpio.thy ===== *)
theory Gpio
  imports Led Buttons_Irq Lcd
begin

text \<open>
  Three drivers on one set of GPIO registers: the LEDs of \<open>first_drv.c\<close> (GPF4 to GPF6), the keys of
  \<open>second_drv.c\<close> (GPF0, GPF2, GPG3) and the panel of \<open>lcd.c\<close> (ports B, C, D and GPG4) set up and read
  fields of the same words GPFCON, GPFDAT and GPGCON, each on its own with a read, a change of its bits and
  a write. What a function does to the registers is a list of masked updates (\<open>straight\<close>), and what belongs to a
  driver is a mask per register (\<open>own\<close>). The separation of the drivers, as long as their functions do not
  interrupt each other, is proved once in the locale \<open>separated\<close>.
\<close>

section \<open>Masked updates\<close>

text \<open>A register update clears some bits and sets some.\<close>

type_synonym reg_update = "ptr \<times> u32 \<times> u32"

definition masked :: "reg_update \<Rightarrow> (ptr \<Rightarrow> u32) \<Rightarrow> ptr \<Rightarrow> u32" where
  "masked u mem = (case u of (p, c, v) \<Rightarrow> mem(p := (mem p AND NOT c) OR v))"

definition inside :: "(ptr \<Rightarrow> u32) \<Rightarrow> reg_update list \<Rightarrow> bool" where
  "inside bits us \<longleftrightarrow> list_all (\<lambda>(p, c, v). (c OR v) AND NOT (bits p) = 0) us"

definition agree :: "(ptr \<Rightarrow> u32) \<Rightarrow> (ptr \<Rightarrow> u32) \<Rightarrow> (ptr \<Rightarrow> u32) \<Rightarrow> bool" where
  "agree bits m n \<longleftrightarrow> (\<forall>p. m p AND bits p = n p AND bits p)"

lemma agree_bits: "agree bits m n \<longleftrightarrow> (\<forall>p i. bit (bits p) i \<longrightarrow> bit (m p) i = bit (n p) i)"
proof -
  have "x AND b = y AND b \<longleftrightarrow> (\<forall>i. bit b i \<longrightarrow> bit x i = bit y i)" for x y b :: u32
  proof
    assume "x AND b = y AND b"
    then have "bit (x AND b) i = bit (y AND b) i" for i by simp
    then show "\<forall>i. bit b i \<longrightarrow> bit x i = bit y i" by (auto simp: bit_and_iff)
  qed (rule bit_word_eqI, auto simp: bit_and_iff)
  then show ?thesis by (simp add: agree_def)
qed

lemma within_bits:
  fixes x y :: u32
  assumes "x AND NOT y = 0" and "bit x i"
  shows "bit y i"
proof -
  from assms(2) have "i < 32" using bit_imp_le_length by fastforce
  moreover have "\<not> bit (x AND NOT y) i" using assms(1) by simp
  ultimately show ?thesis using assms(2) by (simp add: bit_and_iff bit_not_iff)
qed

lemma agree_refl [simp]: "agree bits m m"
  by (simp add: agree_def)

lemma agree_trans: "agree bits m n \<Longrightarrow> agree bits n k \<Longrightarrow> agree bits m k"
  by (simp add: agree_def)

text \<open>The function \<open>m\<close>, run in \<open>s\<close>, updates the registers by \<open>us\<close> whatever they contain, and ends in \<open>t\<close>.\<close>

definition bare :: "'a kstate_scheme \<Rightarrow> 'a kstate_scheme" where
  "bare s = s\<lparr>kmem := (\<lambda>_. 0), ktrace := []\<rparr>"

definition straight ::
  "('a kstate_scheme, 'r) state \<Rightarrow> 'a kstate_scheme \<Rightarrow> reg_update list \<Rightarrow> 'r \<Rightarrow> 'a kstate_scheme \<Rightarrow> bool" where
  "straight m s us r t \<longleftrightarrow> (\<forall>mem tr. case run_state m (s\<lparr>kmem := mem, ktrace := tr\<rparr>) of
     (r', t') \<Rightarrow> r' = r \<and> kmem t' = fold masked us mem \<and> bare t' = bare t)"

lemma bare_update [simp]: "bare (s\<lparr>kmem := m, ktrace := tr\<rparr>) = bare s" "bare (bare s) = bare s"
  "kmem (bare s) = (\<lambda>_. 0)" "ktrace (bare s) = []" "kfault (bare s) = kfault s"
  by (simp_all add: bare_def)

lemma bare_eq: "bare t = bare s \<Longrightarrow> t = s\<lparr>kmem := kmem t, ktrace := ktrace t\<rparr>"
  by (cases t, cases s) (simp add: bare_def)

lemma straightD:
  "straight m s us r t \<Longrightarrow> \<exists>tr'. run_state m (s\<lparr>kmem := mem, ktrace := tr\<rparr>) =
     (r, t\<lparr>kmem := fold masked us mem, ktrace := tr'\<rparr>)"
  unfolding straight_def
  by (drule spec [of _ mem], drule spec [of _ tr], clarsimp split: prod.splits) (metis bare_eq)

lemma straight_seq:
  assumes "straight m s us r t" and "straight n t vs q w"
  shows "straight (do { m; n }) s (us @ vs) q w"
  unfolding straight_def
proof (intro allI)
  fix mem tr
  obtain tr1 where m: "run_state m (s\<lparr>kmem := mem, ktrace := tr\<rparr>) = (r, t\<lparr>kmem := fold masked us mem, ktrace := tr1\<rparr>)"
    using straightD [OF assms(1)] by blast
  obtain tr2 where n: "run_state n (t\<lparr>kmem := fold masked us mem, ktrace := tr1\<rparr>) =
      (q, w\<lparr>kmem := fold masked vs (fold masked us mem), ktrace := tr2\<rparr>)"
    using straightD [OF assms(2)] by blast
  show "case run_state (do { m; n }) (s\<lparr>kmem := mem, ktrace := tr\<rparr>) of
      (r', t') \<Rightarrow> r' = q \<and> kmem t' = fold masked (us @ vs) mem \<and> bare t' = bare w"
    by (simp add: m n)
qed

lemma straight_bare: "straight m s us r t \<Longrightarrow> straight m (bare s) us r (bare t)"
  by (simp add: straight_def bare_def)

lemma masked_agree:
  assumes "inside bits us" and "agree bits m n"
  shows "agree bits (fold masked us m) (fold masked us n)"
  using assms
proof (induction us arbitrary: m n)
  case (Cons u us)
  obtain p c v where u: "u = (p, c, v)" by (cases u)
  have "agree bits (masked u m) (masked u n)"
    using Cons.prems(2) by (auto simp: u masked_def agree_bits bit_or_iff bit_and_iff bit_not_iff)
  with Cons show ?case by (simp add: inside_def)
qed simp

lemma masked_frame:
  assumes "inside bits us" and "\<forall>p. other p AND bits p = 0"
  shows "agree other (fold masked us m) m"
  using assms(1)
proof (induction us arbitrary: m)
  case (Cons u us)
  obtain p c v where u: "u = (p, c, v)" by (cases u)
  have "\<not> bit c i \<and> \<not> bit v i" if "bit (other p) i" for i
  proof -
    have "(c OR v) AND NOT (bits p) = 0" using Cons.prems by (simp add: inside_def u)
    moreover have "\<not> bit (other p AND bits p) i" using assms(2) by simp
    with that have "\<not> bit (bits p) i" by (simp add: bit_and_iff)
    ultimately have "\<not> bit (c OR v) i" using within_bits by blast
    then show ?thesis by (simp add: bit_or_iff)
  qed
  then have "agree other (masked u m) m"
    by (auto simp: u masked_def agree_bits bit_or_iff bit_and_iff bit_not_iff dest: bit_imp_le_length)
  moreover have "agree other (fold masked us (masked u m)) (masked u m)"
    using Cons by (simp add: inside_def)
  ultimately show ?case using agree_trans by auto
qed simp

section \<open>Separated drivers\<close>

text \<open>
  \<open>view d s\<close> is what the driver \<open>d\<close> can see of the state \<open>s\<close>: its own static variables and its own bits.
\<close>

locale separated =
  fixes step :: "'e \<Rightarrow> 's \<Rightarrow> 's" and dom :: "'e \<Rightarrow> 'd" and view :: "'d \<Rightarrow> 's \<Rightarrow> 'v" and ok :: "'s \<Rightarrow> bool"
  assumes keeps: "ok s \<Longrightarrow> ok (step e s)"
    and apart: "ok s \<Longrightarrow> dom e \<noteq> d \<Longrightarrow> view d (step e s) = view d s"
    and alone: "ok s \<Longrightarrow> ok t \<Longrightarrow> dom e = d \<Longrightarrow> view d s = view d t \<Longrightarrow> view d (step e s) = view d (step e t)"
begin

lemma run_keeps: "ok s \<Longrightarrow> ok (fold step es s)"
  by (induction es arbitrary: s) (simp_all add: keeps)

lemma run_alone:
  "ok s \<Longrightarrow> ok t \<Longrightarrow> view d s = view d t \<Longrightarrow>
    view d (fold step es s) = view d (fold step (filter (\<lambda>e. dom e = d) es) t)"
proof (induction es arbitrary: s t)
  case (Cons e es)
  show ?case
  proof (cases "dom e = d")
    case True
    note Cons.IH [OF keeps keeps alone, OF Cons.prems(1,2,1,2) True Cons.prems(3)]
    with True show ?thesis by simp
  next
    case False
    have "view d (step e s) = view d t" using apart [OF Cons.prems(1) False] Cons.prems(3) by simp
    with Cons.IH [OF keeps Cons.prems(2)] Cons.prems(1) False show ?thesis by simp
  qed
qed simp

end

section \<open>What the functions do to the registers\<close>

text \<open>
  \<open>ioremap\<close> is taken to be linear, so that two drivers that map the same register get the same address; the
  registers are named by their physical addresses.
\<close>

definition linear_map :: "kenv \<Rightarrow> u32 \<Rightarrow> bool" where
  "linear_map E off \<longleftrightarrow> (\<forall>p n. e_ioremap E p n = p + off) \<and>
     list_all (\<lambda>p. p + off \<noteq> 0) [0x56000010, 0x56000014, 0x56000020, 0x56000030, 0x56000050, 0x56000054,
       0x56000060, 0x56000064, 0x4D000000, 0x4D000004, 0x4D000008, 0x4D00000C, 0x4D000010, 0x4D000014,
       0x4D000018, 0x4D00001C]"

datatype gpio_driver = D_Led | D_Keys | D_Lcd

text \<open>
  The bits of a driver: those it sets up and writes, and those it reads. \<open>off\<close> is where the physical addresses
  are mapped.
\<close>

definition own :: "u32 \<Rightarrow> gpio_driver \<Rightarrow> ptr \<Rightarrow> u32" where
  "own off d p = (let a = p - off in case d of
     D_Led \<Rightarrow> if a = 0x56000050 then 0x3f00 else if a = 0x56000054 then 0x70 else 0
   | D_Keys \<Rightarrow> if a = 0x56000050 then 0x33 else if a = 0x56000054 then 0x05
       else if a = 0x56000060 then 0xc0 else if a = 0x56000064 then 0x08 else 0
   | D_Lcd \<Rightarrow> if a = 0x56000010 then 0x03 else if a = 0x56000014 then 0x01
       else if a \<in> {0x56000020, 0x56000030} then -1 else if a = 0x56000060 then 0x300
       else if 0x4D000000 \<le> a \<and> a < 0x4D000068 then -1 else 0)"

lemma own_apart: "d \<noteq> e \<Longrightarrow> own off d p AND own off e p = 0"
  by (cases d; cases e) (auto simp: own_def Let_def)

definition led_wired :: "u32 \<Rightarrow> first_state \<Rightarrow> bool" where
  "led_wired off s \<longleftrightarrow> kfault s = None \<and> first_gpfcon s = 0x56000050 + off \<and> first_gpfdat s = 0x56000054 + off"

definition keys_wired :: "u32 \<Rightarrow> second_state \<Rightarrow> bool" where
  "keys_wired off s \<longleftrightarrow> kfault s = None \<and> second_gpfcon s = 0x56000050 + off \<and> second_gpfdat s = 0x56000054 + off \<and>
     second_gpgcon s = 0x56000060 + off \<and> second_gpgdat s = 0x56000064 + off"

definition lcd_wired :: "u32 \<Rightarrow> lcd_state \<Rightarrow> bool" where
  "lcd_wired off s \<longleftrightarrow> kfault s = None \<and> gpbcon s = 0x56000010 + off \<and> gpbdat s = 0x56000014 + off \<and>
     gpccon s = 0x56000020 + off \<and> gpdcon s = 0x56000030 + off \<and> gpgcon s = 0x56000060 + off \<and>
     lcd_regs s = 0x4D000000 + off"

lemma open_straight:
  assumes "linear_map E off" and "led_wired off s"
  shows "straight first_drv_open s [(0x56000050 + off, 0x3f00, 0), (0x56000050 + off, 0, 0x1500)] 0 s"
  using assms by (simp add: straight_def linear_map_def led_wired_def driver_defs bare_def masked_def)

lemma write_straight:
  assumes "linear_map E off" and "led_wired off s"
  shows "straight (first_drv_write (\<lambda>n. take n b) stack (length b)) s
    (if 4 < length b then [] else if le32 (b @ drop (length b) stack) = 1 then [(0x56000054 + off, 0x70, 0)]
     else [(0x56000054 + off, 0, 0x70)]) 0
    (if 4 < length b then s\<lparr>kfault := Some StackSmash\<rparr> else s)"
  using assms by (auto simp: straight_def linear_map_def led_wired_def driver_defs bare_def masked_def Let_def)

lemma keys_open_straight:
  assumes "linear_map E off" and "keys_wired off s"
  shows "straight second_drv_open s [(0x56000050 + off, 0x33, 0), (0x56000060 + off, 0xc0, 0)] 0 s"
  using assms by (simp add: straight_def linear_map_def keys_wired_def driver_defs bare_def masked_def)

text \<open>The panel, phase by phase.\<close>

lemma fill_straight:
  assumes "kfault s = None" and "e_framebuffer_alloc E \<noteq> NULL"
  shows "\<exists>t. straight (lcd_fill_info E) s [] () t \<and> kfault t = None"
  using assms by (intro exI [of _ "snd (run_state (lcd_fill_info E) s)"])
    (simp add: straight_def lcd_fill_info_def kernel_calls bare_def)

lemma gpio_straight:
  assumes "kfault s = None" and "linear_map E off"
  shows "\<exists>t. straight (lcd_setup_gpio E) s
     [(0x56000010 + off, 3, 0), (0x56000010 + off, 0, 1), (0x56000014 + off, 1, 0),
      (0x56000020 + off, -1, 0xaaaaaaaa), (0x56000030 + off, -1, 0xaaaaaaaa), (0x56000060 + off, 0, 0x300)] () t \<and>
     lcd_wired off (t\<lparr>lcd_regs := 0x4D000000 + off\<rparr>)"
  using assms by (intro exI [of _ "s\<lparr>gpbcon := 0x56000010 + off, gpccon := 0x56000020 + off,
      gpdcon := 0x56000030 + off, gpgcon := 0x56000060 + off, gpbdat := 0x56000014 + off\<rparr>"])
    (simp add: straight_def lcd_setup_gpio_def kernel_calls bare_def linear_map_def masked_def lcd_wired_def)

lemma regs_straight:
  assumes "linear_map E off" and "lcd_wired off (s\<lparr>lcd_regs := 0x4D000000 + off\<rparr>)"
  shows "\<exists>us t. straight (lcd_setup_regs E) s us () t \<and> inside (own off D_Lcd) us \<and> lcd_wired off t"
  using assms by (intro exI [of _ "[(0x4D000000 + off, -1, 0x478), (0x4D000004 + off, -1, 0x34fc040),
      (0x4D000008 + off, -1, 0x80ef0a), (0x4D00000C + off, -1, 4), (0x4D000010 + off, -1, 0xb01)]"]
      exI [of _ "s\<lparr>lcd_regs := 0x4D000000 + off\<rparr>"])
    (simp add: straight_def lcd_setup_regs_def kernel_calls bare_def linear_map_def masked_def lcd_wired_def
      lcd_offsets inside_def own_def)

lemma buffer_straight:
  assumes "linear_map E off" and "lcd_wired off s"
  shows "\<exists>us t. straight (lcd_setup_buffer E) s us () t \<and> inside (own off D_Lcd) us \<and> lcd_wired off t"
proof -
  let ?n = "smem_len (fb s)"
  obtain base start where dma: "e_dma_alloc E ?n = (base, start)" by (cases "e_dma_alloc E ?n")
  show ?thesis
    using assms dma by (intro exI [of _ "[(0x4D000014 + off, -1, drop_bit 1 start AND NOT (push_bit 30 3)),
        (0x4D000018 + off, -1, drop_bit 1 (start + of_nat ?n) AND 0x1fffff),
        (0x4D00001C + off, -1, push_bit 11 0x200 OR (240*16 div 16))]"]
        exI [of _ "s\<lparr>fb := (fb s)\<lparr>screen_base := base, smem_start := start\<rparr>\<rparr>"])
      (simp add: straight_def lcd_setup_buffer_def kernel_calls bare_def linear_map_def masked_def lcd_wired_def
        lcd_offsets inside_def own_def)
qed

lemma enable_straight:
  assumes "linear_map E off" and "lcd_wired off s"
  shows "straight lcd_enable s [(0x4D000000 + off, 0, 1), (0x4D000010 + off, 0, 8), (0x56000014 + off, 0, 1)] () s"
    and "straight lcd_exit s [(0x56000014 + off, 1, 0), (0x4D000010 + off, 8, 0), (0x4D000000 + off, 1, 0)] () s"
  using assms by (simp_all add: straight_def lcd_enable_def lcd_exit_def bare_def linear_map_def masked_def
      lcd_wired_def lcd_offsets)

lemma exit_inside: "inside (own off D_Lcd) [(0x56000014 + off, 1, 0), (0x4D000010 + off, 8, 0), (0x4D000000 + off, 1, 0)]"
  by (simp add: inside_def own_def)

lemma inside_append [simp]: "inside bits (us @ vs) \<longleftrightarrow> inside bits us \<and> inside bits vs"
  by (simp add: inside_def)

lemma lcd_init_straight:
  assumes "kfault s = None" and "linear_map E off" and "e_framebuffer_alloc E \<noteq> NULL"
  shows "\<exists>us t. straight (lcd_init E) s us 0 t \<and> inside (own off D_Lcd) us \<and> lcd_wired off t"
proof -
  from fill_straight [OF assms(1,3)] obtain a where a: "straight (lcd_fill_info E) s [] () a" "kfault a = None"
    by blast
  from gpio_straight [OF a(2) assms(2)] obtain us b where b: "straight (lcd_setup_gpio E) a us () b"
    "lcd_wired off (b\<lparr>lcd_regs := 0x4D000000 + off\<rparr>)" "inside (own off D_Lcd) us"
    by (auto simp: inside_def own_def)
  from regs_straight [OF assms(2) b(2)] obtain vs c where c: "straight (lcd_setup_regs E) b vs () c"
    "inside (own off D_Lcd) vs" "lcd_wired off c" by blast
  from buffer_straight [OF assms(2) c(3)] obtain ws d where d: "straight (lcd_setup_buffer E) c ws () d"
    "inside (own off D_Lcd) ws" "lcd_wired off d" by blast
  note e = enable_straight(1) [OF assms(2) d(3)]
  have f: "straight (do { f \<leftarrow> gets s3c_lcd; register_framebuffer E f; State_Monad.return 0 }) d [] 0 d"
    using d(3) by (simp add: straight_def kernel_calls bare_def lcd_wired_def)
  from straight_seq [OF a(1) straight_seq [OF b(1) straight_seq [OF c(1) straight_seq [OF d(1) straight_seq [OF e f]]]]]
  show ?thesis
    unfolding lcd_init_def using b(3) c(2) d(2,3)
    by (intro exI [of _ "[] @ us @ vs @ ws @ _ @ []"] exI [of _ d]) (auto simp: inside_def own_def)
qed

section \<open>The board\<close>

text \<open>The registers with the drivers' static variables; \<open>b_read\<close> is what the reads of the keys returned.\<close>

record gpio_bus =
  regs :: "ptr \<Rightarrow> u32"
  b_led :: first_state
  b_keys :: second_state
  b_lcd :: lcd_state
  b_panel :: bool
  b_read :: "(c_int \<times> u8 list) list"

definition on_regs :: "('a kstate_scheme, 'r) state \<Rightarrow> 'a kstate_scheme \<Rightarrow> (ptr \<Rightarrow> u32) \<Rightarrow>
    'r \<times> (ptr \<Rightarrow> u32) \<times> 'a kstate_scheme" where
  "on_regs m s mem = (case run_state m (s\<lparr>kmem := mem, ktrace := []\<rparr>) of (r, t) \<Rightarrow> (r, kmem t, bare t))"

text \<open>
  \<open>LedWrite stack b\<close> writes the bytes \<open>b\<close>; \<open>Levels f g\<close> is the hardware: the keys put new levels on the input bits of
  ports F and G.
\<close>

datatype gpio_event = LedOpen | LedWrite "u8 list" "u8 list" | KeysOpen | KeysRead nat | Levels u32 u32
  | PanelLoad | PanelUnload

fun gpio_dom :: "gpio_event \<Rightarrow> gpio_driver" where
  "gpio_dom LedOpen = D_Led"
| "gpio_dom (LedWrite stack b) = D_Led"
| "gpio_dom KeysOpen = D_Keys"
| "gpio_dom (KeysRead n) = D_Keys"
| "gpio_dom (Levels f g) = D_Keys"
| "gpio_dom PanelLoad = D_Lcd"
| "gpio_dom PanelUnload = D_Lcd"

definition led_does :: "(first_state, nat) state \<Rightarrow> gpio_bus \<Rightarrow> gpio_bus" where
  "led_does m b = (case on_regs m (b_led b) (regs b) of (r, mem, t) \<Rightarrow> b\<lparr>regs := mem, b_led := t\<rparr>)"

definition panel_does :: "(lcd_state, 'r) state \<Rightarrow> lcd_state \<Rightarrow> bool \<Rightarrow> gpio_bus \<Rightarrow> gpio_bus" where
  "panel_does m s up b = (case on_regs m s (regs b) of (r, mem, t) \<Rightarrow> b\<lparr>regs := mem, b_lcd := t, b_panel := up\<rparr>)"

fun gpio_step :: "kenv \<Rightarrow> u32 \<Rightarrow> gpio_event \<Rightarrow> gpio_bus \<Rightarrow> gpio_bus" where
  "gpio_step E off LedOpen b = led_does first_drv_open b"
| "gpio_step E off (LedWrite stack buf) b = led_does (first_drv_write (\<lambda>n. take n buf) stack (length buf)) b"
| "gpio_step E off KeysOpen b =
     (case on_regs second_drv_open (b_keys b) (regs b) of (r, mem, t) \<Rightarrow> b\<lparr>regs := mem, b_keys := t\<rparr>)"
| "gpio_step E off (KeysRead n) b =
     (case on_regs (second_drv_read n) (b_keys b) (regs b) of
        (r, mem, t) \<Rightarrow> b\<lparr>regs := mem, b_keys := t, b_read := b_read b @ [r]\<rparr>)"
| "gpio_step E off (Levels f g) b = b\<lparr>regs := fold masked
     [(0x56000054 + off, 0x05, f AND 0x05), (0x56000064 + off, 0x08, g AND 0x08)] (regs b)\<rparr>"
| "gpio_step E off PanelLoad b =
     (if b_panel b then b else panel_does (lcd_init E) (lcd_initial (\<lambda>_. 0)) True b)"
| "gpio_step E off PanelUnload b = (if b_panel b then panel_does lcd_exit (b_lcd b) False b else b)"

definition gpio_ok :: "u32 \<Rightarrow> gpio_bus \<Rightarrow> bool" where
  "gpio_ok off b \<longleftrightarrow> (led_wired off (b_led b) \<or> kfault (b_led b) \<noteq> None) \<and> keys_wired off (b_keys b) \<and>
     (b_panel b \<longrightarrow> lcd_wired off (b_lcd b))"

definition gpio_view :: "u32 \<Rightarrow> gpio_driver \<Rightarrow> gpio_bus \<Rightarrow>
    (ptr \<Rightarrow> u32) \<times> (first_state + second_state \<times> (c_int \<times> u8 list) list + lcd_state \<times> bool)" where
  "gpio_view off d b = (\<lambda>p. regs b p AND own off d p, case d of
     D_Led \<Rightarrow> Inl (bare (b_led b))
   | D_Keys \<Rightarrow> Inr (Inl (bare (b_keys b), b_read b))
   | D_Lcd \<Rightarrow> Inr (Inr (bare (b_lcd b), b_panel b)))"

locale linear_board =
  fixes E :: kenv and off :: u32
  assumes linear: "linear_map E off" and room: "e_framebuffer_alloc E \<noteq> NULL"
begin

text \<open>What a driver does is the same wherever its own state and its own bits look the same.\<close>

lemma on_bare: "bare s = bare s' \<Longrightarrow> on_regs m s mem = on_regs m s' mem"
proof -
  assume "bare s = bare s'"
  then have "(bare s)\<lparr>kmem := mem, ktrace := []\<rparr> = (bare s')\<lparr>kmem := mem, ktrace := []\<rparr>" by simp
  then show ?thesis by (simp add: on_regs_def bare_def)
qed

lemma on_straight: "straight m s us r t \<Longrightarrow> on_regs m s mem = (r, fold masked us mem, bare t)"
  by (drule straightD [where mem = mem and tr = "[]"]) (auto simp: on_regs_def)

lemma wired_bare [simp]: "led_wired off (bare s) = led_wired off s" "keys_wired off (bare k) = keys_wired off k"
  "lcd_wired off (bare l) = lcd_wired off l"
  by (simp_all add: led_wired_def keys_wired_def lcd_wired_def bare_def)

lemma view_regs:
  "gpio_view off d b = gpio_view off d c \<Longrightarrow> agree (own off d) (regs b) (regs c)"
  by (simp add: gpio_view_def agree_def fun_eq_iff)

lemma others_regs:
  assumes "inside (own off d) us" and "d \<noteq> e"
  shows "fold masked us mem p AND own off e p = mem p AND own off e p"
  using masked_frame [OF assms(1), of "own off e" mem] own_apart [of e d] assms(2) by (simp add: agree_def)

lemma own_regs:
  assumes "inside (own off d) us" and "gpio_view off d b = gpio_view off d c"
  shows "fold masked us (regs b) p AND own off d p = fold masked us (regs c) p AND own off d p"
  using masked_agree [OF assms(1) view_regs [OF assms(2)]] by (simp add: agree_def)

definition led_function :: "(first_state, nat) state \<Rightarrow> bool" where
  "led_function m \<longleftrightarrow> m = first_drv_open \<or>
     (\<exists>stack b. m = first_drv_write (\<lambda>n. take n b) stack (length b))"

lemma led_faulted:
  assumes "kfault s = Some e" and "led_function m"
  shows "straight m s [] 0 s"
proof -
  have "straight first_drv_open s [] 0 s"
    using assms(1) by (simp add: straight_def first_drv_open_def bare_def)
  moreover have "straight (first_drv_write (\<lambda>n. take n b) stack (length b)) s [] 0 s" for stack b
    using assms(1) by (cases "4 < length b"; cases "le32 (b @ drop (length b) stack) = 1")
      (simp_all add: straight_def first_drv_write_def bare_def Let_def)
  ultimately show ?thesis using assms(2) by (auto simp: led_function_def)
qed

lemma led_straight:
  assumes "led_wired off s \<or> kfault s \<noteq> None" and "led_function m"
  shows "\<exists>us t. straight m s us 0 t \<and> inside (own off D_Led) us \<and> (led_wired off t \<or> kfault t \<noteq> None)"
proof (cases "led_wired off s")
  case True
  from assms(2) show ?thesis
    unfolding led_function_def
    using open_straight [OF linear True] write_straight [OF linear True] True
    by (elim disjE exE; force simp: inside_def own_def split: if_splits)
next
  case False
  then obtain e where e: "kfault s = Some e" using assms(1) by auto
  with led_faulted [OF e assms(2)] show ?thesis by (intro exI [of _ "[]"] exI [of _ s]) (simp add: inside_def)
qed

lemma led_keeps:
  assumes "gpio_ok off b" and "led_function m"
  shows "gpio_ok off (led_does m b)" and "d \<noteq> D_Led \<Longrightarrow> gpio_view off d (led_does m b) = gpio_view off d b"
    and "gpio_view off D_Led b = gpio_view off D_Led c \<Longrightarrow>
      gpio_view off D_Led (led_does m b) = gpio_view off D_Led (led_does m c)"
proof -
  have "led_wired off (b_led b) \<or> kfault (b_led b) \<noteq> None" using assms(1) by (simp add: gpio_ok_def)
  from led_straight [OF this assms(2)] obtain us t where t: "straight m (b_led b) us 0 t"
    "inside (own off D_Led) us" "led_wired off t \<or> kfault t \<noteq> None" by blast
  note b = on_straight [OF t(1)]
  show "gpio_ok off (led_does m b)" using assms(1) t(3) by (simp add: led_does_def b gpio_ok_def)
  show "d \<noteq> D_Led \<Longrightarrow> gpio_view off d (led_does m b) = gpio_view off d b"
    using others_regs [OF t(2), of d] by (cases d) (simp_all add: led_does_def b gpio_view_def)
  assume same: "gpio_view off D_Led b = gpio_view off D_Led c"
  then have "on_regs m (b_led c) = on_regs m (b_led b)" by (intro ext on_bare) (simp add: gpio_view_def)
  then show "gpio_view off D_Led (led_does m b) = gpio_view off D_Led (led_does m c)"
    using own_regs [OF t(2) same] by (simp add: led_does_def b gpio_view_def)
qed

lemma keys_read_run:
  assumes "keys_wired off s"
  shows "on_regs (second_drv_read n) s mem = ((if n \<noteq> 3 then (Inl EINVAL, []) else (Inr 3,
    [of_bool (bit (mem (0x56000054 + off)) 0), of_bool (bit (mem (0x56000054 + off)) 2),
     of_bool (bit (mem (0x56000064 + off)) 3)])), mem, bare s)"
proof -
  let ?s = "s\<lparr>kmem := mem, ktrace := []\<rparr>"
  have "kfault ?s = None" "second_gpfdat ?s \<noteq> NULL" "second_gpgdat ?s \<noteq> NULL"
    using assms linear by (simp_all add: keys_wired_def linear_map_def)
  from second_read_run [OF this] assms show ?thesis
    by (auto simp: on_regs_def exec_Inr_iff keys_wired_def) (simp_all add: second_drv_read_def)
qed

lemma keys_read_bits:
  assumes "gpio_view off D_Keys b = gpio_view off D_Keys c"
  shows "bit (regs b (0x56000054 + off)) 0 = bit (regs c (0x56000054 + off)) 0"
    and "bit (regs b (0x56000054 + off)) 2 = bit (regs c (0x56000054 + off)) 2"
    and "bit (regs b (0x56000064 + off)) 3 = bit (regs c (0x56000064 + off)) 3"
proof -
  have "bit (own off D_Keys (0x56000054 + off)) 0" "bit (own off D_Keys (0x56000054 + off)) 2"
    "bit (own off D_Keys (0x56000064 + off)) 3" by (simp_all add: own_def)
  with view_regs [OF assms] show "bit (regs b (0x56000054 + off)) 0 = bit (regs c (0x56000054 + off)) 0"
    "bit (regs b (0x56000054 + off)) 2 = bit (regs c (0x56000054 + off)) 2"
    "bit (regs b (0x56000064 + off)) 3 = bit (regs c (0x56000064 + off)) 3"
    unfolding agree_bits by blast+
qed

lemma keys_open_keeps:
  assumes "gpio_ok off b"
  shows "gpio_ok off (gpio_step E off KeysOpen b)"
    and "d \<noteq> D_Keys \<Longrightarrow> gpio_view off d (gpio_step E off KeysOpen b) = gpio_view off d b"
    and "gpio_view off D_Keys b = gpio_view off D_Keys c \<Longrightarrow>
      gpio_view off D_Keys (gpio_step E off KeysOpen b) = gpio_view off D_Keys (gpio_step E off KeysOpen c)"
proof -
  let ?us = "[(0x56000050 + off, 0x33, 0), (0x56000060 + off, 0xc0, 0)]"
  have "keys_wired off (b_keys b)" using assms by (simp add: gpio_ok_def)
  note b = on_straight [OF keys_open_straight [OF linear this]]
  have i: "inside (own off D_Keys) ?us" by (simp add: inside_def own_def)
  show "gpio_ok off (gpio_step E off KeysOpen b)" using assms by (simp add: b gpio_ok_def)
  show "d \<noteq> D_Keys \<Longrightarrow> gpio_view off d (gpio_step E off KeysOpen b) = gpio_view off d b"
    using others_regs [OF i, of d] by (cases d) (simp_all add: b gpio_view_def del: fold_simps)
  assume same: "gpio_view off D_Keys b = gpio_view off D_Keys c"
  then have "on_regs second_drv_open (b_keys c) = on_regs second_drv_open (b_keys b)"
    by (intro ext on_bare) (simp add: gpio_view_def)
  then show "gpio_view off D_Keys (gpio_step E off KeysOpen b) = gpio_view off D_Keys (gpio_step E off KeysOpen c)"
    using own_regs [OF i same] same by (simp add: b gpio_view_def del: fold_simps)
qed

lemma levels_keep:
  shows "gpio_ok off (gpio_step E off (Levels f g) b) = gpio_ok off b"
    and "d \<noteq> D_Keys \<Longrightarrow> gpio_view off d (gpio_step E off (Levels f g) b) = gpio_view off d b"
    and "gpio_view off D_Keys b = gpio_view off D_Keys c \<Longrightarrow>
      gpio_view off D_Keys (gpio_step E off (Levels f g) b) = gpio_view off D_Keys (gpio_step E off (Levels f g) c)"
proof -
  let ?us = "[(0x56000054 + off, 0x05, f AND 0x05), (0x56000064 + off, 0x08, g AND 0x08)]"
  have i: "inside (own off D_Keys) ?us"
  proof -
    have "(k OR (x AND k)) AND NOT k = 0" for x k :: u32
      by (rule bit_word_eqI) (auto simp: bit_and_iff bit_or_iff bit_not_iff)
    from this [of 5 f] this [of 8 g] show ?thesis by (simp add: inside_def own_def)
  qed
  show "gpio_ok off (gpio_step E off (Levels f g) b) = gpio_ok off b" by (simp add: gpio_ok_def del: fold_simps)
  show "d \<noteq> D_Keys \<Longrightarrow> gpio_view off d (gpio_step E off (Levels f g) b) = gpio_view off d b"
    using others_regs [OF i, of d] by (cases d) (simp_all add: gpio_view_def del: fold_simps)
  assume same: "gpio_view off D_Keys b = gpio_view off D_Keys c"
  then show "gpio_view off D_Keys (gpio_step E off (Levels f g) b) =
      gpio_view off D_Keys (gpio_step E off (Levels f g) c)"
    using own_regs [OF i same] same by (simp add: gpio_view_def del: fold_simps)
qed

lemma panel_keeps:
  assumes "gpio_ok off b" and "straight m s us r t" and "inside (own off D_Lcd) us" and "lcd_wired off t"
  shows "gpio_ok off (panel_does m s up b)"
    and "d \<noteq> D_Lcd \<Longrightarrow> gpio_view off d (panel_does m s up b) = gpio_view off d b"
    and "gpio_view off D_Lcd b = gpio_view off D_Lcd c \<Longrightarrow> bare s = bare s' \<Longrightarrow>
      gpio_view off D_Lcd (panel_does m s up b) = gpio_view off D_Lcd (panel_does m s' up c)"
proof -
  note b = on_straight [OF assms(2)]
  show "gpio_ok off (panel_does m s up b)" using assms(1,4) by (simp add: panel_does_def b gpio_ok_def)
  show "d \<noteq> D_Lcd \<Longrightarrow> gpio_view off d (panel_does m s up b) = gpio_view off d b"
    using others_regs [OF assms(3), of d] by (cases d) (simp_all add: panel_does_def b gpio_view_def)
  assume same: "gpio_view off D_Lcd b = gpio_view off D_Lcd c" and "bare s = bare s'"
  then have "on_regs m s' = on_regs m s" by (intro ext on_bare) simp
  then show "gpio_view off D_Lcd (panel_does m s up b) = gpio_view off D_Lcd (panel_does m s' up c)"
    using own_regs [OF assms(3) same] by (simp add: panel_does_def b gpio_view_def)
qed

lemma panel_phase:
  assumes "gpio_ok off b" and "b_panel b"
  shows "\<exists>us. straight lcd_exit (b_lcd b) us () (b_lcd b) \<and> inside (own off D_Lcd) us \<and> lcd_wired off (b_lcd b)"
proof -
  have w: "lcd_wired off (b_lcd b)" using assms by (simp add: gpio_ok_def)
  from enable_straight(2) [OF linear w] w exit_inside show ?thesis by blast
qed

lemma step_keeps:
  assumes "gpio_ok off b"
  shows "gpio_ok off (gpio_step E off e b) \<and>
    (gpio_dom e \<noteq> d \<longrightarrow> gpio_view off d (gpio_step E off e b) = gpio_view off d b)"
proof (cases e)
  case LedOpen
  have "led_function first_drv_open" by (simp add: led_function_def)
  from led_keeps(1) [OF assms this] led_keeps(2) [OF assms this, of d] show ?thesis by (auto simp: LedOpen)
next
  case (LedWrite stack buf)
  have "led_function (first_drv_write (\<lambda>n. take n buf) stack (length buf))" by (auto simp: led_function_def)
  from led_keeps(1) [OF assms this] led_keeps(2) [OF assms this, of d] show ?thesis by (auto simp: LedWrite)
next
  case KeysOpen
  then show ?thesis using keys_open_keeps(1) [OF assms] keys_open_keeps(2) [OF assms, of d] by auto
next
  case (KeysRead n)
  have "keys_wired off (b_keys b)" using assms by (simp add: gpio_ok_def)
  note keys_read_run [OF this, of n]
  with assms show ?thesis by (cases d) (simp_all add: KeysRead gpio_ok_def gpio_view_def)
next
  case (Levels f g)
  then show ?thesis using levels_keep(1) [of f g b] levels_keep(2) [of d f g b] assms by (auto simp del: gpio_step.simps)
next
  case PanelLoad
  have "kfault (lcd_initial (\<lambda>_. 0)) = None" by (simp add: lcd_initial_def)
  from lcd_init_straight [OF this linear room] obtain us t where
    "straight (lcd_init E) (lcd_initial (\<lambda>_. 0)) us 0 t" "inside (own off D_Lcd) us" "lcd_wired off t" by blast
  from panel_keeps(1) [OF assms this, of True] panel_keeps(2) [OF assms this, of d True] assms show ?thesis by (auto simp: PanelLoad)
next
  case PanelUnload
  show ?thesis
  proof (cases "b_panel b")
    case True
    from panel_phase [OF assms True] obtain us where
      t: "straight lcd_exit (b_lcd b) us () (b_lcd b)" "inside (own off D_Lcd) us" "lcd_wired off (b_lcd b)" by blast
    from panel_keeps(1) [OF assms t, of False] panel_keeps(2) [OF assms t, of d False] True show ?thesis
      by (auto simp: PanelUnload)
  qed (use assms in \<open>simp add: PanelUnload\<close>)
qed

lemma step_alone:
  assumes "gpio_ok off b" and "gpio_view off (gpio_dom e) b = gpio_view off (gpio_dom e) c"
  shows "gpio_view off (gpio_dom e) (gpio_step E off e b) = gpio_view off (gpio_dom e) (gpio_step E off e c)"
proof (cases e)
  case LedOpen
  have "led_function first_drv_open" by (simp add: led_function_def)
  from led_keeps(3) [OF assms(1) this, of c] assms(2) show ?thesis by (auto simp: LedOpen)
next
  case (LedWrite stack buf)
  have "led_function (first_drv_write (\<lambda>n. take n buf) stack (length buf))" by (auto simp: led_function_def)
  from led_keeps(3) [OF assms(1) this, of c] assms(2) show ?thesis by (auto simp: LedWrite)
next
  case KeysOpen
  then show ?thesis using keys_open_keeps(3) [OF assms(1), of c] assms(2) by auto
next
  case (KeysRead n)
  have b: "keys_wired off (b_keys b)" using assms(1) by (simp add: gpio_ok_def)
  have same: "gpio_view off D_Keys b = gpio_view off D_Keys c" using assms(2) by (simp add: KeysRead)
  then have "bare (b_keys b) = bare (b_keys c)" by (simp add: gpio_view_def)
  with b have c: "keys_wired off (b_keys c)" by (metis wired_bare(2))
  from keys_read_bits [OF same] keys_read_run [OF b, of n] keys_read_run [OF c, of n] same show ?thesis
    by (simp add: KeysRead gpio_view_def)
next
  case (Levels f g)
  then show ?thesis using levels_keep(3) [of b c f g] assms(2) by (simp del: gpio_step.simps)
next
  case PanelLoad
  have "kfault (lcd_initial (\<lambda>_. 0)) = None" by (simp add: lcd_initial_def)
  from lcd_init_straight [OF this linear room] obtain us t where
    t: "straight (lcd_init E) (lcd_initial (\<lambda>_. 0)) us 0 t" "inside (own off D_Lcd) us" "lcd_wired off t" by blast
  have "b_panel b = b_panel c" using assms(2) by (simp add: PanelLoad gpio_view_def)
  with panel_keeps(3) [OF assms(1) t, of c "lcd_initial (\<lambda>_. 0)" True] assms(2) show ?thesis by (auto simp: PanelLoad)
next
  case PanelUnload
  have same: "b_panel b = b_panel c" "bare (b_lcd b) = bare (b_lcd c)"
    using assms(2) by (simp_all add: PanelUnload gpio_view_def)
  show ?thesis
  proof (cases "b_panel b")
    case True
    from panel_phase [OF assms(1) True] obtain us where
      t: "straight lcd_exit (b_lcd b) us () (b_lcd b)" "inside (own off D_Lcd) us" "lcd_wired off (b_lcd b)" by blast
    from panel_keeps(3) [OF assms(1) t, of c "b_lcd c" False] assms(2) same True show ?thesis
      by (auto simp: PanelUnload)
  qed (use assms(2) same in \<open>simp add: PanelUnload\<close>)
qed

end

sublocale linear_board \<subseteq> gpio: separated "gpio_step E off" gpio_dom "gpio_view off" "gpio_ok off"
  by unfold_locales (use step_keeps step_alone in blast)+

context linear_board
begin

lemma run_own: "gpio_ok off b \<Longrightarrow> gpio_view off d (fold (gpio_step E off) es b) =
    gpio_view off d (fold (gpio_step E off) (filter (\<lambda>e. gpio_dom e = d) es) b)"
  by (rule gpio.run_alone) simp_all

end

interpretation sample_board: linear_board sample_env "0x98000000"
  by unfold_locales (simp_all add: linear_map_def sample_env_def)

text \<open>Both character drivers loaded, no panel.\<close>

definition gpio_start :: "kenv \<Rightarrow> (ptr \<Rightarrow> u32) \<Rightarrow> gpio_bus" where
  "gpio_start E m = \<lparr>regs = m, b_led = bare (snd (run_state (first_drv_init E) (first_initial m))),
     b_keys = bare (snd (run_state (second_drv_init E) (second_initial m))), b_lcd = lcd_initial m,
     b_panel = False, b_read = []\<rparr>"

lemma start_ok:
  assumes "linear_map E off"
  shows "gpio_ok off (gpio_start E m)"
proof -
  have "e_ioremap E 0x56000050 16 = 0x56000050 + off" "e_ioremap E 0x56000060 16 = 0x56000060 + off"
    using assms by (simp_all add: linear_map_def)
  then show ?thesis
    by (simp add: gpio_ok_def gpio_start_def led_wired_def keys_wired_def driver_defs first_initial_def
        second_initial_def bare_def add.commute)
qed



section \<open>Interrupted updates\<close>

text \<open>
  No lock protects the registers. \<open>first_drv_open\<close> after its first read of GPFCON, with the value \<open>v\<close> it read:
\<close>

definition led_open_rest :: "u32 \<Rightarrow> (first_state, nat) state" where
  "led_open_rest v = do {
     gpfcon \<leftarrow> gets first_gpfcon;
     store gpfcon (v AND NOT (push_bit (4*2) 0x03 OR push_bit (5*2) 0x03 OR push_bit (6*2) 0x03));
     modify gpfcon (\<lambda>r. r OR (push_bit (4*2) 0x01 OR push_bit (5*2) 0x01 OR push_bit (6*2) 0x01));
     State_Monad.return 0 }"

lemma first_drv_open_split:
  "run_state first_drv_open s =
     run_state (do { gpfcon \<leftarrow> gets first_gpfcon; v \<leftarrow> load gpfcon; led_open_rest v }) s"
  by (cases "kfault s"; cases "first_gpfcon s = NULL")
    (simp_all add: first_drv_open_def led_open_rest_def modify_def load_def split_beta)

text \<open>
  If the keys are opened in between, the mode of their pins that \<open>second_drv_open\<close> set is overwritten with the old one.
\<close>

theorem preempted_open_loses_update:
  "let b = gpio_start sample_env (\<lambda>_. 1); v = regs b 0xEE000050;
       c = gpio_step sample_env 0x98000000 KeysOpen b; e = led_does (led_open_rest v) c in
     regs c 0xEE000050 AND own 0x98000000 D_Keys 0xEE000050 = 0 \<and>
     regs e 0xEE000050 AND own 0x98000000 D_Keys 0xEE000050 = 1"
  by (simp add: Let_def gpio_start_def led_does_def led_open_rest_def on_regs_def driver_defs first_initial_def
      second_initial_def sample_env_def bare_def own_def)

end
