(* ===== verification/Timers.thy ===== *)
theory Timers
  imports Kernel
begin

text \<open>
  Kernel time as the drivers with a \<open>timer_list\<close> see it: \<open>jiffies\<close> and the expiry time of the one
  timer a driver owns (\<open>None\<close> while it is not pending). Driver states extend \<open>time_state\<close>.
\<close>

record time_state = kstate +
  jiffies :: nat
  timer :: "nat option"

definition mod_timer :: "nat \<Rightarrow> ('a time_state_scheme, unit) state" where
  "mod_timer t = do { upd (\<lambda>s. s\<lparr>timer := Some t\<rparr>); call (KTimer (ModTimer t)) }"

text \<open>
  \<open>init_timer\<close> leaves \<open>expires\<close> alone, which is 0 in the static \<open>timer_list\<close>, so \<open>add_timer\<close> arms
  the timer for time 0.
\<close>

definition add_static_timer :: "('a time_state_scheme, unit) state" where
  "add_static_timer = do {
     call (KTimer InitTimer);
     upd (\<lambda>s. s\<lparr>timer := Some 0\<rparr>);
     call (KTimer AddTimer) }"

definition del_timer :: "('a time_state_scheme, unit) state" where
  "del_timer = do { upd (\<lambda>s. s\<lparr>timer := None\<rparr>); call (KTimer DelTimer) }"

definition tick :: "'a time_state_scheme \<Rightarrow> 'a time_state_scheme" where
  "tick s = s\<lparr>jiffies := Suc (jiffies s)\<rparr>"

declare mod_timer_def [driver_defs] add_static_timer_def [driver_defs] del_timer_def [driver_defs]

end
