(* ===== verification/Buttons_Timer.thy ===== *)
theory Buttons_Timer
  imports Buttons_Irq Timers
begin

text \<open>
  The two button drivers that debounce with a kernel timer:
  \<open>src/Drivers/7.buttons_all/buttons.c\<close> (character device with a semaphore for exclusive use,
  blocking and non-blocking \<open>open\<close> and \<open>read\<close>) and \<open>src/Drivers/8.buttons_input/buttons_inp.c\<close>
  (input device). In both the interrupt handler only notes which pin changed and moves the timer to
  \<open>jiffies + HZ/100\<close>; the timer function reads the pin and reports. The timing contract is the
  locale \<open>debounced\<close>, the exclusive use an invariant of the step relation \<open>all_step\<close>.
\<close>

section \<open>The noted pin\<close>

text \<open>\<open>irq_pd\<close> is the index into the driver's table of the pin that interrupted last.\<close>

record timer_state = time_state +
  irq_pd :: "nat option"

section \<open>buttons.c\<close>

record all_state = timer_state +
  button_lock :: nat
  ev_timer :: nat
  all_key_val :: u8
  all_major :: int
  button_cls :: ptr

definition all_buttons_irq :: "nat \<Rightarrow> nat \<Rightarrow> (all_state, unit) state" where
  "all_buttons_irq HZ dev_id = do {
     upd (\<lambda>s. s\<lparr>irq_pd := Some dev_id\<rparr>);
     now \<leftarrow> gets jiffies;
     mod_timer (now + HZ div 100) }"

text \<open>The table of \<open>buttons.c\<close>, with the contents of the one of \<open>third_drv.c\<close>.\<close>

definition all_pins_desc :: "pin_desc list" where
  "all_pins_desc = [\<lparr>pd_pin = S3C2410_GPF0, pd_key_val = 0x01\<rparr>,
     \<lparr>pd_pin = S3C2410_GPF2, pd_key_val = 0x02\<rparr>,
     \<lparr>pd_pin = S3C2410_GPG3, pd_key_val = 0x03\<rparr>]"

lemma all_pins_same [simp]: "all_pins_desc = pins_desc"
  by (simp add: all_pins_desc_def pins_desc_def)

definition all_timer_function :: "(gpio_pin \<Rightarrow> u32) \<Rightarrow> (all_state, unit) state" where
  "all_timer_function getpin = do {
     pd \<leftarrow> gets irq_pd;
     (case pd of
        None \<Rightarrow> panic NullDeref
      | Some d \<Rightarrow>
          (let pindesc = all_pins_desc ! d; pinval = getpin (pd_pin pindesc) in
           (if pinval \<noteq> 0 then upd (\<lambda>s. s\<lparr>all_key_val := ucast (0x80 OR pd_key_val pindesc)\<rparr>)
            else upd (\<lambda>s. s\<lparr>all_key_val := ucast (pd_key_val pindesc)\<rparr>))));
     upd (\<lambda>s. s\<lparr>ev_timer := 1\<rparr>);
     call (KWait WakeUp) }"

text \<open>\<open>None\<close> as the result of \<open>open\<close> or \<open>read\<close> is a process that still sleeps.\<close>

definition all_open_irqs :: "kenv \<Rightarrow> ptr \<Rightarrow> (all_state, nat) state" where
  "all_open_irqs E pins = do {
     upd (\<lambda>s. s\<lparr>button_lock := button_lock s - 1\<rparr>);
     request_irq E IRQ_EINT0 (pin_addr pins 0);
     request_irq E IRQ_EINT2 (pin_addr pins 1);
     request_irq E IRQ_EINT11 (pin_addr pins 2);
     State_Monad.return 0 }"

definition buttons_open :: "kenv \<Rightarrow> ptr \<Rightarrow> bool \<Rightarrow> all_state \<Rightarrow> (c_int \<times> all_state) option" where
  "buttons_open E pins nonblock s =
     (if nonblock
      then (if button_lock s = 0 then Some (Inl EBUSY, s)
            else Some (apfst Inr (run_state (all_open_irqs E pins) s)))
      else (if button_lock s = 0 then None
            else Some (apfst Inr (run_state (all_open_irqs E pins) s))))"

definition buttons_read ::
  "bool \<Rightarrow> bool \<Rightarrow> nat \<Rightarrow> all_state \<Rightarrow> ((c_int \<times> u8 list) \<times> all_state) option" where
  "buttons_read nonblock interrupted sz s =
     (if sz \<noteq> 1 then Some ((Inl EINVAL, []), s)
      else if nonblock \<and> ev_timer s = 0 then Some ((Inl EAGAIN, []), s)
      else if \<not> nonblock \<and> ev_timer s = 0 \<and> \<not> interrupted then None
      else Some ((Inr 1, [all_key_val s]), s\<lparr>ev_timer := 0\<rparr>))"

definition buttons_release :: "ptr \<Rightarrow> (all_state, nat) state" where
  "buttons_release pins = do {
     call (KIrq (FreeIrq IRQ_EINT0 (pin_addr pins 0)));
     call (KIrq (FreeIrq IRQ_EINT2 (pin_addr pins 1)));
     call (KIrq (FreeIrq IRQ_EINT11 (pin_addr pins 2)));
     upd (\<lambda>s. s\<lparr>button_lock := button_lock s + 1\<rparr>);
     State_Monad.return 0 }"

definition all_buttons_init :: "kenv \<Rightarrow> (all_state, nat) state" where
  "all_buttons_init E = do {
     add_static_timer;
     major \<leftarrow> register_chrdev E ''buttons_all'';
     upd (\<lambda>s. s\<lparr>all_major := major\<rparr>);
     cls \<leftarrow> class_create E ''buttons_all'';
     upd (\<lambda>s. s\<lparr>button_cls := cls\<rparr>);
     class_device_create E cls major ''buttons'';
     State_Monad.return 0 }"

definition all_buttons_exit :: "(all_state, unit) state" where
  "all_buttons_exit = do {
     s \<leftarrow> State_Monad.get;
     call (KChr (UnregisterChrdev (all_major s)));
     call (KChr (ClassDeviceDestroy (button_cls s) (all_major s)));
     call (KChr (ClassDestroy (button_cls s)));
     del_timer }"

definition all_initial :: "nat \<Rightarrow> all_state" where
  "all_initial now = \<lparr>ktrace = [], kmem = (\<lambda>_. 0), kfault = None, jiffies = now, timer = None,
     irq_pd = None, button_lock = 1, ev_timer = 0, all_key_val = 0, all_major = 0,
     button_cls = NULL\<rparr>"

declare all_buttons_irq_def [driver_defs] all_timer_function_def [driver_defs]
  all_open_irqs_def [driver_defs] buttons_release_def [driver_defs]
  all_buttons_init_def [driver_defs] all_buttons_exit_def [driver_defs]

section \<open>buttons_inp.c\<close>

record inp_pin_desc =
  ip_irq :: irq_line
  ip_name :: string
  ip_pin :: gpio_pin
  ip_key_val :: key

definition inp_pins_desc :: "inp_pin_desc list" where
  "inp_pins_desc =
     [\<lparr>ip_irq = IRQ_EINT0, ip_name = ''S1'', ip_pin = S3C2410_GPF0, ip_key_val = KEY_L\<rparr>,
      \<lparr>ip_irq = IRQ_EINT2, ip_name = ''S2'', ip_pin = S3C2410_GPF2, ip_key_val = KEY_S\<rparr>,
      \<lparr>ip_irq = IRQ_EINT11, ip_name = ''S3'', ip_pin = S3C2410_GPG3, ip_key_val = KEY_ENTER\<rparr>]"

record inp_state = timer_state +
  buttons_dev :: ptr

definition inp_buttons_irq :: "nat \<Rightarrow> nat \<Rightarrow> (inp_state, unit) state" where
  "inp_buttons_irq HZ dev_id = do {
     upd (\<lambda>s. s\<lparr>irq_pd := Some dev_id\<rparr>);
     now \<leftarrow> gets jiffies;
     mod_timer (now + HZ div 100) }"

definition inp_timer_function :: "(gpio_pin \<Rightarrow> u32) \<Rightarrow> (inp_state, unit) state" where
  "inp_timer_function getpin = do {
     pd \<leftarrow> gets irq_pd;
     (case pd of
        None \<Rightarrow> State_Monad.return ()
      | Some d \<Rightarrow>
          (let pindesc = inp_pins_desc ! d; pinval = getpin (ip_pin pindesc) in
           (if pinval \<noteq> 0 then do {
              call (KInput (Report (KeyEvent (ip_key_val pindesc) 0)));
              call (KInput (Report SynReport)) }
            else do {
              call (KInput (Report (KeyEvent (ip_key_val pindesc) 1)));
              call (KInput (Report SynReport)) }))) }"

text \<open>The address of an entry of this table, 16 bytes each.\<close>

definition inp_pin_addr :: "ptr \<Rightarrow> nat \<Rightarrow> ptr" where
  "inp_pin_addr pins i = pins + of_nat (16 * i)"

definition inp_buttons_init :: "kenv \<Rightarrow> ptr \<Rightarrow> (inp_state, nat) state" where
  "inp_buttons_init E pins = do {
     dev \<leftarrow> input_allocate_device E;
     upd (\<lambda>s. s\<lparr>buttons_dev := dev\<rparr>);
     deref dev;
     call (KInput (SetEvbit EV_KEY));
     call (KInput (SetEvbit EV_REP));
     call (KInput (SetKeybit KEY_L));
     call (KInput (SetKeybit KEY_S));
     call (KInput (SetKeybit KEY_ENTER));
     call (KInput (InputRegister dev));
     add_static_timer;
     for_each (\<lambda>i. do {
         request_irq E (ip_irq (inp_pins_desc ! i)) (inp_pin_addr pins i);
         State_Monad.return () }) [0..<3];
     State_Monad.return 0 }"

definition inp_buttons_exit :: "ptr \<Rightarrow> (inp_state, unit) state" where
  "inp_buttons_exit pins = do {
     for_each (\<lambda>i. call (KIrq (FreeIrq (ip_irq (inp_pins_desc ! i)) (inp_pin_addr pins i)))) [0..<3];
     del_timer;
     dev \<leftarrow> gets buttons_dev;
     call (KInput (InputUnregister dev));
     call (KInput (InputFree dev)) }"

definition inp_initial :: "nat \<Rightarrow> inp_state" where
  "inp_initial now = \<lparr>ktrace = [], kmem = (\<lambda>_. 0), kfault = None, jiffies = now, timer = None,
     irq_pd = None, buttons_dev = NULL\<rparr>"

declare inp_buttons_irq_def [driver_defs] inp_timer_function_def [driver_defs]
  inp_buttons_init_def [driver_defs] inp_buttons_exit_def [driver_defs]

section \<open>Debouncing\<close>

text \<open>
  \<open>irq d\<close> is the interrupt of button \<open>d\<close>, \<open>expire g\<close> the timer firing while the pin levels are \<open>g\<close>,
  \<open>tick\<close> one advance of \<open>jiffies\<close>. \<open>count\<close> is the number of reports made, \<open>latest\<close> the last one as
  button and level, \<open>src\<close> the noted button, \<open>delay\<close> the debounce time \<open>HZ/100\<close>.
\<close>

locale debounced =
  fixes irq :: "nat \<Rightarrow> 's \<Rightarrow> 's" and expire :: "(gpio_pin \<Rightarrow> u32) \<Rightarrow> 's \<Rightarrow> 's" and tick :: "'s \<Rightarrow> 's"
    and expiry :: "'s \<Rightarrow> nat option" and now :: "'s \<Rightarrow> nat" and src :: "'s \<Rightarrow> nat option"
    and count :: "'s \<Rightarrow> nat" and latest :: "'s \<Rightarrow> nat \<times> bool"
    and delay :: nat and ok :: "'s \<Rightarrow> bool"
  assumes irq_spec: "ok s \<Longrightarrow> d < 3 \<Longrightarrow> ok (irq d s) \<and> expiry (irq d s) = Some (now s + delay) \<and>
      now (irq d s) = now s \<and> src (irq d s) = Some d \<and> count (irq d s) = count s"
    and tick_spec: "ok s \<Longrightarrow> ok (tick s) \<and> now (tick s) = Suc (now s) \<and> expiry (tick s) = expiry s \<and>
      src (tick s) = src s \<and> count (tick s) = count s \<and> latest (tick s) = latest s"
    and expire_spec: "ok s \<Longrightarrow> src s = Some d \<Longrightarrow> d < 3 \<Longrightarrow> ok (expire g s) \<and> expiry (expire g s) = None \<and>
      now (expire g s) = now s \<and> src (expire g s) = src s \<and> count (expire g s) = Suc (count s) \<and>
      latest (expire g s) = (d, g (pd_pin (pins_desc ! d)) \<noteq> 0)"

text \<open>
  Time passes: a tick, then the timer if it is due. \<open>wait_ticks\<close> is \<open>n\<close> ticks at the pin levels \<open>g\<close>,
  \<open>bounces\<close> a sequence of interrupts each followed by some ticks.
\<close>

definition time_step ::
  "('s \<Rightarrow> 's) \<Rightarrow> ('s \<Rightarrow> nat option) \<Rightarrow> ('s \<Rightarrow> nat) \<Rightarrow> ('s \<Rightarrow> 's) \<Rightarrow> 's \<Rightarrow> 's" where
  "time_step adv expiry now expire s =
     (let s' = adv s in case expiry s' of None \<Rightarrow> s' | Some e \<Rightarrow> if e \<le> now s' then expire s' else s')"

fun bounces :: "(nat \<Rightarrow> 's \<Rightarrow> 's) \<Rightarrow> ('s \<Rightarrow> 's) \<Rightarrow> (nat \<times> nat) list \<Rightarrow> 's \<Rightarrow> 's" where
  "bounces irq step [] s = s"
| "bounces irq step ((d, n) # bs) s = bounces irq step bs ((step ^^ n) (irq d s))"

context debounced begin

lemma quiet_ticks:
  assumes "ok s" and "expiry s = Some e" and "now s + n < e"
  shows "let s' = (time_step tick expiry now (expire g) ^^ n) s in
    ok s' \<and> expiry s' = Some e \<and> now s' = now s + n \<and> src s' = src s \<and> count s' = count s"
  using assms(3)
proof (induction n)
  case (Suc n)
  then show ?case
    using tick_spec assms(2) by (simp add: time_step_def Let_def)
qed (simp add: assms)

lemma idle_ticks:
  assumes "ok s" and "expiry s = None"
  shows "let s' = (time_step tick expiry now (expire g) ^^ n) s in
    ok s' \<and> expiry s' = None \<and> src s' = src s \<and> count s' = count s \<and> latest s' = latest s"
  by (induction n) (use assms tick_spec in \<open>simp_all add: time_step_def Let_def\<close>)

lemma bounces_quiet:
  assumes "ok s" and "bs \<noteq> []" and "\<forall>(d, n) \<in> set bs. d < 3 \<and> n < delay"
  shows "let s' = bounces irq (time_step tick expiry now (expire g)) bs s in
    ok s' \<and> src s' = Some (fst (last bs)) \<and> count s' = count s \<and>
    expiry s' = Some (now s' + delay - snd (last bs))"
  using assms
proof (induction bs arbitrary: s)
  case (Cons b bs)
  obtain d n where b: "b = (d, n)" by fastforce
  let ?step = "time_step tick expiry now (expire g)"
  let ?s = "(?step ^^ n) (irq d s)"
  from Cons.prems b have dn: "d < 3" "n < delay" by auto
  note irq = irq_spec [OF Cons.prems(1) dn(1)]
  have s: "ok ?s \<and> expiry ?s = Some (now s + delay) \<and> now ?s = now s + n \<and> src ?s = Some d \<and>
    count ?s = count s"
    using quiet_ticks [of "irq d s" "now s + delay" n g] irq dn(2) by (simp add: Let_def)
  show ?case
  proof (cases "bs = []")
    case True
    with s b show ?thesis by (simp add: Let_def)
  next
    case False
    with Cons.IH [of ?s] s b Cons.prems(3) show ?thesis by (simp add: Let_def)
  qed
qed simp

text \<open>A burst of interrupts with short gaps is reported once, as the level after it has settled.\<close>

lemma one_report:
  assumes "ok s" and "bs \<noteq> []" and "\<forall>(d, n) \<in> set bs. d < 3 \<and> n < delay" and "delay \<le> n"
  shows "let s1 = bounces irq (time_step tick expiry now (expire g)) bs s;
      s2 = (time_step tick expiry now (expire h) ^^ n) s1;
      d = fst (last bs) in
    count s1 = count s \<and> count s2 = Suc (count s) \<and>
    latest s2 = (d, h (pd_pin (pins_desc ! d)) \<noteq> 0) \<and> expiry s2 = None"
proof -
  let ?step = "time_step tick expiry now (expire h)"
  define s1 where "s1 = bounces irq (time_step tick expiry now (expire g)) bs s"
  define d where "d = fst (last bs)"
  define k where "k = delay - snd (last bs)"
  from bounces_quiet [OF assms(1-3), of g] have s1:
    "ok s1" "src s1 = Some d" "count s1 = count s"
    "expiry s1 = Some (now s1 + delay - snd (last bs))"
    by (simp_all add: Let_def s1_def d_def)
  have l: "last bs \<in> set bs" using assms(2) by simp
  with assms(3) have d: "d < 3" and k: "0 < k" "k \<le> n"
    using assms(4) by (auto simp: d_def k_def)
  with s1(4) have e: "expiry s1 = Some (now s1 + k)" using l assms(3) by (auto simp: k_def)
  define s' where "s' = (?step ^^ (k - 1)) s1"
  have s': "ok s'" "src s' = Some d" "count s' = count s" "expiry s' = Some (now s1 + k)"
    "now s' = now s1 + (k - 1)"
    using quiet_ticks [OF s1(1) e, of "k - 1" h] k s1 by (simp_all add: s'_def Let_def)
  note t = tick_spec [OF s'(1)]
  have step: "?step s' = expire h (tick s')"
    using t s' k by (simp add: time_step_def Let_def)
  have x: "ok (tick s')" "src (tick s') = Some d" using t s' by auto
  note ex = expire_spec [OF x d, of h]
  have "(?step ^^ n) s1 = (?step ^^ (n - k)) (?step s')"
  proof -
    have "n = (n - k) + Suc (k - 1)" using k by simp
    then have "(?step ^^ n) s1 = (?step ^^ ((n - k) + Suc (k - 1))) s1" by simp
    also have "\<dots> = (?step ^^ (n - k)) (?step s')"
      unfolding funpow_add s'_def by (simp only: comp_def funpow.simps)
    finally show ?thesis .
  qed
  with idle_ticks [of "?step s'" "n - k" h] ex step t s' show ?thesis
    by (simp add: Let_def s1_def [symmetric] d_def [symmetric] s1(3))
qed

end

definition all_expire :: "(gpio_pin \<Rightarrow> u32) \<Rightarrow> all_state \<Rightarrow> all_state" where
  "all_expire g s = snd (run_state (all_timer_function g) (s\<lparr>timer := None\<rparr>))"

definition inp_expire :: "(gpio_pin \<Rightarrow> u32) \<Rightarrow> inp_state \<Rightarrow> inp_state" where
  "inp_expire g s = snd (run_state (inp_timer_function g) (s\<lparr>timer := None\<rparr>))"

fun key_reports :: "kcall list \<Rightarrow> (key \<times> int) list" where
  "key_reports [] = []"
| "key_reports (KInput (Report (KeyEvent k v)) # t) = (k, v) # key_reports t"
| "key_reports (c # t) = key_reports t"

lemma key_reports_append [simp]: "key_reports (s @ t) = key_reports s @ key_reports t"
  by (induction s rule: key_reports.induct) auto

fun button_of :: "key \<Rightarrow> nat" where
  "button_of KEY_L = 0"
| "button_of KEY_S = 1"
| "button_of KEY_ENTER = 2"
| "button_of BTN_TOUCH = 3"

definition wakeups :: "kcall list \<Rightarrow> nat" where
  "wakeups t = length (filter (\<lambda>c. c = KWait WakeUp) t)"

lemma timer_run:
  assumes "kfault s = None" and "irq_pd s = Some d" and "d < 3"
  shows "run_state (all_timer_function g) s = ((), s\<lparr>all_key_val := key_code g d, ev_timer := 1,
    ktrace := ktrace s @ [KWait WakeUp]\<rparr>)"
  using assms(1,2) pins_cases [OF assms(3)]
  by (auto simp: driver_defs key_code_def pins_desc_def Let_def)

lemma inp_timer_run:
  assumes "kfault s = None" and "irq_pd s = Some d" and "d < 3"
  shows "run_state (inp_timer_function g) s = ((), s\<lparr>ktrace := ktrace s @
    [KInput (Report (KeyEvent (ip_key_val (inp_pins_desc ! d))
       (if g (pd_pin (pins_desc ! d)) \<noteq> 0 then 0 else 1))), KInput (Report SynReport)]\<rparr>)"
  using assms(1,2) pins_cases [OF assms(3)]
  by (auto simp: driver_defs inp_pins_desc_def pins_desc_def Let_def)

interpretation all: debounced
  "\<lambda>d s. snd (run_state (all_buttons_irq HZ d) s)" all_expire tick timer jiffies irq_pd
  "\<lambda>s. wakeups (ktrace s)" "\<lambda>s. decode_key (all_key_val s)" "HZ div 100" "\<lambda>s. kfault s = None"
  by unfold_locales
    (auto simp: all_buttons_irq_def mod_timer_def tick_def all_expire_def timer_run wakeups_def
      decode_key_code)

interpretation inp: debounced
  "\<lambda>d s. snd (run_state (inp_buttons_irq HZ d) s)" inp_expire tick timer jiffies irq_pd
  "\<lambda>s. length (key_reports (ktrace s))"
  "\<lambda>s. (button_of (fst (last (key_reports (ktrace s)))), snd (last (key_reports (ktrace s))) = 0)"
  "HZ div 100" "\<lambda>s. kfault s = None"
proof (unfold_locales, goal_cases)
  case (3 s d g)
  then show ?case
    using pins_cases [OF 3(3)] by (auto simp: inp_expire_def inp_timer_run inp_pins_desc_def)
qed (auto simp: inp_buttons_irq_def mod_timer_def tick_def)

section \<open>Exclusive use\<close>

text \<open>
  \<open>openers\<close> is ghost state: the files that have the device open. An interrupt can only arrive while
  its handler is registered, that is while some file is open; nothing runs after a fault.
\<close>

record asys =
  adrv :: all_state
  openers :: "nat set"

definition asys_init :: "kenv \<Rightarrow> nat \<Rightarrow> asys" where
  "asys_init E now = \<lparr>adrv = snd (run_state (all_buttons_init E) (all_initial now)), openers = {}\<rparr>"

inductive all_step :: "kenv \<Rightarrow> ptr \<Rightarrow> nat \<Rightarrow> asys \<Rightarrow> asys \<Rightarrow> bool" for E pins HZ where
  a_open: "kfault (adrv s) = None \<Longrightarrow> p \<notin> openers s \<Longrightarrow>
    buttons_open E pins nonblock (adrv s) = Some (Inr r, a) \<Longrightarrow>
    all_step E pins HZ s (s\<lparr>adrv := a, openers := insert p (openers s)\<rparr>)"
| a_refused: "kfault (adrv s) = None \<Longrightarrow> buttons_open E pins nonblock (adrv s) = Some (Inl e, a) \<Longrightarrow>
    all_step E pins HZ s (s\<lparr>adrv := a\<rparr>)"
| a_read: "kfault (adrv s) = None \<Longrightarrow> p \<in> openers s \<Longrightarrow>
    buttons_read nonblock interrupted n (adrv s) = Some (res, a) \<Longrightarrow>
    all_step E pins HZ s (s\<lparr>adrv := a\<rparr>)"
| a_release: "kfault (adrv s) = None \<Longrightarrow> p \<in> openers s \<Longrightarrow>
    run_state (buttons_release pins) (adrv s) = (r, a) \<Longrightarrow>
    all_step E pins HZ s (s\<lparr>adrv := a, openers := openers s - {p}\<rparr>)"
| a_irq: "kfault (adrv s) = None \<Longrightarrow> openers s \<noteq> {} \<Longrightarrow> d < 3 \<Longrightarrow>
    run_state (all_buttons_irq HZ d) (adrv s) = (u, a) \<Longrightarrow>
    all_step E pins HZ s (s\<lparr>adrv := a\<rparr>)"
| a_tick: "kfault (adrv s) = None \<Longrightarrow> all_step E pins HZ s (s\<lparr>adrv := tick (adrv s)\<rparr>)"
| a_expire: "kfault (adrv s) = None \<Longrightarrow> timer (adrv s) = Some e \<Longrightarrow> e \<le> jiffies (adrv s) \<Longrightarrow>
    all_step E pins HZ s (s\<lparr>adrv := all_expire g (adrv s)\<rparr>)"

inductive all_reachable :: "kenv \<Rightarrow> ptr \<Rightarrow> nat \<Rightarrow> nat \<Rightarrow> asys \<Rightarrow> bool" for E pins HZ now where
  r_init: "all_reachable E pins HZ now (asys_init E now)"
| r_step: "all_reachable E pins HZ now s \<Longrightarrow> all_step E pins HZ s t \<Longrightarrow>
    all_reachable E pins HZ now t"

definition excl_inv :: "asys \<Rightarrow> bool" where
  "excl_inv s \<longleftrightarrow> finite (openers s) \<and> card (openers s) + button_lock (adrv s) = 1"

lemma expire_lock: "button_lock (all_expire g s) = button_lock s"
proof (cases "irq_pd s")
  case None
  then show ?thesis by (cases "kfault s") (simp_all add: all_expire_def driver_defs)
next
  case (Some d)
  then show ?thesis
    by (cases "kfault s") (simp_all add: all_expire_def driver_defs Let_def)
qed

lemma excl_inv_init: "excl_inv (asys_init E now)"
  by (simp add: excl_inv_def asys_init_def driver_defs all_initial_def)

lemma open_lock:
  assumes "buttons_open E pins nonblock s = Some (Inr r, a)" and "kfault s = None"
  shows "button_lock s \<noteq> 0 \<and> button_lock a = button_lock s - 1"
  using assms by (auto simp: buttons_open_def driver_defs split: if_splits)

lemma open_irqs_result: "\<exists>a. run_state (all_open_irqs E pins) s = (0, a)"
  by (cases "kfault s") (simp_all add: driver_defs ask_def)

lemma open_refused: "buttons_open E pins nonblock s = Some (Inl e, a) \<Longrightarrow> a = s"
  by (auto simp: buttons_open_def apfst_def map_prod_def split: if_splits prod.splits)

lemma read_lock:
  "buttons_read nonblock interrupted n s = Some (res, a) \<Longrightarrow> button_lock a = button_lock s"
  by (auto simp: buttons_read_def split: if_splits)

lemma excl_inv_step: "all_step E pins HZ s t \<Longrightarrow> excl_inv s \<Longrightarrow> excl_inv t"
proof (induction rule: all_step.induct)
  case (a_open s p nonblock r a)
  note lock = open_lock [OF a_open(3,1)]
  from a_open have f: "finite (openers s)" and c: "card (openers s) + button_lock (adrv s) = 1"
    by (simp_all add: excl_inv_def)
  from c lock have "card (openers s) = 0" by linarith
  with f have "openers s = {}" by simp
  with lock a_open show ?case by (simp add: excl_inv_def)
next
  case (a_refused s nonblock e a)
  with open_refused [OF a_refused(2)] show ?case by (simp add: excl_inv_def)
next
  case (a_read s p nonblock interrupted n res a)
  with read_lock [OF a_read(3)] show ?case by (simp add: excl_inv_def)
next
  case (a_release s p r a)
  then have "openers s \<noteq> {}" and "card (openers s) \<le> 1" by (auto simp: excl_inv_def)
  with a_release have "openers s = {p}"
    by (metis card_le_Suc0_iff_eq excl_inv_def One_nat_def insertI1 is_singletonI' is_singleton_def
        singletonD)
  with a_release show ?case by (auto simp: excl_inv_def driver_defs)
next
  case (a_irq s d u a)
  then show ?case by (auto simp: excl_inv_def driver_defs)
qed (simp_all add: excl_inv_def tick_def expire_lock)

lemma reachable_excl: "all_reachable E pins HZ now s \<Longrightarrow> excl_inv s"
  by (induction rule: all_reachable.induct) (auto intro: excl_inv_init excl_inv_step)

lemma all_init_run:
  "snd (run_state (all_buttons_init E) (all_initial now)) = (all_initial now)
     \<lparr>timer := Some 0, all_major := e_register_chrdev E ''buttons_all'',
      button_cls := e_class_create E ''buttons_all'',
      ktrace := [KTimer InitTimer, KTimer AddTimer,
        KChr (RegisterChrdev ''buttons_all'' (e_register_chrdev E ''buttons_all'')),
        KChr (ClassCreate ''buttons_all'' (e_class_create E ''buttons_all'')),
        KChr (ClassDeviceCreate (e_class_create E ''buttons_all'')
          (e_register_chrdev E ''buttons_all'') ''buttons''
          (e_class_device_create E (e_class_create E ''buttons_all'')
            (e_register_chrdev E ''buttons_all'') ''buttons''))]\<rparr>"
  by (simp add: driver_defs all_initial_def)

section \<open>Properties\<close>

text \<open>
  C2: \<open>button_lock\<close> gives exclusive use: in every reachable state of the character driver at most one
  file has the device open, and while one has, a non-blocking \<open>open\<close> fails with \<open>EBUSY\<close> without
  changing anything and a blocking \<open>open\<close> sleeps; while none has, both succeed.
\<close>

theorem buttons_open_exclusive:
  assumes "all_reachable E pins HZ now s"
  shows "(\<forall>p \<in> openers s. \<forall>q \<in> openers s. p = q) \<and>
    (openers s \<noteq> {} \<longrightarrow> buttons_open E pins True (adrv s) = Some (Inl EBUSY, adrv s) \<and>
       buttons_open E pins False (adrv s) = None) \<and>
    (openers s = {} \<longrightarrow> (\<exists>a. buttons_open E pins nonblock (adrv s) = Some (Inr 0, a)))"
proof -
  from reachable_excl [OF assms] have fin: "finite (openers s)"
    and c: "card (openers s) + button_lock (adrv s) = 1" by (auto simp: excl_inv_def)
  have "\<forall>p \<in> openers s. \<forall>q \<in> openers s. p = q"
    using card_le_Suc0_iff_eq [OF fin] c by auto
  moreover have "openers s \<noteq> {} \<longrightarrow> button_lock (adrv s) = 0"
    using c fin by (metis Suc_eq_plus1 add_is_1 card_0_eq)
  ultimately show ?thesis
    using c open_irqs_result [of E pins "adrv s"] by (auto simp: buttons_open_def)
qed

theorem buttons_open_exclusive_witness:
  "\<exists>s. all_reachable sample_env 0 100 0 s \<and> openers s = {7} \<and>
     buttons_open sample_env 0 True (adrv s) = Some (Inl EBUSY, adrv s)"
proof -
  let ?a = "adrv (asys_init sample_env 0)"
  define a where "a = snd (run_state (all_open_irqs sample_env 0) ?a)"
  have k: "kfault ?a = None" "button_lock ?a = 1"
    by (simp_all add: asys_init_def all_init_run) (simp_all add: all_initial_def)
  have "buttons_open sample_env 0 True ?a = Some (Inr 0, a)"
    using k by (simp add: buttons_open_def a_def driver_defs)
  from all_step.a_open [OF k(1) _ this, of 7 100]
  have "all_reachable sample_env 0 100 0 ((asys_init sample_env 0)\<lparr>adrv := a, openers := {7}\<rparr>)"
    by (intro r_step [OF r_init]) (simp add: asys_init_def)
  with buttons_open_exclusive [OF this] show ?thesis by fastforce
qed

text \<open>
  C25: Debouncing, for both timer drivers: if the contacts bounce (any sequence of button interrupts,
  each followed by fewer than \<open>HZ/100\<close> ticks) and the lines then rest for at least \<open>HZ/100\<close> ticks, the
  driver reports exactly once, after the burst, for the button of the last interrupt and with the
  level its pin has after settling. For the character driver the code it then holds decodes to that
  button and level.
\<close>

theorem timer_drivers_debounce:
  assumes "bs \<noteq> []" and "\<forall>(d, n) \<in> set bs. d < 3 \<and> n < HZ div 100" and "HZ div 100 \<le> n"
    and "kfault s = None" and "kfault r = None"
  shows "(let s1 = bounces (\<lambda>d s. snd (run_state (all_buttons_irq HZ d) s))
        (time_step tick timer jiffies (all_expire g)) bs s;
      s2 = (time_step tick timer jiffies (all_expire h) ^^ n) s1; d = fst (last bs) in
    wakeups (ktrace s1) = wakeups (ktrace s) \<and> wakeups (ktrace s2) = Suc (wakeups (ktrace s)) \<and>
    decode_key (all_key_val s2) = (d, h (pd_pin (pins_desc ! d)) \<noteq> 0)) \<and>
   (let r1 = bounces (\<lambda>d s. snd (run_state (inp_buttons_irq HZ d) s))
        (time_step tick timer jiffies (inp_expire g)) bs r;
      r2 = (time_step tick timer jiffies (inp_expire h) ^^ n) r1; d = fst (last bs) in
    length (key_reports (ktrace r1)) = length (key_reports (ktrace r)) \<and>
    length (key_reports (ktrace r2)) = Suc (length (key_reports (ktrace r))) \<and>
    button_of (fst (last (key_reports (ktrace r2)))) = d \<and>
    (snd (last (key_reports (ktrace r2))) = 0 \<longleftrightarrow> h (pd_pin (pins_desc ! d)) \<noteq> 0))"
  using all.one_report [OF assms(4,1,2,3), of g h] inp.one_report [OF assms(5,1,2,3), of g h]
  by (auto simp: Let_def)

theorem timer_drivers_debounce_witness:
  "let s1 = bounces (\<lambda>d s. snd (run_state (all_buttons_irq 200 d) s))
        (time_step tick timer jiffies (all_expire (\<lambda>_. 1))) [(2, 1), (2, 0)] (all_initial 0);
      s2 = (time_step tick timer jiffies (all_expire (\<lambda>_. 0)) ^^ 2) s1 in
    wakeups (ktrace s2) = 1 \<and> decode_key (all_key_val s2) = (2, False)"
proof -
  have "[(2, 1), (2, 0)] \<noteq> ([] :: (nat \<times> nat) list)"
    "\<forall>(d, n) \<in> set [(2 :: nat, 1 :: nat), (2, 0)]. d < 3 \<and> n < 200 div 100"
    "200 div 100 \<le> (2 :: nat)" "kfault (all_initial 0) = None" "kfault (inp_initial 0) = None"
    by (simp_all add: all_initial_def inp_initial_def)
  from timer_drivers_debounce [OF this, of "\<lambda>_. 1" "\<lambda>_. 0"]
  show ?thesis by (simp add: Let_def wakeups_def all_initial_def)
qed

text \<open>
  Both timer drivers arm their static timer for time 0 when they are loaded. If it fires before the
  first button interrupt, \<open>buttons_timer_function\<close> of the character driver dereferences the NULL
  \<open>irq_pd\<close>; the input driver's has the check for it and returns without reporting anything. (The
  input driver itself faults only when the kernel had no input device for it, which it does not check.)
\<close>

theorem initial_timer_expiry:
  "timer (snd (run_state (all_buttons_init E) (all_initial now))) = Some 0 \<and>
   exec (do { all_buttons_init E; all_timer_function g }) (all_initial now) = Inl NullDeref \<and>
   (case exec (do { inp_buttons_init E pins; inp_timer_function g }) (inp_initial now) of
      Inl f \<Rightarrow> f = NullDeref \<and> e_input_allocate_device E = NULL
    | Inr (_, s) \<Rightarrow> timer s = Some 0 \<and> key_reports (ktrace s) = [])"
  by (simp add: driver_defs all_initial_def inp_initial_def exec_def upt_rec)

text \<open>
  In the character driver a non-blocking read fails with \<open>EAGAIN\<close> exactly while no key event is
  pending; once the timer function has run for button \<open>d\<close> at levels \<open>g\<close>, the next one-byte read of
  either kind returns the key code of that button and level and consumes the event, so that a second
  non-blocking read fails with \<open>EAGAIN\<close> and a second blocking read sleeps.
\<close>

theorem timer_then_read:
  assumes "kfault s = None" and "irq_pd s = Some d" and "d < 3"
  shows "\<exists>s'. buttons_read nonblock i 1 (all_expire g s) = Some ((Inr 1, [key_code g d]), s') \<and>
    buttons_read True i 1 s' = Some ((Inl EAGAIN, []), s') \<and> buttons_read False False 1 s' = None \<and>
    irq_pd s' = Some d \<and> kfault s' = None"
  using assms by (simp add: all_expire_def timer_run buttons_read_def)

theorem timer_then_read_witness:
  "\<exists>s'. buttons_read True False 1 (all_expire (\<lambda>_. 1) ((all_initial 0)\<lparr>irq_pd := Some 1\<rparr>)) =
     Some ((Inr 1, [0x82]), s')"
proof -
  have "kfault ((all_initial 0)\<lparr>irq_pd := Some 1\<rparr>) = None"
    "irq_pd ((all_initial 0)\<lparr>irq_pd := Some 1\<rparr>) = Some 1" "(1 :: nat) < 3"
    by (simp_all add: all_initial_def)
  from timer_then_read [OF this, of True False "\<lambda>_. 1"] show ?thesis by (auto simp: key_code_def)
qed

text \<open>
  Loading, opening, closing and unloading \<open>buttons.c\<close> is balanced; unloading \<open>buttons_inp.c\<close> frees the
  input device after \<open>input_unregister_device\<close> took it over.
\<close>

lemma buttons_balanced:
  assumes "\<not> e_register_chrdev E ''buttons_all'' < 0" and "\<forall>i. e_request_irq E i = 0"
  shows "no_leak (ktrace (snd (run_state (do { all_buttons_init E; all_open_irqs E pins;
    buttons_release pins; all_buttons_exit }) (all_initial now))))"
  using assms by (simp add: driver_defs all_initial_def no_leak_def)

lemma inp_exit_frees_twice:
  "let t = snd (run_state (do { inp_buttons_init sample_env 0x1000; inp_buttons_exit 0x1000 })
     (inp_initial 0))
   in kfault t = None \<and> account [] (butlast (ktrace t)) = Some [] \<and> account [] (ktrace t) = None"
  by (simp add: driver_defs inp_initial_def sample_env_def inp_pins_desc_def inp_pin_addr_def
      upt_rec Let_def)

end
