(* ===== verification/Fileops.thy ===== *)
theory Fileops
  imports Led Buttons_Timer
begin

text \<open>
  The character drivers as files: the \<open>file_operations\<close> tables through which the kernel reaches them,
  and the system calls of the test programs. The kernel's part (from \<open>read(2)\<close> to \<open>fops->read\<close>) is not in
  the repository. It is a parameter, the record \<open>sys\<close> of system calls, with the documented behaviour as the
  locale \<open>device_node\<close>: a call on the node's file reaches the method of the table, an error becomes -1,
  a missing method is the documented default. \<open>node_sys\<close> is an instance.
\<close>

section \<open>Outcomes\<close>

text \<open>A call returns, sleeps (and has not changed anything yet), or ends in a kernel oops.\<close>

datatype ('r, 's) outcome = Done 'r 's | Sleeps | Oops fault

fun of_exec :: "fault + 'r \<times> 's \<Rightarrow> ('r, 's) outcome" where
  "of_exec (Inl f) = Oops f"
| "of_exec (Inr (r, s)) = Done r s"

fun of_sleep :: "('r \<times> 's) option \<Rightarrow> ('r, 's) outcome" where
  "of_sleep None = Sleeps"
| "of_sleep (Some (r, s)) = Done r s"

fun and_then :: "('r, 's) outcome \<Rightarrow> ('r \<Rightarrow> 's \<Rightarrow> ('q, 's) outcome) \<Rightarrow> ('q, 's) outcome" where
  "and_then (Done r s) k = k r s"
| "and_then Sleeps k = Sleeps"
| "and_then (Oops f) k = Oops f"

text \<open>What user space sees of a kernel result.\<close>

definition user_result :: "c_int \<Rightarrow> int" where
  "user_result r = (case r of Inl e \<Rightarrow> -1 | Inr n \<Rightarrow> int n)"

lemma user_result_simps [simp]: "user_result (Inl e) = -1" "user_result (Inr n) = int n"
  by (simp_all add: user_result_def)

section \<open>The tables\<close>

text \<open>
  \<open>fop_open nonblock\<close>, \<open>fop_read nonblock interrupted size\<close>, \<open>fop_write copy_from_user size\<close>; \<open>None\<close> is a
  member that the initialiser leaves NULL.
\<close>

record 's file_ops =
  fop_open :: "(bool \<Rightarrow> 's \<Rightarrow> (c_int, 's) outcome) option"
  fop_read :: "(bool \<Rightarrow> bool \<Rightarrow> nat \<Rightarrow> 's \<Rightarrow> (c_int \<times> u8 list, 's) outcome) option"
  fop_write :: "((nat \<Rightarrow> u8 list) \<Rightarrow> nat \<Rightarrow> 's \<Rightarrow> (c_int, 's) outcome) option"
  fop_release :: "('s \<Rightarrow> (c_int, 's) outcome) option"
  fop_poll :: "('s \<Rightarrow> (u32, 's) outcome) option"
  fop_fasync :: "(bool \<Rightarrow> 's \<Rightarrow> (c_int, 's) outcome) option"

definition no_ops :: "'s file_ops" where
  "no_ops = \<lparr>fop_open = None, fop_read = None, fop_write = None, fop_release = None,
     fop_poll = None, fop_fasync = None\<rparr>"

text \<open>The drivers' functions return \<open>int\<close>; those that cannot fail have a natural number as result.\<close>

definition fop_status :: "('a kstate_scheme, nat) state \<Rightarrow> 'a kstate_scheme \<Rightarrow> (c_int, 'a kstate_scheme) outcome"
  where "fop_status m s = map_outcome Inr id (of_exec (exec m s))"

definition first_drv_fops :: "u8 list \<Rightarrow> first_state file_ops" where
  "first_drv_fops stack = no_ops\<lparr>
     fop_open := Some (\<lambda>nb. fop_status first_drv_open),
     fop_write := Some (\<lambda>buf n. fop_status (first_drv_write buf stack n))\<rparr>"

definition firstdrv_fops :: "u8 list \<Rightarrow> first_state file_ops" where
  "firstdrv_fops stack = no_ops\<lparr>
     fop_open := Some (\<lambda>nb. fop_status firstdrv_open),
     fop_write := Some (\<lambda>buf n. fop_status (firstdrv_write buf stack n))\<rparr>"

lemma firstdrv_fops_same: "firstdrv_fops = first_drv_fops"
  by (simp add: fun_eq_iff firstdrv_fops_def first_drv_fops_def firstdrv_same)

definition led_fops :: "u8 list \<Rightarrow> led_state file_ops" where
  "led_fops stack = no_ops\<lparr>
     fop_open := Some (\<lambda>nb. fop_status led_open),
     fop_write := Some (\<lambda>buf n. fop_status (led_write buf stack n))\<rparr>"

definition second_drv_fops :: "second_state file_ops" where
  "second_drv_fops = no_ops\<lparr>
     fop_open := Some (\<lambda>nb. fop_status second_drv_open),
     fop_read := Some (\<lambda>nb i n s. of_exec (exec (second_drv_read n) s))\<rparr>"

definition third_drv_fops :: "kenv \<Rightarrow> ptr \<Rightarrow> btn_state file_ops" where
  "third_drv_fops E pins = no_ops\<lparr>
     fop_open := Some (\<lambda>nb. fop_status (third_drv_open E pins)),
     fop_read := Some (\<lambda>nb i n s. of_sleep (third_drv_read i n s)),
     fop_release := Some (fop_status (third_drv_close pins))\<rparr>"

definition forth_drv_fops :: "kenv \<Rightarrow> ptr \<Rightarrow> btn_state file_ops" where
  "forth_drv_fops E pins = no_ops\<lparr>
     fop_open := Some (\<lambda>nb. fop_status (forth_drv_open E pins)),
     fop_read := Some (\<lambda>nb i n s. of_sleep (forth_drv_read i n s)),
     fop_release := Some (fop_status (forth_drv_close pins)),
     fop_poll := Some (\<lambda>s. of_exec (exec forth_drv_poll s))\<rparr>"

definition fifth_drv_fops :: "kenv \<Rightarrow> ptr \<Rightarrow> nat \<Rightarrow> btn_state file_ops" where
  "fifth_drv_fops E pins helper = no_ops\<lparr>
     fop_open := Some (\<lambda>nb. fop_status (fifth_drv_open E pins)),
     fop_read := Some (\<lambda>nb i n s. of_sleep (fifth_drv_read i n s)),
     fop_release := Some (fop_status (fifth_drv_close pins)),
     fop_poll := Some (\<lambda>s. of_exec (exec fifth_drv_poll s)),
     fop_fasync := Some (\<lambda>on. fop_status (fifth_drv_fasync helper on))\<rparr>"

definition button_fops :: "kenv \<Rightarrow> ptr \<Rightarrow> all_state file_ops" where
  "button_fops E pins = no_ops\<lparr>
     fop_open := Some (\<lambda>nb s. of_sleep (buttons_open E pins nb s)),
     fop_read := Some (\<lambda>nb i n s. of_sleep (buttons_read nb i n s)),
     fop_release := Some (fop_status (buttons_release pins))\<rparr>"

lemmas fops_defs = first_drv_fops_def led_fops_def second_drv_fops_def third_drv_fops_def
  forth_drv_fops_def fifth_drv_fops_def button_fops_def no_ops_def

section \<open>System calls\<close>

text \<open>
  The calls the test programs make, on behalf of a process: \<open>open(path, O_RDWR)\<close>, \<open>read(fd, buf, n)\<close>,
  \<open>write(fd, buf, n)\<close> with the bytes of the buffer, \<open>poll\<close> on one descriptor for \<open>events\<close>, where the flag
  says that the time is over, and \<open>fcntl(fd, F_GETFL)\<close>, \<open>fcntl(fd, F_SETFL, flags)\<close>. \<open>O_RDWR\<close> asks for
  blocking I/O and no signal interrupts the calls of these programs.
\<close>

record 's sys =
  sys_open :: "string \<Rightarrow> 's \<Rightarrow> (int, 's) outcome"
  sys_read :: "int \<Rightarrow> nat \<Rightarrow> 's \<Rightarrow> (int \<times> u8 list, 's) outcome"
  sys_write :: "int \<Rightarrow> u8 list \<Rightarrow> 's \<Rightarrow> (int, 's) outcome"
  sys_poll :: "int \<Rightarrow> u32 \<Rightarrow> bool \<Rightarrow> 's \<Rightarrow> (int, 's) outcome"
  sys_getfl :: "int \<Rightarrow> 's \<Rightarrow> (u32, 's) outcome"
  sys_setfl :: "int \<Rightarrow> u32 \<Rightarrow> 's \<Rightarrow> (int, 's) outcome"

definition O_RDWR :: u32 where "O_RDWR = 2"
definition FASYNC :: u32 where "FASYNC = 0x2000"

definition open_result :: "int \<Rightarrow> (c_int, 's) outcome \<Rightarrow> (int, 's) outcome" where
  "open_result fd x = and_then x (\<lambda>r s. Done (if r = Inr 0 then fd else -1) s)"

definition read_result :: "(c_int \<times> u8 list, 's) outcome \<Rightarrow> (int \<times> u8 list, 's) outcome" where
  "read_result x = and_then x (\<lambda>(r, b) s. Done (user_result r, b) s)"

definition poll_result :: "u32 \<Rightarrow> bool \<Rightarrow> (u32, 's) outcome \<Rightarrow> (int, 's) outcome" where
  "poll_result events over x = and_then x (\<lambda>mask s.
     if mask AND events \<noteq> 0 then Done 1 s else if over then Done 0 s else Sleeps)"

locale device_node =
  fixes S :: "'s sys" and path :: string and ops :: "'s file_ops" and fd :: int
  assumes fd: "0 \<le> fd"
    and open_node: "fop_open ops = Some op \<Longrightarrow> sys_open S path s = open_result fd (op False s)"
    and read_node: "fop_read ops = Some rd \<Longrightarrow> sys_read S fd n s = read_result (rd False False n s)"
    and write_node: "fop_write ops = Some wr \<Longrightarrow> sys_write S fd b s =
      map_outcome user_result id (wr (\<lambda>n. take n b) (length b) s)"
    and poll_node: "fop_poll ops = Some pl \<Longrightarrow> sys_poll S fd events over s = poll_result events over (pl s)"
    and flags_node: "fop_fasync ops = Some fa \<Longrightarrow> \<exists>flags. flags AND FASYNC = 0 \<and>
      sys_getfl S fd s = Done flags s \<and>
      (\<forall>v. sys_setfl S fd v s =
        (if v AND FASYNC \<noteq> 0 then map_outcome user_result id (fa True s) else Done 0 s))"

text \<open>A kernel with this one node.\<close>

definition node_sys :: "string \<Rightarrow> 's file_ops \<Rightarrow> 's sys" where
  "node_sys path ops = \<lparr>
     sys_open = (\<lambda>p s. if p \<noteq> path then Done (-1) s else
       case fop_open ops of None \<Rightarrow> Done 3 s | Some f \<Rightarrow> open_result 3 (f False s)),
     sys_read = (\<lambda>d n s. if d \<noteq> 3 then Done (-1, []) s else
       case fop_read ops of None \<Rightarrow> Done (-1, []) s | Some f \<Rightarrow> read_result (f False False n s)),
     sys_write = (\<lambda>d b s. if d \<noteq> 3 then Done (-1) s else
       case fop_write ops of None \<Rightarrow> Done (-1) s
       | Some f \<Rightarrow> map_outcome user_result id (f (\<lambda>n. take n b) (length b) s)),
     sys_poll = (\<lambda>d ev over s. case fop_poll ops of None \<Rightarrow> Done 1 s | Some f \<Rightarrow> poll_result ev over (f s)),
     sys_getfl = (\<lambda>d s. Done O_RDWR s),
     sys_setfl = (\<lambda>d v s. case fop_fasync ops of None \<Rightarrow> Done 0 s
       | Some f \<Rightarrow> if v AND FASYNC \<noteq> 0 then map_outcome user_result id (f True s) else Done 0 s)\<rparr>"

interpretation node: device_node "node_sys path ops" path ops 3 for path ops
  by unfold_locales (auto simp: node_sys_def O_RDWR_def FASYNC_def)

end
