(* ===== verification/Programs.thy ===== *)
theory Programs
  imports Fileops "HOL-Library.Sublist"
begin

text \<open>
  The test programs of the repository as users of the drivers: \<open>firstdrvtest.c\<close> and \<open>led_test.c\<close> switch
  the LEDs, \<open>third_drv_test.c\<close> and \<open>buttons_test.c\<close> print the keys that a blocking \<open>read\<close> returns,
  \<open>forthdrvtest.c\<close> asks \<open>poll\<close> first, \<open>fifthdrvtest.c\<close> waits for \<open>SIGIO\<close>. A program is a function of the
  system calls it makes; an endless loop is run along a schedule of events, the turns of the process
  interleaved with what happens to the driver. What the loops print is compared with a one-place mailbox.
\<close>

section \<open>Output\<close>

text \<open>A line that \<open>printf\<close> writes: its format without the final newline, and the arguments.\<close>

datatype arg = Str string | Num int

datatype line = Printf string "arg list"

definition cant_open :: "int \<Rightarrow> line list" where
  "cant_open fd = (if fd < 0 then [Printf ''Can't open!'' []] else [])"

definition program_name :: "string list \<Rightarrow> string" where
  "program_name argv = (case argv of [] \<Rightarrow> ''(null)'' | a # _ \<Rightarrow> a)"

section \<open>firstdrvtest.c and led_test.c\<close>

definition firstdrvtest_main :: "'s sys \<Rightarrow> string list \<Rightarrow> 's \<Rightarrow> (int \<times> line list, 's) outcome" where
  "firstdrvtest_main S argv s = and_then (sys_open S ''/dev/xyz'' s) (\<lambda>fd s.
     if length argv \<noteq> 2
     then Done (0, cant_open fd @ [Printf ''Usage: '' [], Printf ''%s <on|off>'' [Str (program_name argv)]]) s
     else let val = (if argv ! 1 = ''on'' then 1 else 0) in
       and_then (sys_write S fd (bytes32 val) s) (\<lambda>ret s. Done (0, cant_open fd) s))"

definition led_test_main :: "'s sys \<Rightarrow> string list \<Rightarrow> 's \<Rightarrow> (int \<times> line list, 's) outcome" where
  "led_test_main S argv s = and_then (sys_open S ''/dev/led'' s) (\<lambda>fd s.
     if fd < 0 then Done (-1, cant_open fd) s
     else if length argv \<noteq> 2
     then Done (0, [Printf ''Usage:'' [], Printf ''%s <on | off>'' [Str (program_name argv)]]) s
     else let val = (if argv ! 1 = ''on'' then 1 else 0) in
       and_then (sys_write S fd (bytes32 val) s) (\<lambda>ret s. Done (0, []) s))"

locale led_node = led_device op_open op_write con dat conf pins ready + device_node S path ops fd
  for op_open :: "'s \<Rightarrow> fault + nat \<times> 's" and op_write con dat and conf :: "'s \<Rightarrow> 'c" and pins ready
    and S :: "'s sys" and path ops fd +
  assumes table_open: "\<exists>op. fop_open ops = Some op \<and> (\<forall>s. op False s = map_outcome Inr id (of_exec (op_open s)))"
    and table_write: "\<exists>w. fop_write ops = Some w \<and>
      (\<forall>v s. w (user_int v) 4 s = map_outcome Inr id (of_exec (op_write v s)))"
begin

lemma node_open:
  assumes "ready s"
  shows "\<exists>s'. sys_open S path s = Done fd s' \<and> ready s' \<and> conf s' = conf s \<and> dat s' = dat s \<and>
    (\<forall>i \<in> pins (conf s). pin_mode (con s') i = 1)"
proof -
  obtain op where op: "fop_open ops = Some op" "\<forall>s. op False s = map_outcome Inr id (of_exec (op_open s))"
    using table_open by blast
  obtain s' where s': "op_open s = Inr (0, s')" "ready s'" "conf s' = conf s" "dat s' = dat s"
    "\<forall>i < 32. bit (con s') i = (if i div 2 \<in> pins (conf s) then even i else bit (con s) i)"
    using open_spec [OF assms] by blast
  have "sys_open S path s = Done fd s'"
    using open_node [OF op(1), of s] op(2) s'(1) by (simp add: open_result_def)
  moreover have "pin_mode (con s') i = 1" if "i \<in> pins (conf s)" for i
    using that s'(5) pins_bound [OF assms that] by (simp add: pin_mode_output)
  ultimately show ?thesis using s'(2-4) by blast
qed

lemma node_write:
  assumes "ready s"
  shows "\<exists>s'. sys_write S fd (bytes32 v) s = Done 0 s' \<and> conf s' = conf s \<and> con s' = con s \<and>
    (\<forall>i \<in> pins (conf s). bit (dat s') i \<longleftrightarrow> v \<noteq> 1)"
proof -
  obtain w where w: "fop_write ops = Some w"
      "\<forall>v s. w (user_int v) 4 s = map_outcome Inr id (of_exec (op_write v s))"
    using table_write by blast
  obtain s' where s': "op_write v s = Inr (0, s')" "con s' = con s" "conf s' = conf s"
    "\<forall>i < 32. bit (dat s') i = (if i \<in> pins (conf s) then v \<noteq> 1 else bit (dat s) i)"
    using write_spec [OF assms, of v] by blast
  have "sys_write S fd (bytes32 v) s = Done 0 s'"
    using write_node [OF w(1), of "bytes32 v" s] w(2) s'(1) by simp
  moreover have "bit (dat s') i \<longleftrightarrow> v \<noteq> 1" if "i \<in> pins (conf s)" for i
    using that s'(4) pins_bound [OF assms that] by simp
  ultimately show ?thesis using s'(2,3) by blast
qed

text \<open>What both programs do with an LED node that is ready.\<close>

definition switched :: "string list \<Rightarrow> 's \<Rightarrow> 's \<Rightarrow> bool" where
  "switched argv s s' \<longleftrightarrow> conf s' = conf s \<and> (\<forall>i \<in> pins (conf s). pin_mode (con s') i = 1) \<and>
     (if length argv = 2 then \<forall>i \<in> pins (conf s). bit (dat s') i \<longleftrightarrow> argv ! 1 \<noteq> ''on'' else dat s' = dat s)"

lemma program_switches:
  assumes "ready s"
  shows "path = ''/dev/xyz'' \<Longrightarrow> \<exists>out s'. firstdrvtest_main S argv s = Done (0, out) s' \<and> switched argv s s'"
    and "path = ''/dev/led'' \<Longrightarrow> \<exists>out s'. led_test_main S argv s = Done (0, out) s' \<and> switched argv s s'"
proof -
  obtain s1 where s1: "sys_open S path s = Done fd s1" "ready s1" "conf s1 = conf s" "dat s1 = dat s"
    "\<forall>i \<in> pins (conf s). pin_mode (con s1) i = 1"
    using node_open [OF assms] by blast
  obtain s2 where s2: "sys_write S fd (bytes32 (if argv ! 1 = ''on'' then 1 else 0)) s1 = Done 0 s2"
    "conf s2 = conf s1" "con s2 = con s1"
    "\<forall>i \<in> pins (conf s1). bit (dat s2) i \<longleftrightarrow> (if argv ! 1 = ''on'' then 1 else 0 :: u32) \<noteq> 1"
    using node_write [OF s1(2)] by blast
  have "switched argv s (if length argv = 2 then s2 else s1)"
    using s1 s2 by (simp add: switched_def)
  then show "path = ''/dev/xyz'' \<Longrightarrow> \<exists>out s'. firstdrvtest_main S argv s = Done (0, out) s' \<and> switched argv s s'"
    and "path = ''/dev/led'' \<Longrightarrow> \<exists>out s'. led_test_main S argv s = Done (0, out) s' \<and> switched argv s s'"
    using s1(1) s2(1) fd by (auto simp: firstdrvtest_main_def led_test_main_def Let_def split: if_splits)
qed

end


text \<open>Both drivers, behind their nodes.\<close>

lemma first_led_node:
  assumes "device_node S path (first_drv_fops stack) fd"
  shows "led_node (exec first_drv_open) (\<lambda>v. exec (first_drv_write (user_int v) stack 4))
    (\<lambda>s. kmem s (first_gpfcon s)) (\<lambda>s. kmem s (first_gpfdat s)) (\<lambda>s. (first_gpfcon s, first_gpfdat s))
    (\<lambda>_. first_pins) first_ready S path (first_drv_fops stack) fd"
  by (intro led_node.intro first.led_device_axioms assms led_node_axioms.intro)
    (simp_all add: fops_defs fop_status_def)

lemma led_led_node:
  assumes "device_node S path (led_fops stack) fd"
  shows "led_node (exec led_open) (\<lambda>v. exec (led_write (user_int v) stack 4))
    (\<lambda>s. kmem s (gpio_con s)) (\<lambda>s. kmem s (gpio_dat s)) (\<lambda>s. (gpio_con s, gpio_dat s, led_pin s))
    (\<lambda>(_, _, pin). {pin}) led_ready S path (led_fops stack) fd"
  by (intro led_node.intro led.led_device_axioms assms led_node_axioms.intro)
    (simp_all add: fops_defs fop_status_def)

interpretation xyz: led_node "exec first_drv_open" "\<lambda>v. exec (first_drv_write (user_int v) stack 4)"
  "\<lambda>s. kmem s (first_gpfcon s)" "\<lambda>s. kmem s (first_gpfdat s)" "\<lambda>s. (first_gpfcon s, first_gpfdat s)"
  "\<lambda>_. first_pins" first_ready "node_sys ''/dev/xyz'' (first_drv_fops stack)" "''/dev/xyz''"
  "first_drv_fops stack" 3 for stack
  by (rule first_led_node) (rule node.device_node_axioms)

text \<open>
  C24: the test programs switch the LEDs: after the driver's initialisation on the board,
  \<open>firstdrvtest on\<close> leaves the three LEDs on GPF4, GPF5, GPF6 lit (low) and \<open>firstdrvtest\<close> with any other
  single argument leaves them dark, \<open>led_test\<close> does the same with the LED on GPF5 that the platform
  device names; either exits with 0. With a wrong number of arguments the data register keeps its value.
  Assumed of the kernel: the mappings succeed, \<open>platform_get_resource\<close> finds the n-th resource of a type,
  and the system calls on the two device nodes reach the drivers' tables.
\<close>

theorem test_programs_switch_leds:
  assumes "e_ioremap E 0x56000050 16 = p" and "p \<noteq> NULL" and "p + 4 \<noteq> NULL"
    and "e_ioremap E 0x56000050 8 = q" and "q \<noteq> NULL" and "q + 4 \<noteq> NULL"
    and "\<forall>t n. get t n = (let l = filter (\<lambda>r. res_flags r = t) led_resource in
      if n < length l then Some (l ! n) else None)"
    and "device_node S ''/dev/xyz'' (first_drv_fops stack) fd"
    and "device_node S' ''/dev/led'' (led_fops stack) fd'"
  shows "(\<exists>s0 out s. exec (first_drv_init E) (first_initial m) = Inr (0, s0) \<and>
      firstdrvtest_main S argv s0 = Done (0, out) s \<and> (\<forall>i \<in> {4, 5, 6}. pin_mode (kmem s p) i = 1) \<and>
      (if length argv = 2 then \<forall>i \<in> {4, 5, 6}. bit (kmem s (p + 4)) i \<longleftrightarrow> argv ! 1 \<noteq> ''on''
       else kmem s (p + 4) = m (p + 4))) \<and>
    (\<exists>s0 out s. exec (led_probe E get) (led_initial m) = Inr (0, s0) \<and>
      led_test_main S' argv s0 = Done (0, out) s \<and> pin_mode (kmem s q) 5 = 1 \<and>
      (if length argv = 2 then bit (kmem s (q + 4)) 5 \<longleftrightarrow> argv ! 1 \<noteq> ''on''
       else kmem s (q + 4) = m (q + 4)))"
proof
  obtain s0 where s0: "exec (first_drv_init E) (first_initial m) = Inr (0, s0)" "first_ready s0"
    "first_gpfcon s0 = p" "first_gpfdat s0 = p + 4" "kmem s0 = m"
    using first_init_ready [OF assms(1-3)] by blast
  note xyz = first_led_node [OF assms(8)]
  from led_node.program_switches(1) [OF xyz s0(2) refl] obtain out s where
    "firstdrvtest_main S argv s0 = Done (0, out) s"
    and sw: "led_node.switched (\<lambda>s. kmem s (first_gpfcon s)) (\<lambda>s. kmem s (first_gpfdat s))
      (\<lambda>s. (first_gpfcon s, first_gpfdat s)) (\<lambda>_. first_pins) argv s0 s"
    by blast
  with s0 sw [unfolded led_node.switched_def [OF xyz]] show "\<exists>s0 out s. exec (first_drv_init E) (first_initial m) = Inr (0, s0) \<and>
      firstdrvtest_main S argv s0 = Done (0, out) s \<and> (\<forall>i \<in> {4, 5, 6}. pin_mode (kmem s p) i = 1) \<and>
      (if length argv = 2 then \<forall>i \<in> {4, 5, 6}. bit (kmem s (p + 4)) i \<longleftrightarrow> argv ! 1 \<noteq> ''on''
       else kmem s (p + 4) = m (p + 4))"
    by (auto simp: first_pins_def split: if_splits)
next
  obtain s0 where s0: "exec (led_probe E get) (led_initial m) = Inr (0, s0)" "led_ready s0"
    "gpio_con s0 = q" "gpio_dat s0 = q + 4" "led_pin s0 = 5" "kmem s0 = m"
    using led_probe_state [OF assms(7,4-6)] by blast
  note led = led_led_node [OF assms(9)]
  from led_node.program_switches(2) [OF led s0(2) refl] obtain out s where
    "led_test_main S' argv s0 = Done (0, out) s"
    and sw: "led_node.switched (\<lambda>s. kmem s (gpio_con s)) (\<lambda>s. kmem s (gpio_dat s))
      (\<lambda>s. (gpio_con s, gpio_dat s, led_pin s)) (\<lambda>(_, _, pin). {pin}) argv s0 s"
    by blast
  with s0 sw [unfolded led_node.switched_def [OF led]] show "\<exists>s0 out s. exec (led_probe E get) (led_initial m) = Inr (0, s0) \<and>
      led_test_main S' argv s0 = Done (0, out) s \<and> pin_mode (kmem s q) 5 = 1 \<and>
      (if length argv = 2 then bit (kmem s (q + 4)) 5 \<longleftrightarrow> argv ! 1 \<noteq> ''on''
       else kmem s (q + 4) = m (q + 4))"
    by (auto split: if_splits)
qed

theorem test_programs_switch_leds_witness:
  "\<exists>s0 out s. exec (first_drv_init sample_env) (first_initial (\<lambda>_. 0)) = Inr (0, s0) \<and>
    firstdrvtest_main (node_sys ''/dev/xyz'' (first_drv_fops [0, 0, 0, 0])) [''firstdrvtest'', ''off''] s0 =
      Done (0, out) s \<and> bit (kmem s 0xee000054) 6"
proof -
  have get: "\<forall>t n. (if n = 0 then find (\<lambda>r. res_flags r = t) led_resource else None) =
    (let l = filter (\<lambda>r. res_flags r = t) led_resource in
      if n < length l then Some (l ! n) else None)"
    by (auto simp: led_resource_def)
  have h: "e_ioremap sample_env 0x56000050 16 = 0xee000050" "(0xee000050 :: ptr) \<noteq> NULL"
    "(0xee000050 :: ptr) + 4 \<noteq> NULL" "e_ioremap sample_env 0x56000050 8 = 0xee000050"
    by (simp_all add: sample_env_def)
  show ?thesis
    using test_programs_switch_leds [OF h(1-4) h(2,3) get
        node.device_node_axioms [of _ "first_drv_fops [0, 0, 0, 0]"]
        node.device_node_axioms [of _ "led_fops [0, 0, 0, 0]"],
        where m = "\<lambda>_. 0" and argv = "[''firstdrvtest'', ''off'']"]
    by auto
qed

section \<open>Programs that read keys\<close>

text \<open>
  A schedule interleaves what happens to the driver with the turns of the process. A turn is a passage
  through the loop, up to the call it sleeps in; its flag says that the time-out of a \<open>poll\<close> is over. An
  unfinished passage leaves the process where it sleeps, to be tried again at the next turn. \<open>None\<close> is the
  end of the run by a kernel oops, or a process that still sleeps in \<open>open\<close>.
\<close>

datatype 'e event = Env 'e | Turn bool

fun loop_run ::
  "('e \<Rightarrow> 's \<Rightarrow> 's) \<Rightarrow> (bool \<Rightarrow> 's \<times> 'p \<Rightarrow> ('s \<times> 'p) option) \<Rightarrow> 'e event list \<Rightarrow> 's \<times> 'p \<Rightarrow> ('s \<times> 'p) option"
  where
  "loop_run env turn [] c = Some c"
| "loop_run env turn (Env e # es) (s, p) = loop_run env turn es (env e s, p)"
| "loop_run env turn (Turn over # es) c = Option.bind (turn over c) (loop_run env turn es)"

text \<open>\<open>read(fd, &keyval, 1)\<close> stores at most one byte; else \<open>keyval\<close> keeps its value, at first an undefined one.\<close>

definition stored :: "u8 list \<Rightarrow> u8 \<Rightarrow> u8" where
  "stored b k = (case b of [] \<Rightarrow> k | x # _ \<Rightarrow> x)"

definition read_turn ::
  "(int \<Rightarrow> u8 \<Rightarrow> line) \<Rightarrow> 's sys \<Rightarrow> int \<Rightarrow> bool \<Rightarrow> 's \<times> u8 \<times> line list \<Rightarrow> ('s \<times> u8 \<times> line list) option" where
  "read_turn print S fd over c = (case c of (s, kv, out) \<Rightarrow>
     (case sys_read S fd 1 s of
        Oops f \<Rightarrow> None
      | Sleeps \<Rightarrow> Some c
      | Done (ret, b) s' \<Rightarrow> Some (s', stored b kv, out @ [print ret (stored b kv)])))"

definition third_drv_test_main ::
  "'s sys \<Rightarrow> ('e \<Rightarrow> 's \<Rightarrow> 's) \<Rightarrow> u8 \<Rightarrow> 'e event list \<Rightarrow> 's \<Rightarrow> ('s \<times> u8 \<times> line list) option" where
  "third_drv_test_main S env junk es s = (case sys_open S ''/dev/buttons'' s of
     Done fd s' \<Rightarrow> loop_run env (read_turn (\<lambda>ret k. Printf ''key value = 0x%x'' [Num (uint k)]) S fd) es
       (s', junk, cant_open fd)
   | _ \<Rightarrow> None)"

text \<open>\<open>buttons_test\<close> returns -1 if it cannot open the device: nothing more happens.\<close>

definition buttons_test_main ::
  "'s sys \<Rightarrow> ('e \<Rightarrow> 's \<Rightarrow> 's) \<Rightarrow> u8 \<Rightarrow> 'e event list \<Rightarrow> 's \<Rightarrow> ('s \<times> u8 \<times> line list) option" where
  "buttons_test_main S env junk es s = (case sys_open S ''/dev/buttons'' s of
     Done fd s' \<Rightarrow>
       if fd < 0 then Some (s', junk, cant_open fd)
       else loop_run env
         (read_turn (\<lambda>ret k. Printf ''key_val = 0x%x, ret = %d'' [Num (uint k), Num ret]) S fd) es (s', junk, [])
   | _ \<Rightarrow> None)"

text \<open>\<open>reading\<close> says that the process sleeps in the \<open>read\<close> after a \<open>poll\<close> that was answered.\<close>

definition forth_read_turn ::
  "'s sys \<Rightarrow> int \<Rightarrow> 's \<times> bool \<times> u8 \<times> line list \<Rightarrow> ('s \<times> bool \<times> u8 \<times> line list) option" where
  "forth_read_turn S fd c = (case c of (s, reading, key_val, out) \<Rightarrow>
     (case sys_read S fd 1 s of
        Oops f \<Rightarrow> None
      | Sleeps \<Rightarrow> Some (s, True, key_val, out)
      | Done (r, b) s' \<Rightarrow> Some (s', False, stored b key_val,
          out @ [Printf ''key_val = 0x%x'' [Num (uint (stored b key_val))]])))"

definition forth_turn ::
  "'s sys \<Rightarrow> int \<Rightarrow> bool \<Rightarrow> 's \<times> bool \<times> u8 \<times> line list \<Rightarrow> ('s \<times> bool \<times> u8 \<times> line list) option" where
  "forth_turn S fd over c = (case c of (s, reading, key_val, out) \<Rightarrow>
     if reading then forth_read_turn S fd c
     else (case sys_poll S fd POLLIN over s of
        Oops f \<Rightarrow> None
      | Sleeps \<Rightarrow> Some c
      | Done ret s' \<Rightarrow>
          if ret = 0 then Some (s', False, key_val, out @ [Printf ''time out'' []])
          else forth_read_turn S fd (s', False, key_val, out)))"

definition forthdrvtest_main ::
  "'s sys \<Rightarrow> ('e \<Rightarrow> 's \<Rightarrow> 's) \<Rightarrow> u8 \<Rightarrow> 'e event list \<Rightarrow> 's \<Rightarrow> ('s \<times> bool \<times> u8 \<times> line list) option" where
  "forthdrvtest_main S env junk es s = (case sys_open S ''/dev/buttons'' s of
     Done fd s' \<Rightarrow> loop_run env (forth_turn S fd) es (s', False, junk, cant_open fd)
   | _ \<Rightarrow> None)"

section \<open>The mailbox\<close>

text \<open>
  The abstract device: one place for a key. An event puts its code there, whatever was in it; a turn
  takes it out. \<open>None\<close> in the result is a turn that found the place empty when its time was over.
\<close>

fun mailbox :: "('e \<Rightarrow> u8) \<Rightarrow> 'e event list \<Rightarrow> u8 option \<Rightarrow> u8 option list" where
  "mailbox code [] p = []"
| "mailbox code (Env e # es) p = mailbox code es (Some (code e))"
| "mailbox code (Turn over # es) None = (if over then [None] else []) @ mailbox code es None"
| "mailbox code (Turn over # es) (Some k) = Some k # mailbox code es None"

definition keys_of :: "u8 option list \<Rightarrow> u8 list" where
  "keys_of ms = List.map_filter id ms"

lemma keys_of_simps [simp]:
  "keys_of [] = []" "keys_of (None # ms) = keys_of ms" "keys_of (Some k # ms) = k # keys_of ms"
  by (simp_all add: keys_of_def map_filter_simps)

fun env_events :: "'e event list \<Rightarrow> 'e list" where
  "env_events [] = []"
| "env_events (Env e # es) = e # env_events es"
| "env_events (Turn b # es) = env_events es"

text \<open>What \<open>forthdrvtest\<close> prints for a turn of the mailbox.\<close>

definition poll_line :: "u8 option \<Rightarrow> line" where
  "poll_line m = (case m of None \<Rightarrow> Printf ''time out'' [] | Some k \<Rightarrow> Printf ''key_val = 0x%x'' [Num (uint k)])"

text \<open>Every event is followed by a turn before the next one.\<close>

fun prompt_turns :: "'e event list \<Rightarrow> bool" where
  "prompt_turns [] \<longleftrightarrow> True"
| "prompt_turns (Turn b # es) \<longleftrightarrow> prompt_turns es"
| "prompt_turns (Env e # Turn b # es) \<longleftrightarrow> prompt_turns es"
| "prompt_turns (Env e # es) \<longleftrightarrow> False"

lemma mailbox_subseq:
  "subseq (keys_of (mailbox code es p)) (case p of None \<Rightarrow> map code (env_events es)
     | Some k \<Rightarrow> k # map code (env_events es))"
  by (induction code es p rule: mailbox.induct) (auto split: option.splits dest: subseq_Cons')

lemma mailbox_prompt: "prompt_turns es \<Longrightarrow> keys_of (mailbox code es None) = map code (env_events es)"
  by (induction es rule: prompt_turns.induct) auto

section \<open>The programs over a driver that keeps its contract\<close>

text \<open>\<open>env e\<close> is what the event \<open>e\<close> does to the driver, \<open>code e\<close> the key code it stands for.\<close>

locale key_events =
  fixes env :: "'e \<Rightarrow> 's \<Rightarrow> 's" and code :: "'e \<Rightarrow> u8" and valid :: "'e \<Rightarrow> bool"
    and read1 :: "'s \<Rightarrow> ((c_int \<times> u8 list) \<times> 's) option"
    and pending :: "'s \<Rightarrow> bool" and key :: "'s \<Rightarrow> u8" and ok :: "'s \<Rightarrow> bool"
  assumes env_spec: "ok s \<Longrightarrow> valid e \<Longrightarrow> ok (env e s) \<and> pending (env e s) \<and> key (env e s) = code e"
    and empty_sleeps: "\<not> pending s \<Longrightarrow> read1 s = None"
    and full_read: "ok s \<Longrightarrow> pending s \<Longrightarrow> \<exists>s'. read1 s = Some ((Inr 1, [key s]), s') \<and> ok s' \<and> \<not> pending s'"

sublocale key_source \<subseteq> events: key_events "\<lambda>(g, d). irq g d" "\<lambda>(g, d). key_code g d" "\<lambda>(g, d). d < 3"
  "read False 1" pending key ok
proof (unfold_locales, goal_cases)
  case (1 s e)
  then show ?case using irq_spec by (cases e) auto
next
  case (2 s)
  then show ?case by (rule read_sleeps)
next
  case (3 s)
  then show ?case using read_key by blast
qed

locale key_node = key_events env code valid read1 pending key ok + device_node S path ops fd
  for env :: "'e \<Rightarrow> 's \<Rightarrow> 's" and code valid read1 pending key ok and S :: "'s sys" and path ops fd +
  assumes table_read: "\<exists>rd. fop_read ops = Some rd \<and> (\<forall>s. rd False False 1 s = of_sleep (read1 s))"
begin

definition contents :: "'s \<Rightarrow> u8 option" where
  "contents s = (if pending s then Some (key s) else None)"

lemma contents_cases:
  obtains "\<not> pending s" "contents s = None" | "pending s" "contents s = Some (key s)"
  by (cases "pending s") (simp_all add: contents_def)

lemma node_read:
  shows "\<not> pending s \<Longrightarrow> sys_read S fd 1 s = Sleeps"
    and "ok s \<Longrightarrow> pending s \<Longrightarrow> \<exists>s'. sys_read S fd 1 s = Done (1, [key s]) s' \<and> ok s' \<and> contents s' = None"
proof -
  obtain rd where rd: "fop_read ops = Some rd" "\<forall>s. rd False False 1 s = of_sleep (read1 s)"
    using table_read by blast
  note r = read_node [OF rd(1), of 1 s]
  show "\<not> pending s \<Longrightarrow> sys_read S fd 1 s = Sleeps"
    using r rd(2) empty_sleeps [of s] by (simp add: read_result_def)
  show "ok s \<Longrightarrow> pending s \<Longrightarrow> \<exists>s'. sys_read S fd 1 s = Done (1, [key s]) s' \<and> ok s' \<and> contents s' = None"
    using r rd(2) full_read [of s] by (auto simp: read_result_def contents_def)
qed

lemma env_contents: "ok s \<Longrightarrow> valid e \<Longrightarrow> ok (env e s) \<and> contents (env e s) = Some (code e)"
  using env_spec by (simp add: contents_def)

text \<open>The loop of a blocking reader is the mailbox.\<close>

lemma reader_loop:
  assumes "ok s" and "\<forall>e \<in> set (env_events es). valid e"
  shows "\<exists>s' k'. loop_run env (read_turn print S fd) es (s, k, out) =
      Some (s', k', out @ map (print 1) (keys_of (mailbox code es (contents s)))) \<and> ok s'"
  using assms
proof (induction es arbitrary: s k out)
  case (Cons e es)
  show ?case
  proof (cases e)
    case (Env x)
    with Cons.prems have "valid x" "\<forall>e \<in> set (env_events es). valid e" by simp_all
    with Cons.IH [of "env x s" k out] env_contents [OF Cons.prems(1)] Env show ?thesis by simp
  next
    case (Turn over)
    show ?thesis
    proof (cases rule: contents_cases [of s])
      case 1
      with Cons.IH [of s k out] Cons.prems Turn node_read(1) show ?thesis
        by (simp add: read_turn_def)
    next
      case 2
      obtain s' where s': "sys_read S fd 1 s = Done (1, [key s]) s'" "ok s'" "contents s' = None"
        using node_read(2) [OF Cons.prems(1) 2(1)] by blast
      with Cons.IH [of s' "key s" "out @ [print 1 (key s)]"] Cons.prems Turn 2 show ?thesis
        by (simp add: read_turn_def stored_def)
    qed
  qed
qed simp

end

locale polled_node = key_node env code valid read1 pending key ok S path ops fd
  for env :: "'e \<Rightarrow> 's \<Rightarrow> 's" and code valid read1 pending key ok and S :: "'s sys" and path ops fd +
  assumes table_poll: "\<exists>pl. fop_poll ops = Some pl \<and> (\<forall>s. ok s \<longrightarrow> (\<exists>s'.
      pl s = Done (if pending s then POLLIN OR POLLRDNORM else 0) s' \<and> ok s' \<and> pending s' = pending s \<and>
      key s' = key s))"
begin

lemma node_poll:
  assumes "ok s"
  shows "\<exists>s'. ok s' \<and> contents s' = contents s \<and> sys_poll S fd POLLIN over s =
    (if pending s then Done 1 s' else if over then Done 0 s' else Sleeps)"
proof -
  obtain pl where pl: "fop_poll ops = Some pl" and spec: "\<forall>s. ok s \<longrightarrow> (\<exists>s'.
      pl s = Done (if pending s then POLLIN OR POLLRDNORM else 0) s' \<and> ok s' \<and> pending s' = pending s \<and>
      key s' = key s)"
    using table_poll by blast
  then obtain s' where s': "pl s = Done (if pending s then POLLIN OR POLLRDNORM else 0) s'" "ok s'"
    "pending s' = pending s" "key s' = key s"
    using assms by blast
  have "sys_poll S fd POLLIN over s = poll_result POLLIN over (pl s)" by (rule poll_node [OF pl])
  also have "\<dots> = (if pending s then Done 1 s' else if over then Done 0 s' else Sleeps)"
    unfolding s'(1) by (simp add: poll_result_def POLLIN_def POLLRDNORM_def)
  finally show ?thesis using s' by (auto simp: contents_def)
qed

text \<open>The loop with \<open>poll\<close> is the mailbox too, with its time-outs, and never sleeps in \<open>read\<close>.\<close>

lemma poll_loop:
  assumes "ok s" and "\<forall>e \<in> set (env_events es). valid e"
  shows "\<exists>s' k'. loop_run env (forth_turn S fd) es (s, False, k, out) =
      Some (s', False, k', out @ map poll_line (mailbox code es (contents s))) \<and> ok s'"
  using assms
proof (induction es arbitrary: s k out)
  case (Cons e es)
  show ?case
  proof (cases e)
    case (Env x)
    with Cons.prems have "valid x" "\<forall>e \<in> set (env_events es). valid e" by simp_all
    with Cons.IH [of "env x s" k out] env_contents [OF Cons.prems(1)] Env show ?thesis by simp
  next
    case (Turn over)
    obtain s1 where s1: "ok s1" "contents s1 = contents s" "sys_poll S fd POLLIN over s =
        (if pending s then Done 1 s1 else if over then Done 0 s1 else Sleeps)"
      using node_poll [OF Cons.prems(1)] by blast
    show ?thesis
    proof (cases rule: contents_cases [of s])
      case 1
      with s1(3) have turn: "forth_turn S fd over (s, False, k, out) =
          Some (if over then s1 else s, False, k, out @ (if over then [poll_line None] else []))"
        by (simp add: forth_turn_def poll_line_def)
      from Cons.prems(2) Turn have "\<forall>e \<in> set (env_events es). valid e" by simp
      from Cons.IH [OF _ this, of "if over then s1 else s" k "out @ (if over then [poll_line None] else [])"]
      show ?thesis using Turn 1(2) s1(1,2) Cons.prems(1) turn by auto
    next
      case 2
      with s1(2) have p: "pending s1" "key s1 = key s" by (auto simp: contents_def split: if_splits)
      obtain s' where s': "sys_read S fd 1 s1 = Done (1, [key s1]) s'" "ok s'" "contents s' = None"
        using node_read(2) [OF s1(1) p(1)] by blast
      with 2 Turn s1(3) p have turn: "forth_turn S fd over (s, False, k, out) =
          Some (s', False, key s, out @ [poll_line (Some (key s))])"
        by (simp add: forth_turn_def forth_read_turn_def stored_def poll_line_def)
      from Cons.prems(2) Turn have "\<forall>e \<in> set (env_events es). valid e" by simp
      from Cons.IH [OF s'(2) this, of "key s" "out @ [poll_line (Some (key s))]"] show ?thesis
        using Turn 2(2) s'(3) turn by auto
    qed
  qed
qed simp

end

section \<open>The button drivers keep it\<close>

definition third_env :: "(gpio_pin \<Rightarrow> u32) \<times> nat \<Rightarrow> btn_state \<Rightarrow> btn_state" where
  "third_env = (\<lambda>(g, d) s. snd (run_state (third_buttons_irq g d) s))"

definition forth_env :: "(gpio_pin \<Rightarrow> u32) \<times> nat \<Rightarrow> btn_state \<Rightarrow> btn_state" where
  "forth_env = (\<lambda>(g, d) s. snd (run_state (forth_buttons_irq g d) s))"

definition fifth_env :: "(gpio_pin \<Rightarrow> u32) \<times> nat \<Rightarrow> btn_state \<Rightarrow> btn_state" where
  "fifth_env = (\<lambda>(g, d) s. snd (run_state (fifth_buttons_irq g d) s))"

text \<open>
  A settled change of \<open>buttons.c\<close>: interrupts of any buttons while the contacts bounce, the last of
  button \<open>d\<close>, and the timer that finds the levels \<open>g\<close>.
\<close>

definition settle :: "nat \<Rightarrow> nat list \<times> nat \<times> (gpio_pin \<Rightarrow> u32) \<Rightarrow> all_state \<Rightarrow> all_state" where
  "settle HZ = (\<lambda>(ds, d, g) s. all_expire g
     (fold (\<lambda>d s. snd (run_state (all_buttons_irq HZ d) s)) (ds @ [d]) s))"

lemma bounce_keeps:
  assumes "kfault s = None"
  shows "let t = fold (\<lambda>d s. snd (run_state (all_buttons_irq HZ d) s)) (ds @ [d]) s in
    kfault t = None \<and> irq_pd t = Some d \<and> ev_timer t = ev_timer s \<and> all_key_val t = all_key_val s"
  using assms by (induction ds arbitrary: s) (simp_all add: driver_defs Let_def)

interpretation settled: key_events "settle HZ" "\<lambda>(ds, d, g). key_code g d" "\<lambda>(ds, d, g). d < 3"
  "buttons_read False False 1" "\<lambda>s. ev_timer s \<noteq> 0" all_key_val "\<lambda>s. kfault s = None" for HZ
proof (unfold_locales, goal_cases)
  case (1 s e)
  then show ?case
    using bounce_keeps [of s HZ "fst e" "fst (snd e)"]
    by (cases e) (simp add: settle_def all_expire_def timer_run Let_def)
qed (auto simp: buttons_read_def)

lemma third_key_node:
  assumes "device_node S path (third_drv_fops E pins) fd"
  shows "key_node third_env (\<lambda>(g, d). key_code g d) (\<lambda>(g, d). d < 3) (third_drv_read False 1)
    (\<lambda>s. ev_press s \<noteq> 0) keyval btn_ok S path (third_drv_fops E pins) fd"
  using third.events.key_events_axioms
  by (intro key_node.intro assms key_node_axioms.intro) (simp_all add: fops_defs third_env_def case_prod_unfold)

lemma settled_key_node:
  assumes "device_node S path (button_fops E pins) fd"
  shows "key_node (settle HZ) (\<lambda>(ds, d, g). key_code g d) (\<lambda>(ds, d, g). d < 3) (buttons_read False False 1)
    (\<lambda>s. ev_timer s \<noteq> 0) all_key_val (\<lambda>s. kfault s = None) S path (button_fops E pins) fd"
  by (intro key_node.intro settled.key_events_axioms assms key_node_axioms.intro) (simp_all add: fops_defs)

lemma forth_polled_node:
  assumes "device_node S path (forth_drv_fops E pins) fd"
  shows "polled_node forth_env (\<lambda>(g, d). key_code g d) (\<lambda>(g, d). d < 3) (forth_drv_read False 1)
    (\<lambda>s. ev_press s \<noteq> 0) keyval btn_ok S path (forth_drv_fops E pins) fd"
proof -
  have "key_events forth_env (\<lambda>(g, d). key_code g d) (\<lambda>(g, d). d < 3) (forth_drv_read False 1)
    (\<lambda>s. ev_press s \<noteq> 0) keyval btn_ok"
    using forth.events.key_events_axioms by (simp add: forth_env_def case_prod_unfold)
  then show ?thesis
    by (intro polled_node.intro key_node.intro assms key_node_axioms.intro polled_node_axioms.intro)
      (auto simp: fops_defs btn_ok_def driver_defs exec_def)
qed

interpretation third_node: key_node third_env "\<lambda>(g, d). key_code g d" "\<lambda>(g, d). d < 3"
  "third_drv_read False 1" "\<lambda>s. ev_press s \<noteq> 0" keyval btn_ok
  "node_sys ''/dev/buttons'' (third_drv_fops E pins)" "''/dev/buttons''" "third_drv_fops E pins" 3 for E pins
  by (rule third_key_node) (rule node.device_node_axioms)

interpretation forth_node: polled_node forth_env "\<lambda>(g, d). key_code g d" "\<lambda>(g, d). d < 3"
  "forth_drv_read False 1" "\<lambda>s. ev_press s \<noteq> 0" keyval btn_ok
  "node_sys ''/dev/buttons'' (forth_drv_fops E pins)" "''/dev/buttons''" "forth_drv_fops E pins" 3 for E pins
  by (rule forth_polled_node) (rule node.device_node_axioms)

text \<open>Opening the nodes.\<close>

lemma third_opens:
  assumes "device_node S path (third_drv_fops E pins) fd" and "kfault s = None"
  shows "\<exists>s'. sys_open S path s = Done fd s' \<and> kfault s' = None \<and> ev_press s' = ev_press s \<and> keyval s' = keyval s"
  using assms device_node.open_node [OF assms(1), of _ s]
  by (simp add: fops_defs fop_status_def open_result_def exec_def driver_defs)

lemma forth_opens:
  assumes "device_node S path (forth_drv_fops E pins) fd" and "kfault s = None"
  shows "\<exists>s'. sys_open S path s = Done fd s' \<and> kfault s' = None \<and> ev_press s' = ev_press s \<and> keyval s' = keyval s"
  using assms device_node.open_node [OF assms(1), of _ s]
  by (simp add: fops_defs fop_status_def open_result_def exec_def driver_defs)

lemma buttons_opens:
  assumes "device_node S path (button_fops E pins) fd" and "kfault s = None" and "button_lock s \<noteq> 0"
  shows "\<exists>s'. sys_open S path s = Done fd s' \<and> kfault s' = None \<and> ev_timer s' = ev_timer s \<and>
    all_key_val s' = all_key_val s"
  using assms device_node.open_node [OF assms(1), of _ s]
  by (simp add: fops_defs open_result_def buttons_open_def driver_defs)





section \<open>fifthdrvtest.c\<close>

text \<open>
  \<open>main\<close> installs \<open>my_signal_fun\<close> for \<open>SIGIO\<close>, names itself the owner of the file and sets \<open>FASYNC\<close>; then it
  only sleeps. The kernel sends a \<open>SIGIO\<close> for each \<open>kill_fasync\<close> of the driver.
\<close>

definition fifthdrvtest_start :: "'s sys \<Rightarrow> 's \<Rightarrow> (int \<times> line list, 's) outcome" where
  "fifthdrvtest_start S s =
     and_then (sys_open S ''/dev/buttons'' s) (\<lambda>fd s.
     and_then (sys_getfl S fd s) (\<lambda>Oflags s.
     and_then (sys_setfl S fd (Oflags OR FASYNC) s) (\<lambda>ret s. Done (fd, cant_open fd) s)))"

definition my_signal_fun :: "'s sys \<Rightarrow> int \<Rightarrow> u8 \<Rightarrow> 's \<Rightarrow> (line, 's) outcome" where
  "my_signal_fun S fd junk s = and_then (sys_read S fd 1 s) (\<lambda>(ret, b) s.
     Done (Printf ''key_val: 0x%x'' [Num (uint (stored b junk))]) s)"

definition kills :: "kcall list \<Rightarrow> nat" where
  "kills t = count_list t (KWait KillFasync)"

text \<open>\<open>n\<close> counts the signals that have been handled.\<close>

inductive sigio_run :: "btn_state sys \<Rightarrow> int \<Rightarrow> btn_state \<Rightarrow> btn_state \<times> nat \<times> line list \<Rightarrow> bool"
  for S fd s0 where
  sigio_start: "sigio_run S fd s0 (s0, 0, [])"
| sigio_key: "sigio_run S fd s0 (s, n, out) \<Longrightarrow> d < 3 \<Longrightarrow> sigio_run S fd s0 (fifth_env (g, d) s, n, out)"
| sigio_signal: "sigio_run S fd s0 (s, n, out) \<Longrightarrow> n < kills (ktrace s) \<Longrightarrow>
    my_signal_fun S fd junk s = Done l s' \<Longrightarrow> sigio_run S fd s0 (s', Suc n, out @ [l])"

lemma fifth_env_run:
  assumes "kfault s = None" and "d < 3"
  shows "fifth_env (g, d) s = s\<lparr>keyval := key_code g d, ev_press := 1, ktrace := ktrace s @ [KWait WakeUp]\<rparr>"
  using assms by (simp add: fifth_env_def fifth_irq_eq third_irq_run)

lemma sigio_quiet:
  assumes "sigio_run S fd s0 c" and "kfault s0 = None" and "kills (ktrace s0) = 0"
  shows "kfault (fst c) = None \<and> kills (ktrace (fst c)) = 0 \<and> snd c = (0, [])"
  using assms
  by (induction rule: sigio_run.induct) (auto simp: fifth_env_run kills_def)

lemma sigio_keys:
  assumes "kfault s = None" and "\<forall>(g, d) \<in> set ps. d < 3"
  shows "sigio_run S fd s (fold fifth_env ps s, 0, []) \<and> kfault (fold fifth_env ps s) = None \<and>
    (ps \<noteq> [] \<longrightarrow> ev_press (fold fifth_env ps s) \<noteq> 0)"
  using assms(2)
proof (induction ps rule: rev_induct)
  case (snoc p ps)
  obtain g d where p: "p = (g, d)" by fastforce
  with snoc have ih: "sigio_run S fd s (fold fifth_env ps s, 0, [])" "kfault (fold fifth_env ps s) = None" "d < 3"
    by auto
  from sigio_run.sigio_key [OF ih(1,3), of g] fifth_env_run [OF ih(2,3), of g] ih(2) p show ?case by auto
qed (simp add: assms(1) sigio_run.sigio_start)

text \<open>
  C31: \<open>fifthdrvtest\<close> never prints a key: it opens the device and registers for \<open>SIGIO\<close>, which reaches the
  driver's \<open>fasync\<close> method, but no interrupt handler of \<open>fifth_drv\<close> calls \<open>kill_fasync\<close>. Whatever keys
  are pressed, the handler has set \<open>ev_press\<close> for the last of them, and no run in which each \<open>SIGIO\<close> is
  caused by a \<open>kill_fasync\<close> contains one.
\<close>

theorem fifthdrvtest_never_notified:
  assumes "device_node S ''/dev/buttons'' (fifth_drv_fops E pins helper) fd" and "kfault s = None"
    and "kills (ktrace s) = 0"
  shows "\<exists>s1. fifthdrvtest_start S s = Done (fd, []) s1 \<and> KWait (FasyncHelper True) \<in> set (ktrace s1) \<and>
    (\<forall>t n out. sigio_run S fd s1 (t, n, out) \<longrightarrow> kfault t = None \<and> n = 0 \<and> out = []) \<and>
    (\<forall>ps. (\<forall>(g, d) \<in> set ps. d < 3) \<and> ps \<noteq> [] \<longrightarrow>
      sigio_run S fd s1 (fold fifth_env ps s1, 0, []) \<and> ev_press (fold fifth_env ps s1) \<noteq> 0)"
proof -
  have fd: "0 \<le> fd" by (rule device_node.fd [OF assms(1)])
  obtain s0 where s0: "sys_open S ''/dev/buttons'' s = Done fd s0" "kfault s0 = None" "kills (ktrace s0) = 0"
    using device_node.open_node [OF assms(1), of _ s] assms(2,3)
    by (auto simp: fops_defs fop_status_def open_result_def exec_def driver_defs kills_def)
  obtain flags where flags: "flags AND FASYNC = 0" "sys_getfl S fd s0 = Done flags s0"
    "sys_setfl S fd (flags OR FASYNC) s0 =
      (if (flags OR FASYNC) AND FASYNC \<noteq> 0
       then map_outcome user_result id (fop_status (fifth_drv_fasync helper True) s0) else Done 0 s0)"
    using device_node.flags_node [OF assms(1), of "\<lambda>on. fop_status (fifth_drv_fasync helper on)" s0]
    by (auto simp: fops_defs)
  have "(flags OR FASYNC) AND FASYNC = FASYNC" by (simp add: and.commute)
  moreover have "FASYNC \<noteq> 0" by (simp add: FASYNC_def)
  ultimately have "\<exists>s1. sys_setfl S fd (flags OR FASYNC) s0 = Done (int helper) s1 \<and> kfault s1 = None \<and>
      ktrace s1 = ktrace s0 @ [KWait (FasyncHelper True)]"
    using flags(3) s0(2) by (simp add: fop_status_def exec_def driver_defs)
  then obtain s1 where s1: "fifthdrvtest_start S s = Done (fd, []) s1" "kfault s1 = None"
    "kills (ktrace s1) = 0" "KWait (FasyncHelper True) \<in> set (ktrace s1)"
    using s0 flags(2) fd by (auto simp: fifthdrvtest_start_def cant_open_def kills_def)
  with sigio_quiet [of S fd s1] sigio_keys [OF s1(2), of _ S fd] show ?thesis by fastforce
qed

theorem fifthdrvtest_never_notified_witness:
  "\<exists>s1. fifthdrvtest_start (node_sys ''/dev/buttons'' (fifth_drv_fops sample_env 0x100 0)) btn_initial =
      Done (3, []) s1 \<and>
    (\<forall>t n out. sigio_run (node_sys ''/dev/buttons'' (fifth_drv_fops sample_env 0x100 0)) 3 s1 (t, n, out) \<longrightarrow>
      out = [])"
proof -
  have "kfault btn_initial = None" "kills (ktrace btn_initial) = 0"
    by (simp_all add: btn_initial_def kills_def)
  from fifthdrvtest_never_notified [OF node.device_node_axioms [of _ "fifth_drv_fops sample_env 0x100 0"] this]
  show ?thesis by blast
qed

end
