(* ===== verification/Touchscreen.thy ===== *)
theory Touchscreen
  imports Timers "HOL-Library.Signed_Division"
begin

text \<open>
  The touch screen driver \<open>src/Drivers/11.ts/s3c_ts.c\<close>. The ADC registers are memory words at the mapped base address; their
  content does not change while one handler runs, between handlers the hardware may change the two
  data registers at will. The driver collects four samples, filters them and reports their
  average; \<open>touch_spec\<close> is the measurement cycle it implements, \<open>ts_step\<close> the relation of its
  handlers with the hardware and the timer, and \<open>stroke_events\<close> the events of a whole stroke.
\<close>

section \<open>Registers and state\<close>

text \<open>Offsets of the fields of \<open>struct s3c_ts_regs\<close>.\<close>

definition adccon :: u32 where "adccon = 0x00"
definition adctsc :: u32 where "adctsc = 0x04"
definition adcdly :: u32 where "adcdly = 0x08"
definition adcdat0 :: u32 where "adcdat0 = 0x0c"
definition adcdat1 :: u32 where "adcdat1 = 0x10"
definition adcupdn :: u32 where "adcupdn = 0x14"

lemmas ts_offsets = adccon_def adctsc_def adcdly_def adcdat0_def adcdat1_def adcupdn_def

record ts_state = time_state +
  s3c_ts_regs :: ptr
  ts_clk :: ptr
  s3c_ts_dev :: ptr
  ts_cnt :: nat
  ts_x :: "int list"
  ts_y :: "int list"

definition ts_initial :: "nat \<Rightarrow> (ptr \<Rightarrow> u32) \<Rightarrow> ts_state" where
  "ts_initial now m = \<lparr>ktrace = [], kmem = m, kfault = None, jiffies = now, timer = None,
     s3c_ts_regs = NULL, ts_clk = NULL, s3c_ts_dev = NULL, ts_cnt = 0, ts_x = [0, 0, 0, 0],
     ts_y = [0, 0, 0, 0]\<rparr>"

section \<open>s3c_ts.c\<close>

definition report_abs :: "axis \<Rightarrow> int \<Rightarrow> (ts_state, unit) state" where
  "report_abs a v = call (KInput (Report (AbsEvent a v)))"

definition report_key :: "key \<Rightarrow> int \<Rightarrow> (ts_state, unit) state" where
  "report_key k v = call (KInput (Report (KeyEvent k v)))"

definition input_sync :: "(ts_state, unit) state" where
  "input_sync = call (KInput (Report SynReport))"

definition pen_is_up :: "(ts_state, nat) state" where
  "pen_is_up = do {
     regs \<leftarrow> gets s3c_ts_regs;
     v \<leftarrow> load (regs + adcdat0);
     State_Monad.return (if v AND push_bit 15 1 \<noteq> 0 then 1 else 0) }"

definition enter_wait_pen_down_mode :: "(ts_state, unit) state" where
  "enter_wait_pen_down_mode = do { regs \<leftarrow> gets s3c_ts_regs; store (regs + adctsc) 0xd3 }"

definition enter_wait_pen_up_mode :: "(ts_state, unit) state" where
  "enter_wait_pen_up_mode = do { regs \<leftarrow> gets s3c_ts_regs; store (regs + adctsc) 0x1d3 }"

definition enter_measure_xy_mode :: "(ts_state, unit) state" where
  "enter_measure_xy_mode = do {
     regs \<leftarrow> gets s3c_ts_regs; store (regs + adctsc) (push_bit 3 1 OR push_bit 2 1) }"

definition start_adc :: "(ts_state, unit) state" where
  "start_adc = do { regs \<leftarrow> gets s3c_ts_regs; modify (regs + adccon) (\<lambda>r. r OR push_bit 0 1) }"

definition pen_up_func :: "(ts_state, unit) state" where
  "pen_up_func = do {
     report_abs ABS_PRESSURE 0;
     report_key BTN_TOUCH 0;
     input_sync;
     enter_wait_pen_down_mode }"

definition pen_down_func :: "(ts_state, unit) state" where
  "pen_down_func = do { enter_measure_xy_mode; start_adc }"

definition pen_down_up_irq :: "(ts_state, unit) state" where
  "pen_down_up_irq = do {
     ret \<leftarrow> pen_is_up;
     (if ret \<noteq> 0 then pen_up_func else pen_down_func) }"

definition s3c_ts_timer_function :: "(ts_state, unit) state" where
  "s3c_ts_timer_function = do {
     ret \<leftarrow> pen_is_up;
     (if ret \<noteq> 0 then pen_up_func else pen_down_func) }"

definition ERR_LIMIT :: int where
  "ERR_LIMIT = 10"

definition s3c_filter_ts :: "int list \<Rightarrow> int list \<Rightarrow> nat" where
  "s3c_filter_ts x y =
     (let avr_x = (x ! 0 + x ! 1) sdiv 2;
          avr_y = (y ! 0 + y ! 1) sdiv 2;
          det_x = (if x ! 2 > avr_x then x ! 2 - avr_x else avr_x - x ! 2);
          det_y = (if y ! 2 > avr_y then y ! 2 - avr_y else avr_y - y ! 2)
      in if det_x > ERR_LIMIT \<or> det_y > ERR_LIMIT then 0
      else
       (let avr_x = (x ! 1 + x ! 2) sdiv 2;
            avr_y = (y ! 1 + y ! 2) sdiv 2;
            det_x = (if x ! 3 > avr_x then x ! 3 - avr_x else avr_x - x ! 3);
            det_y = (if y ! 3 > avr_y then y ! 3 - avr_y else avr_y - y ! 3)
        in if det_x > ERR_LIMIT \<or> det_y > ERR_LIMIT then 0 else 1))"

text \<open>\<open>x[cnt] = v\<close>, a fault outside the array of four.\<close>

definition set_sample :: "nat \<Rightarrow> int \<Rightarrow> int \<Rightarrow> (ts_state, unit) state" where
  "set_sample i v w =
     (if i < 4 then upd (\<lambda>s. s\<lparr>ts_x := (ts_x s)[i := v], ts_y := (ts_y s)[i := w]\<rparr>)
      else panic OutOfBounds)"

definition adc_irq :: "nat \<Rightarrow> (ts_state, unit) state" where
  "adc_irq HZ = do {
     regs \<leftarrow> gets s3c_ts_regs;
     dat0 \<leftarrow> load (regs + adcdat0);
     dat1 \<leftarrow> load (regs + adcdat1);
     ret \<leftarrow> pen_is_up;
     (if ret \<noteq> 0 then do {
        upd (\<lambda>s. s\<lparr>ts_cnt := 0\<rparr>);
        pen_up_func }
      else do {
        cnt \<leftarrow> gets ts_cnt;
        set_sample cnt (uint (dat0 AND 0x3ff)) (uint (dat1 AND 0x3ff));
        upd (\<lambda>s. s\<lparr>ts_cnt := ts_cnt s + 1\<rparr>);
        cnt \<leftarrow> gets ts_cnt;
        (if cnt = 4 then do {
           upd (\<lambda>s. s\<lparr>ts_cnt := 0\<rparr>);
           x \<leftarrow> gets ts_x;
           y \<leftarrow> gets ts_y;
           (if s3c_filter_ts x y \<noteq> 0 then do {
              report_abs ABS_X ((x ! 0 + x ! 1 + x ! 2 + x ! 3) sdiv 4);
              report_abs ABS_Y ((y ! 0 + y ! 1 + y ! 2 + y ! 3) sdiv 4);
              report_abs ABS_PRESSURE 1;
              report_key BTN_TOUCH 1;
              input_sync }
            else State_Monad.return ());
           enter_wait_pen_up_mode;
           now \<leftarrow> gets jiffies;
           mod_timer (now + HZ div 100) }
         else pen_down_func) }) }"

definition s3c_ts_init :: "kenv \<Rightarrow> (ts_state, nat) state" where
  "s3c_ts_init E = do {
     dev \<leftarrow> input_allocate_device E;
     upd (\<lambda>s. s\<lparr>s3c_ts_dev := dev\<rparr>);
     deref dev;
     call (KInput (SetEvbit EV_KEY));
     call (KInput (SetEvbit EV_ABS));
     call (KInput (SetKeybit BTN_TOUCH));
     call (KInput (SetAbsParams ABS_X 0 0x3FF));
     call (KInput (SetAbsParams ABS_Y 0 0x3FF));
     call (KInput (SetAbsParams ABS_PRESSURE 0 1));
     call (KInput (InputRegister dev));
     clk \<leftarrow> clk_get E ''adc'';
     upd (\<lambda>s. s\<lparr>ts_clk := clk\<rparr>);
     call (KClk (ClkEnable clk));
     regs \<leftarrow> ioremap E 0x58000000 24;
     upd (\<lambda>s. s\<lparr>s3c_ts_regs := regs\<rparr>);
     modify (regs + adccon) (\<lambda>r. r OR (push_bit 14 1 OR push_bit 6 49));
     store (regs + adcdly) 0xffff;
     request_irq E IRQ_TC NULL;
     request_irq E IRQ_ADC NULL;
     add_static_timer;
     enter_wait_pen_down_mode;
     State_Monad.return 0 }"

definition s3c_ts_exit :: "(ts_state, unit) state" where
  "s3c_ts_exit = do {
     del_timer;
     call (KIrq (FreeIrq IRQ_TC NULL));
     call (KIrq (FreeIrq IRQ_ADC NULL));
     regs \<leftarrow> gets s3c_ts_regs;
     call (KMap (Iounmap regs));
     clk \<leftarrow> gets ts_clk;
     (if clk \<noteq> NULL then do {
        call (KClk (ClkDisable clk));
        call (KClk (ClkPut clk));
        upd (\<lambda>s. s\<lparr>ts_clk := NULL\<rparr>) }
      else State_Monad.return ());
     dev \<leftarrow> gets s3c_ts_dev;
     call (KInput (InputUnregister dev));
     call (KInput (InputFree dev)) }"

declare report_abs_def [driver_defs] report_key_def [driver_defs] input_sync_def [driver_defs]
  pen_is_up_def [driver_defs] enter_wait_pen_down_mode_def [driver_defs]
  enter_wait_pen_up_mode_def [driver_defs] enter_measure_xy_mode_def [driver_defs]
  start_adc_def [driver_defs] pen_up_func_def [driver_defs] pen_down_func_def [driver_defs]
  pen_down_up_irq_def [driver_defs] s3c_ts_timer_function_def [driver_defs]
  set_sample_def [driver_defs] s3c_ts_init_def [driver_defs] s3c_ts_exit_def [driver_defs]

section \<open>The measurement cycle\<close>

text \<open>
  What one ADC interrupt does, over the list of samples taken so far: a lifted pen drops them, the
  fourth sample ends the cycle with a report if the filter accepts, any other starts the next
  conversion.
\<close>

datatype ts_mode = WaitDown | WaitUp | MeasureXY

definition mode_word :: "ts_mode \<Rightarrow> u32" where
  "mode_word m = (case m of WaitDown \<Rightarrow> 0xd3 | WaitUp \<Rightarrow> 0x1d3 | MeasureXY \<Rightarrow> 0xc)"

definition near :: "int \<Rightarrow> int \<Rightarrow> int \<Rightarrow> bool" where
  "near a b c \<longleftrightarrow> \<bar>c - (a + b) div 2\<bar> \<le> 10"

definition accept :: "(int \<times> int) list \<Rightarrow> bool" where
  "accept p \<longleftrightarrow> near (fst (p ! 0)) (fst (p ! 1)) (fst (p ! 2)) \<and>
     near (snd (p ! 0)) (snd (p ! 1)) (snd (p ! 2)) \<and>
     near (fst (p ! 1)) (fst (p ! 2)) (fst (p ! 3)) \<and>
     near (snd (p ! 1)) (snd (p ! 2)) (snd (p ! 3))"

definition average :: "int list \<Rightarrow> int" where
  "average v = sum_list v div 4"

definition down_reports :: "(int \<times> int) list \<Rightarrow> input_report list" where
  "down_reports p = [AbsEvent ABS_X (average (map fst p)), AbsEvent ABS_Y (average (map snd p)),
     AbsEvent ABS_PRESSURE 1, KeyEvent BTN_TOUCH 1, SynReport]"

definition up_reports :: "input_report list" where
  "up_reports = [AbsEvent ABS_PRESSURE 0, KeyEvent BTN_TOUCH 0, SynReport]"

definition touch_spec ::
  "bool \<Rightarrow> int \<times> int \<Rightarrow> (int \<times> int) list \<Rightarrow> (int \<times> int) list \<times> input_report list \<times> ts_mode" where
  "touch_spec up p samples =
     (if up then ([], up_reports, WaitDown)
      else let all = samples @ [p] in
        if length all = 4 then ([], if accept all then down_reports all else [], WaitUp)
        else (all, [], MeasureXY))"

section \<open>The driver implements it\<close>

definition ts_mapped :: "ts_state \<Rightarrow> bool" where
  "ts_mapped s \<longleftrightarrow> (\<forall>off \<in> {adccon, adctsc, adcdly, adcdat0, adcdat1}. s3c_ts_regs s + off \<noteq> NULL)"

definition ts_inv :: "ts_state \<Rightarrow> bool" where
  "ts_inv s \<longleftrightarrow> kfault s = None \<and> ts_mapped s \<and> ts_cnt s < 4 \<and> length (ts_x s) = 4 \<and>
     length (ts_y s) = 4 \<and> set (ts_x s) \<union> set (ts_y s) \<subseteq> {0..1023}"

definition ts_samples :: "ts_state \<Rightarrow> (int \<times> int) list" where
  "ts_samples s = take (ts_cnt s) (zip (ts_x s) (ts_y s))"

definition ts_up :: "ts_state \<Rightarrow> bool" where
  "ts_up s \<longleftrightarrow> bit (kmem s (s3c_ts_regs s + adcdat0)) 15"

definition ts_sample :: "ts_state \<Rightarrow> int \<times> int" where
  "ts_sample s = (uint (kmem s (s3c_ts_regs s + adcdat0) AND 0x3ff),
     uint (kmem s (s3c_ts_regs s + adcdat1) AND 0x3ff))"

definition ts_mode_reg :: "ts_state \<Rightarrow> u32" where
  "ts_mode_reg s = kmem s (s3c_ts_regs s + adctsc)"

lemma sdiv_nonneg: "0 \<le> a \<Longrightarrow> 0 \<le> b \<Longrightarrow> a sdiv b = a div (b :: int)"
  by (auto simp: signed_divide_int_def sgn_if)

lemma sample_range: "uint (w AND 0x3ff :: u32) \<in> {0..1023}"
proof -
  have "w AND 0x3ff \<le> 0x3ff" by (rule word_and_le1)
  then have "uint (w AND 0x3ff) \<le> uint (0x3ff :: u32)" by (simp only: word_le_def)
  then show ?thesis by simp
qed

lemma length_4: "length xs = 4 \<longleftrightarrow> (\<exists>a b c d. xs = [a, b, c, d])"
  by (auto simp: length_Suc_conv numeral_eq_Suc)

lemma deviation:
  assumes "0 \<le> a" and "0 \<le> b"
  shows "(if c > (a + b) sdiv 2 then c - (a + b) sdiv 2 else (a + b) sdiv 2 - c) > ERR_LIMIT \<longleftrightarrow>
    \<not> near a b c"
proof -
  have "(if c > m then c - m else m - c) = \<bar>c - m\<bar>" for m :: int by simp
  with assms show ?thesis by (simp add: near_def ERR_LIMIT_def sdiv_nonneg not_le)
qed

lemma filter_accept:
  assumes "length x = 4" and "length y = 4" and "set x \<union> set y \<subseteq> {0..1023}"
  shows "s3c_filter_ts x y = (if accept (zip x y) then 1 else 0)"
proof -
  have "\<forall>v \<in> set x \<union> set y. 0 \<le> v" using assms(3) by fastforce
  then have "0 \<le> x ! i" "0 \<le> y ! i" if "i < 4" for i
    using assms(1,2) that by simp_all
  then have dev:
    "(if x ! 2 > (x ! 0 + x ! 1) sdiv 2 then x ! 2 - (x ! 0 + x ! 1) sdiv 2
      else (x ! 0 + x ! 1) sdiv 2 - x ! 2) > ERR_LIMIT \<longleftrightarrow> \<not> near (x ! 0) (x ! 1) (x ! 2)"
    "(if y ! 2 > (y ! 0 + y ! 1) sdiv 2 then y ! 2 - (y ! 0 + y ! 1) sdiv 2
      else (y ! 0 + y ! 1) sdiv 2 - y ! 2) > ERR_LIMIT \<longleftrightarrow> \<not> near (y ! 0) (y ! 1) (y ! 2)"
    "(if x ! 3 > (x ! 1 + x ! 2) sdiv 2 then x ! 3 - (x ! 1 + x ! 2) sdiv 2
      else (x ! 1 + x ! 2) sdiv 2 - x ! 3) > ERR_LIMIT \<longleftrightarrow> \<not> near (x ! 1) (x ! 2) (x ! 3)"
    "(if y ! 3 > (y ! 1 + y ! 2) sdiv 2 then y ! 3 - (y ! 1 + y ! 2) sdiv 2
      else (y ! 1 + y ! 2) sdiv 2 - y ! 3) > ERR_LIMIT \<longleftrightarrow> \<not> near (y ! 1) (y ! 2) (y ! 3)"
    by (intro deviation; simp)+
  have nth: "zip x y ! i = (x ! i, y ! i)" if "i < 4" for i
    using assms that by simp
  have acc: "accept (zip x y) \<longleftrightarrow> near (x ! 0) (x ! 1) (x ! 2) \<and> near (y ! 0) (y ! 1) (y ! 2) \<and>
      near (x ! 1) (x ! 2) (x ! 3) \<and> near (y ! 1) (y ! 2) (y ! 3)"
    by (simp add: accept_def nth)
  show ?thesis
    unfolding s3c_filter_ts_def Let_def dev acc by auto
qed

lemma pen_is_up_run:
  assumes "kfault s = None" and "ts_mapped s"
  shows "run_state pen_is_up s = (if ts_up s then 1 else 0, s)"
proof -
  have "w AND 0x8000 = 0 \<longleftrightarrow> \<not> bit w 15" for w :: u32
    using and_exp_eq_0_iff_not_bit [of w 15] by simp
  with assms show ?thesis by (simp add: pen_is_up_def ts_mapped_def ts_up_def)
qed

lemma pen_up_run:
  assumes "kfault s = None" and "ts_mapped s"
  shows "run_state pen_up_func s = ((), s\<lparr>
     ktrace := ktrace s @ map (\<lambda>r. KInput (Report r)) up_reports @
       [KMap (WriteReg (s3c_ts_regs s + adctsc) 0xd3)],
     kmem := (kmem s)(s3c_ts_regs s + adctsc := 0xd3)\<rparr>)"
  using assms
  by (simp add: pen_up_func_def report_abs_def report_key_def input_sync_def
      enter_wait_pen_down_mode_def ts_mapped_def up_reports_def)

lemma pen_down_run:
  assumes "kfault s = None" and "ts_mapped s"
  shows "run_state pen_down_func s = ((), s\<lparr>
     ktrace := ktrace s @ [KMap (WriteReg (s3c_ts_regs s + adctsc) 0xc),
       KMap (WriteReg (s3c_ts_regs s + adccon) (kmem s (s3c_ts_regs s + adccon) OR 1))],
     kmem := (kmem s)(s3c_ts_regs s + adctsc := 0xc,
       s3c_ts_regs s + adccon := kmem s (s3c_ts_regs s + adccon) OR 1)\<rparr>)"
  using assms
  by (simp add: pen_down_func_def enter_measure_xy_mode_def start_adc_def ts_mapped_def ts_offsets)

lemma take_zip_update:
  assumes "n < length x" and "n < length y"
  shows "take (Suc n) (zip (x[n := v]) (y[n := w])) = take n (zip x y) @ [(v, w)]"
  using assms by (simp add: take_Suc_conv_app_nth take_zip)

lemma average_4:
  assumes "length x = 4" and "\<forall>v \<in> set x. 0 \<le> v"
  shows "(x ! 0 + x ! 1 + x ! 2 + x ! 3) sdiv 4 = average x"
proof -
  from assms(1) obtain a b c d where x: "x = [a, b, c, d]" unfolding length_4 by blast
  have sum: "x ! 0 + x ! 1 + x ! 2 + x ! 3 = sum_list x" by (simp add: x)
  show ?thesis
    unfolding sum average_def using assms(2) by (intro sdiv_nonneg sum_list_nonneg) auto
qed

text \<open>What one handler leaves alone.\<close>

definition ts_same :: "ts_state \<Rightarrow> ts_state \<Rightarrow> bool" where
  "ts_same s t \<longleftrightarrow> kfault t = kfault s \<and> s3c_ts_regs t = s3c_ts_regs s \<and> jiffies t = jiffies s \<and>
     ts_x t = ts_x s \<and> ts_y t = ts_y s \<and> ts_cnt t = ts_cnt s \<and> timer t = timer s"

lemma pen_up_effect:
  assumes "kfault s = None" and "ts_mapped s"
  shows "\<exists>t. run_state pen_up_func s = ((), t) \<and> ts_same s t \<and> ts_mode_reg t = mode_word WaitDown \<and>
    input_reports (ktrace t) = input_reports (ktrace s) @ up_reports"
  using assms
  by (simp add: pen_up_run ts_same_def ts_mode_reg_def mode_word_def up_reports_def)

lemma pen_down_effect:
  assumes "kfault s = None" and "ts_mapped s"
  shows "\<exists>t. run_state pen_down_func s = ((), t) \<and> ts_same s t \<and> ts_mode_reg t = mode_word MeasureXY \<and>
    input_reports (ktrace t) = input_reports (ktrace s)"
  using assms
  by (simp add: pen_down_run ts_same_def ts_mode_reg_def mode_word_def ts_offsets)

lemma adc_up:
  assumes "ts_inv s" and "ts_up s"
  shows "run_state (adc_irq HZ) s = run_state pen_up_func (s\<lparr>ts_cnt := 0\<rparr>)"
  using assms
  by (simp add: adc_irq_def pen_is_up_run ts_inv_def ts_mapped_def)

definition ts_put :: "ts_state \<Rightarrow> ts_state" where
  "ts_put s = s\<lparr>ts_x := (ts_x s)[ts_cnt s := fst (ts_sample s)],
     ts_y := (ts_y s)[ts_cnt s := snd (ts_sample s)], ts_cnt := Suc (ts_cnt s)\<rparr>"

lemma adc_next:
  assumes "ts_inv s" and "\<not> ts_up s" and "ts_cnt s \<noteq> 3"
  shows "run_state (adc_irq HZ) s = run_state pen_down_func (ts_put s)"
  using assms
  by (simp add: adc_irq_def pen_is_up_run ts_inv_def ts_mapped_def set_sample_def ts_put_def
      ts_sample_def)

lemma ts_put_samples:
  assumes "ts_inv s"
  shows "ts_samples (ts_put s) = ts_samples s @ [ts_sample s]"
  using assms by (simp add: ts_inv_def ts_samples_def ts_put_def take_zip_update)

lemma ts_put_range:
  assumes "ts_inv s"
  shows "length (ts_x (ts_put s)) = 4 \<and> length (ts_y (ts_put s)) = 4 \<and>
    set (ts_x (ts_put s)) \<union> set (ts_y (ts_put s)) \<subseteq> {0..1023}"
proof -
  have "fst (ts_sample s) \<in> {0..1023}" "snd (ts_sample s) \<in> {0..1023}"
    unfolding ts_sample_def fst_conv snd_conv by (rule sample_range)+
  with assms show ?thesis
    using set_update_subset_insert [of "ts_x s" "ts_cnt s" "fst (ts_sample s)"]
      set_update_subset_insert [of "ts_y s" "ts_cnt s" "snd (ts_sample s)"]
    by (auto simp: ts_inv_def ts_put_def)
qed

lemma adc_last:
  assumes "ts_inv s" and "\<not> ts_up s" and "ts_cnt s = 3"
  defines "all \<equiv> ts_samples s @ [ts_sample s]"
  shows "\<exists>t. run_state (adc_irq HZ) s = ((), t) \<and> ts_inv t \<and> ts_samples t = [] \<and>
    s3c_ts_regs t = s3c_ts_regs s \<and> jiffies t = jiffies s \<and>
    input_reports (ktrace t) = input_reports (ktrace s) @ (if accept all then down_reports all else []) \<and>
    ts_mode_reg t = mode_word WaitUp \<and> timer t = Some (jiffies s + HZ div 100)"
proof -
  let ?x = "(ts_x s)[3 := fst (ts_sample s)]" and ?y = "(ts_y s)[3 := snd (ts_sample s)]"
  have put: "ts_x (ts_put s) = ?x" "ts_y (ts_put s) = ?y" using assms(3) by (simp_all add: ts_put_def)
  note r = ts_put_range [OF assms(1), unfolded put]
  have all: "all = zip ?x ?y"
    using ts_put_samples [OF assms(1)] r assms(3)
    by (simp add: all_def ts_samples_def [of "ts_put s"] put) (simp add: ts_put_def)
  have filt: "s3c_filter_ts ?x ?y = (if accept all then 1 else 0)"
    unfolding all using r by (intro filter_accept) auto
  have pos: "\<forall>v \<in> set ?x. 0 \<le> v" "\<forall>v \<in> set ?y. 0 \<le> v" using r by fastforce+
  note avg = average_4 [OF _ pos(1)] average_4 [OF _ pos(2)]
  have fs: "uint (kmem s (s3c_ts_regs s + adcdat0) AND 0x3ff) = fst (ts_sample s)"
    "uint (kmem s (s3c_ts_regs s + adcdat1) AND 0x3ff) = snd (ts_sample s)"
    by (simp_all add: ts_sample_def)
  show ?thesis
    using assms(1-3) r filt avg
    by (simp add: adc_irq_def pen_is_up_run ts_inv_def ts_mapped_def set_sample_def fs
        enter_wait_pen_up_mode_def mod_timer_def report_abs_def report_key_def input_sync_def
        down_reports_def all ts_mode_reg_def mode_word_def ts_samples_def)
qed

lemma ts_same_inv: "ts_same s t \<Longrightarrow> ts_inv s \<Longrightarrow> ts_inv t"
  by (simp add: ts_same_def ts_inv_def ts_mapped_def)

lemma ts_same_samples: "ts_same s t \<Longrightarrow> ts_samples t = ts_samples s"
  by (simp add: ts_same_def ts_samples_def)

lemma ts_inv_basic: "ts_inv s \<Longrightarrow> kfault s = None \<and> ts_mapped s"
  by (simp add: ts_inv_def)

lemma adc_refines:
  assumes "ts_inv s"
  shows "\<exists>t samples' reps m. run_state (adc_irq HZ) s = ((), t) \<and>
    touch_spec (ts_up s) (ts_sample s) (ts_samples s) = (samples', reps, m) \<and>
    ts_inv t \<and> ts_samples t = samples' \<and>
    input_reports (ktrace t) = input_reports (ktrace s) @ reps \<and>
    ts_mode_reg t = mode_word m \<and> s3c_ts_regs t = s3c_ts_regs s \<and> jiffies t = jiffies s \<and>
    timer t = (if m = WaitUp then Some (jiffies s + HZ div 100) else timer s)"
proof -
  have len: "length (ts_samples s) = ts_cnt s" using assms by (simp add: ts_samples_def ts_inv_def)
  consider (up) "ts_up s" | (last) "\<not> ts_up s" "ts_cnt s = 3" | (more) "\<not> ts_up s" "ts_cnt s \<noteq> 3"
    by blast
  then show ?thesis
  proof cases
    case up
    let ?s = "s\<lparr>ts_cnt := 0\<rparr>"
    have inv: "ts_inv ?s" using assms by (simp add: ts_inv_def ts_mapped_def)
    from pen_up_effect [of ?s] ts_inv_basic [OF inv] obtain t where t:
      "run_state pen_up_func ?s = ((), t)" "ts_same ?s t" "ts_mode_reg t = mode_word WaitDown"
      "input_reports (ktrace t) = input_reports (ktrace s) @ up_reports"
      by auto
    with up adc_up [OF assms up, of HZ] ts_same_inv [OF t(2) inv] ts_same_samples [OF t(2)]
    show ?thesis by (simp add: touch_spec_def ts_same_def ts_samples_def)
  next
    case last
    with adc_last [OF assms last, of HZ] len show ?thesis
      by (cases "accept (ts_samples s @ [ts_sample s])") (auto simp add: touch_spec_def Let_def)
  next
    case more
    let ?s = "ts_put s"
    have "ts_cnt s < 4" using assms by (simp add: ts_inv_def)
    with more(2) have "ts_cnt ?s < 4" by (simp add: ts_put_def)
    with ts_put_range [OF assms] assms have inv: "ts_inv ?s"
      by (simp add: ts_inv_def ts_mapped_def) (simp add: ts_put_def)
    from pen_down_effect [of ?s] ts_inv_basic [OF inv] obtain t where t:
      "run_state pen_down_func ?s = ((), t)" "ts_same ?s t" "ts_mode_reg t = mode_word MeasureXY"
      "input_reports (ktrace t) = input_reports (ktrace ?s)"
      by auto
    with more adc_next [OF assms more, of HZ] ts_same_inv [OF t(2) inv] ts_same_samples [OF t(2)]
      ts_put_samples [OF assms] len
    show ?thesis by (simp add: touch_spec_def ts_same_def Let_def) (simp add: ts_put_def)
  qed
qed

section \<open>Handlers, hardware and time\<close>

definition ts_expire :: "ts_state \<Rightarrow> ts_state" where
  "ts_expire s = snd (run_state s3c_ts_timer_function (s\<lparr>timer := None\<rparr>))"

inductive ts_step :: "nat \<Rightarrow> ts_state \<Rightarrow> ts_state \<Rightarrow> bool" for HZ where
  hardware: "ts_step HZ s (s\<lparr>kmem := (kmem s)(s3c_ts_regs s + adcdat0 := a,
    s3c_ts_regs s + adcdat1 := b)\<rparr>)"
| time: "ts_step HZ s (tick s)"
| pen: "run_state pen_down_up_irq s = ((), t) \<Longrightarrow> ts_step HZ s t"
| adc: "run_state (adc_irq HZ) s = ((), t) \<Longrightarrow> ts_step HZ s t"
| expired: "timer s = Some e \<Longrightarrow> e \<le> jiffies s \<Longrightarrow> ts_step HZ s (ts_expire s)"

inductive ts_reachable :: "nat \<Rightarrow> ts_state \<Rightarrow> ts_state \<Rightarrow> bool" for HZ s0 where
  ts_start: "ts_reachable HZ s0 s0"
| ts_next: "ts_reachable HZ s0 s \<Longrightarrow> ts_step HZ s t \<Longrightarrow> ts_reachable HZ s0 t"

text \<open>The touch state user space sees: the last \<open>BTN_TOUCH\<close> report.\<close>

definition touching :: "input_report list \<Rightarrow> bool" where
  "touching rs = foldl (\<lambda>b r. case r of KeyEvent BTN_TOUCH v \<Rightarrow> v \<noteq> 0 | _ \<Rightarrow> b) False rs"

fun in_range :: "input_report \<Rightarrow> bool" where
  "in_range (AbsEvent ABS_PRESSURE v) \<longleftrightarrow> v \<in> {0..1}"
| "in_range (AbsEvent a v) \<longleftrightarrow> v \<in> {0..1023}"
| "in_range (KeyEvent k v) \<longleftrightarrow> k = BTN_TOUCH \<and> v \<in> {0..1}"
| "in_range SynReport \<longleftrightarrow> True"

definition ts_safe :: "ts_state \<Rightarrow> bool" where
  "ts_safe s \<longleftrightarrow> ts_inv s \<and> list_all in_range (input_reports (ktrace s)) \<and>
     ts_mode_reg s \<in> range mode_word \<and>
     (ts_mode_reg s = mode_word WaitUp \<longrightarrow> timer s \<noteq> None) \<and>
     (ts_mode_reg s = mode_word WaitDown \<longrightarrow> \<not> touching (input_reports (ktrace s)))"

lemma mode_word_eq [simp]: "mode_word m = mode_word n \<longleftrightarrow> m = n"
  by (cases m; cases n) (simp_all add: mode_word_def)

lemma touching_append [simp]:
  "touching (rs @ up_reports) = False" "touching (rs @ down_reports p) = True"
  by (simp_all add: touching_def up_reports_def down_reports_def)

lemma sum_list_range:
  "\<forall>v \<in> set xs. lo \<le> v \<and> v \<le> (hi :: int) \<Longrightarrow>
    lo * int (length xs) \<le> sum_list xs \<and> sum_list xs \<le> hi * int (length xs)"
  by (induction xs) (auto simp: algebra_simps)

lemma average_range:
  assumes "length xs = 4" and "\<forall>v \<in> set xs. lo \<le> v \<and> v \<le> hi"
  shows "lo \<le> average xs \<and> average xs \<le> hi"
proof -
  have "lo * 4 \<le> sum_list xs" "sum_list xs \<le> hi * 4"
    using sum_list_range [OF assms(2)] assms(1) by simp_all
  then show ?thesis unfolding average_def by presburger
qed

lemma samples_range:
  assumes "ts_inv s"
  shows "set (map fst (ts_samples s)) \<union> set (map snd (ts_samples s)) \<subseteq> {0..1023}"
proof -
  have "set (ts_samples s) \<subseteq> set (ts_x s) \<times> set (ts_y s)"
    unfolding ts_samples_def using set_take_subset set_zip_leftD set_zip_rightD by fastforce
  with assms show ?thesis by (auto simp: ts_inv_def)
qed

lemma touch_spec_reports_range:
  assumes "ts_inv s" and "touch_spec (ts_up s) (ts_sample s) (ts_samples s) = (l, reps, m)"
  shows "list_all in_range reps"
proof -
  let ?p = "ts_samples s @ [ts_sample s]"
  have "fst (ts_sample s) \<in> {0..1023}" "snd (ts_sample s) \<in> {0..1023}"
    unfolding ts_sample_def fst_conv snd_conv by (rule sample_range)+
  with samples_range [OF assms(1)] have
    "\<forall>v \<in> set (map fst ?p). 0 \<le> v \<and> v \<le> 1023" "\<forall>v \<in> set (map snd ?p). 0 \<le> v \<and> v \<le> 1023"
    by fastforce+
  then have "length ?p = 4 \<Longrightarrow> list_all in_range (down_reports ?p)"
    using average_range [of "map fst ?p" 0 1023] average_range [of "map snd ?p" 0 1023]
    by (simp add: down_reports_def)
  with assms(2) show ?thesis
    by (auto simp: touch_spec_def up_reports_def Let_def split: if_splits)
qed

lemma ts_safe_adc:
  assumes "ts_safe s" and "run_state (adc_irq HZ) s = ((), t)"
  shows "ts_safe t"
proof -
  from assms(1) have inv: "ts_inv s" by (simp add: ts_safe_def)
  from adc_refines [OF inv, of HZ] assms(2) obtain l reps m where r:
    "touch_spec (ts_up s) (ts_sample s) (ts_samples s) = (l, reps, m)" "ts_inv t"
    "input_reports (ktrace t) = input_reports (ktrace s) @ reps" "ts_mode_reg t = mode_word m"
    "timer t = (if m = WaitUp then Some (jiffies s + HZ div 100) else timer s)"
    by auto
  from r(1) have "m = WaitDown \<Longrightarrow> reps = up_reports"
    by (auto simp: touch_spec_def Let_def split: if_splits)
  with r touch_spec_reports_range [OF inv r(1)] assms(1) show ?thesis
    by (auto simp: ts_safe_def)
qed

text \<open>The pen interrupt and the timer do the same: report a lifted pen or start a measurement.\<close>

lemma ts_safe_pen:
  assumes "ts_inv s" and "list_all in_range (input_reports (ktrace s))"
  shows "\<exists>t. run_state pen_down_up_irq s = ((), t) \<and> ts_safe t \<and> s3c_ts_regs t = s3c_ts_regs s"
proof (cases "ts_up s")
  case True
  from pen_up_effect [of s] ts_inv_basic [OF assms(1)] obtain t where t:
    "run_state pen_up_func s = ((), t)" "ts_same s t" "ts_mode_reg t = mode_word WaitDown"
    "input_reports (ktrace t) = input_reports (ktrace s) @ up_reports"
    by auto
  have "list_all in_range up_reports" by (simp add: up_reports_def)
  with t True assms ts_same_inv [OF t(2)] ts_inv_basic [OF assms(1)] show ?thesis
    by (simp add: pen_down_up_irq_def pen_is_up_run ts_safe_def ts_same_def)
next
  case False
  from pen_down_effect [of s] ts_inv_basic [OF assms(1)] obtain t where t:
    "run_state pen_down_func s = ((), t)" "ts_same s t" "ts_mode_reg t = mode_word MeasureXY"
    "input_reports (ktrace t) = input_reports (ktrace s)"
    by auto
  with False assms ts_same_inv [OF t(2)] ts_inv_basic [OF assms(1)] show ?thesis
    by (simp add: pen_down_up_irq_def pen_is_up_run ts_safe_def ts_same_def)
qed

lemma timer_is_pen: "s3c_ts_timer_function = pen_down_up_irq"
  by (simp add: s3c_ts_timer_function_def pen_down_up_irq_def)

lemma ts_safe_step: "ts_step HZ s t \<Longrightarrow> ts_safe s \<Longrightarrow> ts_safe t"
proof (induction rule: ts_step.induct)
  case (hardware s a b)
  then show ?case
    by (simp add: ts_safe_def ts_inv_def ts_mapped_def ts_mode_reg_def ts_offsets)
next
  case (time s)
  then show ?case by (simp add: ts_safe_def ts_inv_def ts_mapped_def ts_mode_reg_def tick_def)
next
  case (pen s t)
  then show ?case using ts_safe_pen [of s] by (auto simp: ts_safe_def)
next
  case (adc s t)
  then show ?case by (blast intro: ts_safe_adc)
next
  case (expired s e)
  then show ?case
    using ts_safe_pen [of "s\<lparr>timer := None\<rparr>"]
    by (auto simp: ts_safe_def ts_expire_def timer_is_pen ts_inv_def ts_mapped_def)
qed

lemma ts_safe_reachable: "ts_reachable HZ s0 s \<Longrightarrow> ts_safe s0 \<Longrightarrow> ts_safe s"
  by (induction rule: ts_reachable.induct) (auto intro: ts_safe_step)

section \<open>Loading, measuring, unloading\<close>

lemma not_touching_Nil: "\<not> touching []"
  by (simp add: touching_def)

lemma length_samples: "ts_inv s \<Longrightarrow> length (ts_samples s) = ts_cnt s"
  by (simp add: ts_samples_def ts_inv_def)

lemma init_safe:
  assumes "e_input_allocate_device E \<noteq> NULL"
    and "\<forall>off \<in> {adccon, adctsc, adcdly, adcdat0, adcdat1}. e_ioremap E 0x58000000 24 + off \<noteq> NULL"
    and "exec (s3c_ts_init E) (ts_initial now m) = Inr (r, s0)"
  shows "ts_safe s0"
proof -
  have "ts_inv s0 \<and> ts_mode_reg s0 = 0xd3 \<and> input_reports (ktrace s0) = []"
    using assms
    by (auto simp: exec_Inr_iff s3c_ts_init_def kernel_calls ts_initial_def add_static_timer_def
        enter_wait_pen_down_mode_def ts_inv_def ts_mapped_def ts_mode_reg_def)
  moreover have "mode_word WaitDown = 0xd3" by (simp add: mode_word_def)
  ultimately show ?thesis
    unfolding ts_safe_def by (metis list.pred_inject(1) mode_word_eq not_touching_Nil rangeI ts_mode.distinct(1))
qed

text \<open>One conversion: the ADC stores a sample and interrupts.\<close>

definition ts_convert :: "nat \<Rightarrow> u32 \<times> u32 \<Rightarrow> ts_state \<Rightarrow> ts_state" where
  "ts_convert HZ d s = snd (run_state (adc_irq HZ) (s\<lparr>kmem := (kmem s)
     (s3c_ts_regs s + adcdat0 := fst d, s3c_ts_regs s + adcdat1 := snd d)\<rparr>))"

definition pos :: "u32 \<times> u32 \<Rightarrow> int \<times> int" where
  "pos d = (uint (fst d AND 0x3ff), uint (snd d AND 0x3ff))"

lemma convert_step:
  assumes "ts_inv s" and "\<not> bit (fst d) 15"
  shows "ts_inv (ts_convert HZ d s)"
    and "length (ts_samples s) \<noteq> 3 \<Longrightarrow> ts_samples (ts_convert HZ d s) = ts_samples s @ [pos d] \<and>
      input_reports (ktrace (ts_convert HZ d s)) = input_reports (ktrace s)"
    and "length (ts_samples s) = 3 \<Longrightarrow> ts_samples (ts_convert HZ d s) = [] \<and>
      input_reports (ktrace (ts_convert HZ d s)) = input_reports (ktrace s) @
        (if accept (ts_samples s @ [pos d]) then down_reports (ts_samples s @ [pos d]) else []) \<and>
      ts_mode_reg (ts_convert HZ d s) = mode_word WaitUp \<and>
      timer (ts_convert HZ d s) = Some (jiffies s + HZ div 100)"
    and "jiffies (ts_convert HZ d s) = jiffies s"
proof -
  let ?s = "s\<lparr>kmem := (kmem s)(s3c_ts_regs s + adcdat0 := fst d, s3c_ts_regs s + adcdat1 := snd d)\<rparr>"
  have inv: "ts_inv ?s" using assms(1) by (simp add: ts_inv_def ts_mapped_def)
  have up: "\<not> ts_up ?s" using assms(2) by (simp add: ts_up_def ts_offsets)
  have sample: "ts_sample ?s = pos d" by (simp add: ts_sample_def pos_def ts_offsets)
  have samples: "ts_samples ?s = ts_samples s" by (simp add: ts_samples_def)
  note r = adc_refines [OF inv, of HZ, unfolded sample samples]
  from r up show "ts_inv (ts_convert HZ d s)" by (auto simp: ts_convert_def)
  from r up show "jiffies (ts_convert HZ d s) = jiffies s" by (auto simp: ts_convert_def)
  show "ts_samples (ts_convert HZ d s) = ts_samples s @ [pos d] \<and>
      input_reports (ktrace (ts_convert HZ d s)) = input_reports (ktrace s)"
    if "length (ts_samples s) \<noteq> 3"
    using r up that by (auto simp: ts_convert_def touch_spec_def Let_def)
  show "ts_samples (ts_convert HZ d s) = [] \<and>
      input_reports (ktrace (ts_convert HZ d s)) = input_reports (ktrace s) @
        (if accept (ts_samples s @ [pos d]) then down_reports (ts_samples s @ [pos d]) else []) \<and>
      ts_mode_reg (ts_convert HZ d s) = mode_word WaitUp \<and>
      timer (ts_convert HZ d s) = Some (jiffies s + HZ div 100)"
    if "length (ts_samples s) = 3"
    using r up that by (auto simp: ts_convert_def touch_spec_def Let_def split: if_splits)
qed

lemma convert_four:
  assumes "ts_inv s" and "ts_samples s = []" and "\<forall>d \<in> set ds. \<not> bit (fst d) 15"
    and "length ds = 4"
  shows "let t = fold (ts_convert HZ) ds s; p = map pos ds in
    ts_inv t \<and> ts_samples t = [] \<and> ts_mode_reg t = mode_word WaitUp \<and>
    timer t = Some (jiffies s + HZ div 100) \<and> jiffies t = jiffies s \<and>
    input_reports (ktrace t) = input_reports (ktrace s) @ (if accept p then down_reports p else [])"
proof -
  from assms(4) obtain a b c d where ds: "ds = [a, b, c, d]" unfolding length_4 by blast
  with assms(3) have n: "\<not> bit (fst a) 15" "\<not> bit (fst b) 15" "\<not> bit (fst c) 15" "\<not> bit (fst d) 15"
    by simp_all
  note A = convert_step [OF assms(1) n(1), of HZ]
  note B = convert_step [OF A(1) n(2), of HZ]
  note C = convert_step [OF B(1) n(3), of HZ]
  note D = convert_step [OF C(1) n(4), of HZ]
  from assms(2) A(2) have a: "ts_samples (ts_convert HZ a s) = [pos a]" by simp
  with B(2) have b: "ts_samples (ts_convert HZ b (ts_convert HZ a s)) = [pos a, pos b]" by simp
  with C(2) have c: "ts_samples (ts_convert HZ c (ts_convert HZ b (ts_convert HZ a s))) =
    [pos a, pos b, pos c]" by simp
  show ?thesis
    using D(1,3,4) A(2,4) B(2,4) C(2,4) a b c assms(2) by (simp add: ds Let_def)
qed

section \<open>A whole stroke\<close>

text \<open>
  What the hardware and the clock do during a stroke, with the contents of the data registers at that
  moment: the pen interrupt, a finished conversion, and the passing of \<open>HZ/100\<close> after which the
  polling timer runs if it is due.
\<close>

datatype ts_event = Pen "u32 \<times> u32" | Convert "u32 \<times> u32" | Poll "u32 \<times> u32"

definition ts_data :: "u32 \<times> u32 \<Rightarrow> ts_state \<Rightarrow> ts_state" where
  "ts_data d s = s\<lparr>kmem := (kmem s)
     (s3c_ts_regs s + adcdat0 := fst d, s3c_ts_regs s + adcdat1 := snd d)\<rparr>"

definition ts_elapse :: "nat \<Rightarrow> ts_state \<Rightarrow> ts_state" where
  "ts_elapse n s = (let t = (tick ^^ n) s in
     case timer t of Some e \<Rightarrow> if e \<le> jiffies t then ts_expire t else t | None \<Rightarrow> t)"

fun ts_handle :: "nat \<Rightarrow> ts_event \<Rightarrow> ts_state \<Rightarrow> ts_state" where
  "ts_handle HZ (Pen d) s = snd (run_state pen_down_up_irq (ts_data d s))"
| "ts_handle HZ (Convert d) s = ts_convert HZ d s"
| "ts_handle HZ (Poll d) s = ts_elapse (HZ div 100) (ts_data d s)"

text \<open>One round of measuring, and the stroke: the pen comes down, is measured while it is held, and
  is lifted after the last measurement.\<close>

definition round_events :: "(u32 \<times> u32) list \<times> (u32 \<times> u32) \<Rightarrow> ts_event list" where
  "round_events m = map Convert (fst m) @ [Poll (snd m)]"

definition stroke_events ::
  "u32 \<times> u32 \<Rightarrow> ((u32 \<times> u32) list \<times> (u32 \<times> u32)) list \<Rightarrow> (u32 \<times> u32) list \<times> (u32 \<times> u32) \<Rightarrow> ts_event list"
where
  "stroke_events d ms m = Pen d # concat (map round_events ms) @ round_events m"

definition measured :: "(u32 \<times> u32) list \<times> (u32 \<times> u32) \<Rightarrow> input_report list" where
  "measured m = (if accept (map pos (fst m)) then down_reports (map pos (fst m)) else [])"

definition down_round :: "(u32 \<times> u32) list \<times> (u32 \<times> u32) \<Rightarrow> bool" where
  "down_round m \<longleftrightarrow> length (fst m) = 4 \<and> (\<forall>d \<in> set (fst m). \<not> bit (fst d) 15)"

lemma convert_handled: "ts_handle HZ \<circ> Convert = ts_convert HZ"
  by (intro ext) simp

lemma ticks: "(tick ^^ n) s = s\<lparr>jiffies := jiffies s + n\<rparr>"
  by (induction n) (simp_all add: tick_def)

lemma ts_data_keeps:
  "ts_inv (ts_data d s) = ts_inv s" "ts_samples (ts_data d s) = ts_samples s"
  "ktrace (ts_data d s) = ktrace s" "timer (ts_data d s) = timer s"
  "jiffies (ts_data d s) = jiffies s" "ts_up (ts_data d s) = bit (fst d) 15"
  by (simp_all add: ts_data_def ts_inv_def ts_mapped_def ts_samples_def ts_up_def ts_offsets)

lemma pen_effect:
  assumes "ts_inv s"
  shows "\<exists>t. run_state pen_down_up_irq s = ((), t) \<and> ts_same s t \<and>
    ts_mode_reg t = mode_word (if ts_up s then WaitDown else MeasureXY) \<and>
    input_reports (ktrace t) = input_reports (ktrace s) @ (if ts_up s then up_reports else [])"
  using pen_up_effect [of s] pen_down_effect [of s] ts_inv_basic [OF assms]
  by (auto simp: pen_down_up_irq_def pen_is_up_run)

lemma elapse_effect:
  assumes "ts_inv s" and "timer s = Some (jiffies s + n)"
  defines "t \<equiv> ts_elapse n s"
  shows "ts_inv t \<and> ts_samples t = ts_samples s \<and> timer t = None \<and> jiffies t = jiffies s + n \<and>
    ts_mode_reg t = mode_word (if ts_up s then WaitDown else MeasureXY) \<and>
    input_reports (ktrace t) = input_reports (ktrace s) @ (if ts_up s then up_reports else [])"
proof -
  let ?s = "s\<lparr>jiffies := jiffies s + n, timer := None\<rparr>"
  have inv: "ts_inv ?s" using assms(1) by (simp add: ts_inv_def ts_mapped_def)
  have same: "ts_up ?s = ts_up s" "ts_samples ?s = ts_samples s"
    by (simp_all add: ts_up_def ts_samples_def)
  have t: "t = snd (run_state pen_down_up_irq ?s)"
    using assms(2) by (simp add: t_def ts_elapse_def ticks ts_expire_def timer_is_pen)
  from pen_effect [OF inv] obtain u where u: "run_state pen_down_up_irq ?s = ((), u)" "ts_same ?s u"
    "ts_mode_reg u = mode_word (if ts_up s then WaitDown else MeasureXY)"
    "input_reports (ktrace u) = input_reports (ktrace s) @ (if ts_up s then up_reports else [])"
    by (auto simp: same)
  from u(2-) ts_same_inv [OF u(2) inv] ts_same_samples [OF u(2)] show ?thesis
    by (simp add: t u(1) same ts_same_def)
qed

lemma pen_down_handled:
  fixes HZ :: nat
  assumes "ts_inv s" and "\<not> bit (fst d) 15"
  defines "t \<equiv> ts_handle HZ (Pen d) s"
  shows "ts_inv t \<and> ts_samples t = ts_samples s \<and> jiffies t = jiffies s \<and>
    input_reports (ktrace t) = input_reports (ktrace s)"
proof -
  have inv: "ts_inv (ts_data d s)" using assms(1) by (simp add: ts_data_keeps)
  from pen_effect [OF inv] obtain u where
    u: "run_state pen_down_up_irq (ts_data d s) = ((), u)" "ts_same (ts_data d s) u"
    "input_reports (ktrace u) = input_reports (ktrace s)"
    using assms(2) by (auto simp: ts_data_keeps)
  from u(2,3) ts_same_inv [OF u(2) inv] ts_same_samples [OF u(2)] show ?thesis
    by (simp add: t_def u(1) ts_same_def ts_data_keeps)
qed

lemma round_effect:
  fixes HZ :: nat
  assumes "ts_inv s" and "ts_samples s = []" and "down_round m"
  defines "t \<equiv> fold (ts_handle HZ) (round_events m) s"
  shows "ts_inv t \<and> ts_samples t = [] \<and> timer t = None \<and> jiffies t = jiffies s + HZ div 100 \<and>
    ts_mode_reg t = mode_word (if bit (fst (snd m)) 15 then WaitDown else MeasureXY) \<and>
    input_reports (ktrace t) = input_reports (ktrace s) @ measured m @
      (if bit (fst (snd m)) 15 then up_reports else [])"
proof -
  let ?u = "fold (ts_convert HZ) (fst m) s"
  have u: "ts_inv ?u" "ts_samples ?u = []" "timer ?u = Some (jiffies s + HZ div 100)"
    "jiffies ?u = jiffies s"
    "input_reports (ktrace ?u) = input_reports (ktrace s) @ measured m"
    using convert_four [OF assms(1,2), of "fst m" HZ] assms(3)
    by (auto simp: Let_def down_round_def measured_def)
  have t: "t = ts_elapse (HZ div 100) (ts_data (snd m) ?u)"
    by (simp add: t_def round_events_def fold_map convert_handled)
  show ?thesis
    unfolding t using elapse_effect [of "ts_data (snd m) ?u" "HZ div 100"] u
    by (simp add: ts_data_keeps)
qed

lemma rounds_effect:
  fixes HZ :: nat
  assumes "ts_inv s" and "ts_samples s = []"
    and "\<forall>m \<in> set ms. down_round m \<and> \<not> bit (fst (snd m)) 15"
  defines "t \<equiv> fold (ts_handle HZ) (concat (map round_events ms)) s"
  shows "ts_inv t \<and> ts_samples t = [] \<and> jiffies t = jiffies s + length ms * (HZ div 100) \<and>
    input_reports (ktrace t) = input_reports (ktrace s) @ concat (map measured ms)"
  unfolding t_def using assms(1-3)
proof (induction ms arbitrary: s)
  case Nil
  then show ?case by simp
next
  case (Cons m ms)
  then have m: "down_round m" "\<not> bit (fst (snd m)) 15" by simp_all
  note r = round_effect [OF Cons.prems(1,2) m(1), of HZ]
  show ?case
    using Cons.IH [of "fold (ts_handle HZ) (round_events m) s"] Cons.prems(3) r m(2) by simp
qed

section \<open>Properties\<close>

text \<open>
  C9: The touch-screen driver keeps its promises from loading on. If the kernel maps the ADC registers
  and provides an input device, then in every state reached by pen interrupts, ADC interrupts, timer
  expiries, the passing of time and arbitrary new values in the data registers: nothing has faulted
  (the sample index stays inside the arrays of four); everything reported lies in the ranges declared
  with \<open>input_set_abs_params\<close>; the ADC is in one of its three modes; while it waits for the pen to
  be lifted the polling timer is armed, and while it waits for the pen to come down the last touch
  state reported is ``not touching''.
\<close>

theorem touchscreen_safe:
  assumes "e_input_allocate_device E \<noteq> NULL"
    and "\<forall>off \<in> {adccon, adctsc, adcdly, adcdat0, adcdat1}. e_ioremap E 0x58000000 24 + off \<noteq> NULL"
    and "exec (s3c_ts_init E) (ts_initial now m) = Inr (r, s0)"
    and "ts_reachable HZ s0 s"
  shows "kfault s = None \<and> ts_cnt s < 4 \<and> list_all in_range (input_reports (ktrace s)) \<and>
    (\<exists>md. ts_mode_reg s = mode_word md \<and> (md = WaitUp \<longrightarrow> timer s \<noteq> None) \<and>
      (md = WaitDown \<longrightarrow> \<not> touching (input_reports (ktrace s))))"
  using ts_safe_reachable [OF assms(4)] init_safe [OF assms(1-3)]
  by (auto simp: ts_safe_def ts_inv_def)

theorem touchscreen_safe_witness:
  "let s0 = snd (run_state (s3c_ts_init sample_env) (ts_initial 0 (\<lambda>_. 0)));
       s = snd (run_state pen_down_up_irq s0) in
   kfault s = None \<and> ts_cnt s < 4 \<and> list_all in_range (input_reports (ktrace s))"
proof -
  let ?init = "snd (run_state (s3c_ts_init sample_env) (ts_initial 0 (\<lambda>_. 0)))"
  let ?s = "snd (run_state pen_down_up_irq ?init)"
  have "e_input_allocate_device sample_env \<noteq> NULL"
    and "\<forall>off \<in> {adccon, adctsc, adcdly, adcdat0, adcdat1}.
      e_ioremap sample_env 0x58000000 24 + off \<noteq> NULL"
    by (simp_all add: sample_env_def ts_offsets)
  moreover have "exec (s3c_ts_init sample_env) (ts_initial 0 (\<lambda>_. 0)) = Inr (0, ?init)"
    by (simp add: sample_env_def ts_offsets driver_defs ts_initial_def exec_def)
  moreover have "run_state pen_down_up_irq ?init = ((), ?s)" by (rule prod_eqI) simp_all
  then have "ts_reachable 200 ?init ?s" by (rule ts_next [OF ts_start pen])
  ultimately show ?thesis
    using touchscreen_safe [of sample_env 0 "\<lambda>_. 0" 0 ?init 200 ?s] by (simp add: Let_def)
qed

text \<open>
  Four conversions with the pen down, starting with no samples, make one measurement: if each
  third and fourth sample is within 10 of the mean of the two before it in both coordinates, exactly
  one touch at the average of the four positions is reported, otherwise nothing is; either way the
  driver goes on to wait for the pen to be lifted and polls again after \<open>HZ/100\<close>.
\<close>

theorem four_conversions_measure:
  assumes "ts_inv s" and "ts_cnt s = 0" and "length ds = 4" and "\<forall>d \<in> set ds. \<not> bit (fst d) 15"
  shows "let t = fold (ts_convert HZ) ds s; p = map pos ds in
    ts_cnt t = 0 \<and> ts_mode_reg t = mode_word WaitUp \<and> timer t = Some (jiffies s + HZ div 100) \<and>
    input_reports (ktrace t) = input_reports (ktrace s) @ (if accept p then down_reports p else [])"
proof -
  from assms(1,2) have "ts_samples s = []" using length_samples [OF assms(1)] by simp
  from convert_four [OF assms(1) this assms(4,3), of HZ] show ?thesis
    using length_samples by (fastforce simp: Let_def)
qed

theorem four_conversions_measure_witness:
  "let t = fold (ts_convert 200) [(100, 200), (102, 198), (99, 205), (103, 201)]
     (snd (run_state (s3c_ts_init sample_env) (ts_initial 7 (\<lambda>_. 0)))) in
   timer t = Some 9 \<and> input_reports (ktrace t) =
     [AbsEvent ABS_X 101, AbsEvent ABS_Y 201, AbsEvent ABS_PRESSURE 1, KeyEvent BTN_TOUCH 1, SynReport]"
proof -
  let ?ds = "[(100, 200), (102, 198), (99, 205), (103, 201)] :: (u32 \<times> u32) list"
  let ?s = "snd (run_state (s3c_ts_init sample_env) (ts_initial 7 (\<lambda>_. 0)))"
  have s: "ts_inv ?s" "ts_cnt ?s = 0" "jiffies ?s = 7" "input_reports (ktrace ?s) = []"
    by (simp_all add: driver_defs sample_env_def ts_initial_def ts_inv_def ts_mapped_def ts_offsets)
  have "length ?ds = 4" "\<forall>d \<in> set ?ds. \<not> bit (fst d) 15" by simp_all
  from four_conversions_measure [OF s(1,2) this, of 200] s(3,4) show ?thesis
    by (simp add: Let_def pos_def accept_def near_def down_reports_def average_def)
qed

text \<open>
  C26: A stroke is reported from the pen coming down to its being lifted. From any state
  between two measurements: the pen comes down; while it is held the driver measures again and again,
  however long the stroke is, each measurement four conversions and \<open>HZ/100\<close> of waiting; the pen is
  lifted after the last measurement. Then user space has got exactly the measurements that passed the
  filter, each as the average of its four positions, in order, and then one ``not touching''; the
  lift was noticed at the first poll after it, \<open>HZ/100\<close> after the last conversion, although no
  interrupt announced it; and the driver waits for the next pen with no timer armed and no sample
  left over.
\<close>

theorem stroke_reported:
  assumes "ts_inv s" and "ts_cnt s = 0" and "\<not> bit (fst d) 15"
    and "\<forall>m \<in> set ms. down_round m \<and> \<not> bit (fst (snd m)) 15"
    and "down_round m" and "bit (fst (snd m)) 15"
  shows "let t = fold (ts_handle HZ) (stroke_events d ms m) s in
    input_reports (ktrace t) =
      input_reports (ktrace s) @ concat (map measured (ms @ [m])) @ up_reports \<and>
    jiffies t = jiffies s + Suc (length ms) * (HZ div 100) \<and> kfault t = None \<and> ts_cnt t = 0 \<and>
    ts_mode_reg t = mode_word WaitDown \<and> timer t = None"
proof -
  let ?p = "ts_handle HZ (Pen d) s"
  let ?q = "fold (ts_handle HZ) (concat (map round_events ms)) ?p"
  have p: "ts_inv ?p" "ts_samples ?p = []" "jiffies ?p = jiffies s"
    "input_reports (ktrace ?p) = input_reports (ktrace s)"
    using pen_down_handled [OF assms(1,3), of HZ] length_samples [OF assms(1)] assms(2) by simp_all
  have q: "ts_inv ?q" "ts_samples ?q = []" "jiffies ?q = jiffies s + length ms * (HZ div 100)"
    "input_reports (ktrace ?q) = input_reports (ktrace s) @ concat (map measured ms)"
    using rounds_effect [OF p(1,2) assms(4), of HZ] unfolding p(3,4) by blast+
  let ?t = "fold (ts_handle HZ) (round_events m) ?q"
  have t: "fold (ts_handle HZ) (stroke_events d ms m) s = ?t" by (simp add: stroke_events_def)
  have r: "ts_inv ?t" "ts_samples ?t = []" "timer ?t = None" "jiffies ?t = jiffies ?q + HZ div 100"
    "ts_mode_reg ?t = mode_word WaitDown"
    "input_reports (ktrace ?t) = input_reports (ktrace ?q) @ measured m @ up_reports"
    using round_effect [OF q(1,2) assms(5), of HZ] assms(6) by (simp_all only: if_True)
  have "ts_cnt ?t = 0" "kfault ?t = None"
    using length_samples [OF r(1)] r(2) ts_inv_basic [OF r(1)] by simp_all
  then show ?thesis unfolding t Let_def r q by simp
qed

theorem stroke_reported_witness:
  "let w = [(100, 200), (102, 198), (99, 205), (103, 201)]; v = [(110, 200), (112, 198), (300, 205), (103, 201)];
       t = fold (ts_handle 200) (stroke_events (0, 0) [(w, (0, 0)), (v, (0, 0))] (w, (0x8000, 0)))
         (snd (run_state (s3c_ts_init sample_env) (ts_initial 7 (\<lambda>_. 0)))) in
   jiffies t = 13 \<and> timer t = None \<and>
   input_reports (ktrace t) = down_reports (map pos w) @ down_reports (map pos w) @ up_reports"
proof -
  let ?w = "[(100, 200), (102, 198), (99, 205), (103, 201)] :: (u32 \<times> u32) list"
  let ?v = "[(110, 200), (112, 198), (300, 205), (103, 201)] :: (u32 \<times> u32) list"
  let ?s = "snd (run_state (s3c_ts_init sample_env) (ts_initial 7 (\<lambda>_. 0)))"
  have s: "ts_inv ?s" "ts_cnt ?s = 0" "jiffies ?s = 7" "input_reports (ktrace ?s) = []"
    by (simp_all add: driver_defs sample_env_def ts_initial_def ts_inv_def ts_mapped_def ts_offsets)
  have ms: "\<not> bit (fst (0, 0) :: u32) 15"
    "\<forall>m \<in> set [(?w, (0, 0) :: u32 \<times> u32), (?v, (0, 0))]. down_round m \<and> \<not> bit (fst (snd m)) 15"
    "down_round (?w, (0x8000, 0))" "bit (fst (snd (?w, (0x8000 :: u32, 0 :: u32)))) 15"
    by (simp_all add: down_round_def)
  have "accept (map pos ?w)" "\<not> accept (map pos ?v)"
    by (simp_all add: pos_def accept_def near_def)
  then show ?thesis
    using stroke_reported [OF s(1,2) ms, of 200] s(3,4) by (simp add: Let_def measured_def)
qed

text \<open>
  Unloading: \<open>s3c_ts_exit\<close> gives back both interrupts, the mapping and the clock, and the input
  device twice: the second time it is not the driver's any more.
\<close>

lemma ts_exit_frees_twice:
  "let t = snd (run_state s3c_ts_exit (snd (run_state (s3c_ts_init sample_env) (ts_initial 0 (\<lambda>_. 0)))))
   in kfault t = None \<and> account [] (butlast (ktrace t)) = Some [] \<and> account [] (ktrace t) = None"
  by (simp add: driver_defs ts_initial_def sample_env_def ts_offsets Let_def)

end
