(* ===== verification/Touchscreen_Ym.thy ===== *)
theory Touchscreen_Ym
  imports Touchscreen
begin

text \<open>
  \<open>src/ex_source/s3c_ts_ym.c\<close>, the earlier version of the touch screen driver: a module of its own with
  the same static variables (\<open>ts_state\<close>). It calls \<open>pen_is_up()\<close> in the conditions instead of through a
  local. Its functions are translated on their own and proved equal to those of \<open>s3c_ts.c\<close>, so that
  the measurement cycle and its safety carry over.
\<close>

definition ym_pen_is_up :: "(ts_state, nat) state" where
  "ym_pen_is_up = do {
     regs \<leftarrow> gets s3c_ts_regs;
     dat \<leftarrow> load (regs + adcdat0);
     State_Monad.return (if dat AND push_bit 15 1 \<noteq> 0 then 1 else 0) }"

definition ym_enter_wait_pen_down_mode :: "(ts_state, unit) state" where
  "ym_enter_wait_pen_down_mode = do { regs \<leftarrow> gets s3c_ts_regs; store (regs + adctsc) 0xd3 }"

definition ym_enter_wait_pen_up_mode :: "(ts_state, unit) state" where
  "ym_enter_wait_pen_up_mode = do { regs \<leftarrow> gets s3c_ts_regs; store (regs + adctsc) 0x1d3 }"

definition ym_enter_measure_xy_mode :: "(ts_state, unit) state" where
  "ym_enter_measure_xy_mode = do {
     regs \<leftarrow> gets s3c_ts_regs; store (regs + adctsc) (push_bit 3 1 OR push_bit 2 1) }"

definition ym_start_adc :: "(ts_state, unit) state" where
  "ym_start_adc = do { regs \<leftarrow> gets s3c_ts_regs; modify (regs + adccon) (\<lambda>r. r OR push_bit 0 1) }"

definition ym_pen_up_func :: "(ts_state, unit) state" where
  "ym_pen_up_func = do {
     report_abs ABS_PRESSURE 0;
     report_key BTN_TOUCH 0;
     input_sync;
     ym_enter_wait_pen_down_mode }"

definition ym_pen_down_func :: "(ts_state, unit) state" where
  "ym_pen_down_func = do { ym_enter_measure_xy_mode; ym_start_adc }"

definition ym_pen_down_up_irq :: "(ts_state, unit) state" where
  "ym_pen_down_up_irq =
     ym_pen_is_up \<bind> (\<lambda>up. if up \<noteq> 0 then ym_pen_up_func else ym_pen_down_func)"

definition ym_ts_timer_function :: "(ts_state, unit) state" where
  "ym_ts_timer_function =
     ym_pen_is_up \<bind> (\<lambda>up. if up \<noteq> 0 then ym_pen_up_func else ym_pen_down_func)"

text \<open>\<open>s3c_filter_ts\<close> with its two early returns: each step compares a sample with the mean of the two before.\<close>

definition ym_det :: "int \<Rightarrow> int \<Rightarrow> int" where
  "ym_det v avr = (if v > avr then v - avr else avr - v)"

definition ym_filter_ts :: "int list \<Rightarrow> int list \<Rightarrow> nat" where
  "ym_filter_ts x y =
     (if ym_det (x ! 2) ((x ! 0 + x ! 1) sdiv 2) > 10 \<or> ym_det (y ! 2) ((y ! 0 + y ! 1) sdiv 2) > 10 then 0
      else if ym_det (x ! 3) ((x ! 1 + x ! 2) sdiv 2) > 10 \<or> ym_det (y ! 3) ((y ! 1 + y ! 2) sdiv 2) > 10 then 0
      else 1)"

definition ym_adc_irq :: "nat \<Rightarrow> (ts_state, unit) state" where
  "ym_adc_irq HZ = do {
     regs \<leftarrow> gets s3c_ts_regs;
     dat0 \<leftarrow> load (regs + adcdat0);
     dat1 \<leftarrow> load (regs + adcdat1);
     ym_pen_is_up \<bind> (\<lambda>up. if up \<noteq> 0 then do {
        upd (\<lambda>s. s\<lparr>ts_cnt := 0\<rparr>);
        ym_pen_up_func }
      else do {
        cnt \<leftarrow> gets ts_cnt;
        set_sample cnt (uint (dat0 AND 0x3ff)) (uint (dat1 AND 0x3ff));
        upd (\<lambda>s. s\<lparr>ts_cnt := ts_cnt s + 1\<rparr>);
        cnt \<leftarrow> gets ts_cnt;
        (if cnt = 4 then do {
           upd (\<lambda>s. s\<lparr>ts_cnt := 0\<rparr>);
           x \<leftarrow> gets ts_x;
           y \<leftarrow> gets ts_y;
           (if ym_filter_ts x y \<noteq> 0 then do {
              report_abs ABS_X ((x ! 0 + x ! 1 + x ! 2 + x ! 3) sdiv 4);
              report_abs ABS_Y ((y ! 0 + y ! 1 + y ! 2 + y ! 3) sdiv 4);
              report_abs ABS_PRESSURE 1;
              report_key BTN_TOUCH 1;
              input_sync }
            else State_Monad.return ());
           ym_enter_wait_pen_up_mode;
           now \<leftarrow> gets jiffies;
           mod_timer (now + HZ div 100) }
         else ym_pen_down_func) }) }"

definition ym_ts_init :: "kenv \<Rightarrow> (ts_state, nat) state" where
  "ym_ts_init E = do {
     dev \<leftarrow> input_allocate_device E;
     upd (\<lambda>s. s\<lparr>s3c_ts_dev := dev\<rparr>);
     deref dev;
     call (KInput (SetEvbit EV_KEY));
     call (KInput (SetEvbit EV_ABS));
     call (KInput (SetKeybit BTN_TOUCH));
     call (KInput (SetAbsParams ABS_X 0 0x3FF));
     call (KInput (SetAbsParams ABS_Y 0 0x3FF));
     call (KInput (SetAbsParams ABS_PRESSURE 0 1));
     call (KInput (InputRegister dev));
     clk \<leftarrow> clk_get E ''adc'';
     upd (\<lambda>s. s\<lparr>ts_clk := clk\<rparr>);
     call (KClk (ClkEnable clk));
     regs \<leftarrow> ioremap E 0x58000000 24;
     upd (\<lambda>s. s\<lparr>s3c_ts_regs := regs\<rparr>);
     modify (regs + adccon) (\<lambda>r. r OR (push_bit 14 1 OR push_bit 6 49));
     store (regs + adcdly) 0xffff;
     request_irq E IRQ_TC NULL;
     request_irq E IRQ_ADC NULL;
     add_static_timer;
     ym_enter_wait_pen_down_mode;
     State_Monad.return 0 }"

definition ym_ts_exit :: "(ts_state, unit) state" where
  "ym_ts_exit = do {
     del_timer;
     call (KIrq (FreeIrq IRQ_TC NULL));
     call (KIrq (FreeIrq IRQ_ADC NULL));
     regs \<leftarrow> gets s3c_ts_regs;
     call (KMap (Iounmap regs));
     clk \<leftarrow> gets ts_clk;
     (if clk \<noteq> NULL then do {
        call (KClk (ClkDisable clk));
        call (KClk (ClkPut clk));
        upd (\<lambda>s. s\<lparr>ts_clk := NULL\<rparr>) }
      else State_Monad.return ());
     dev \<leftarrow> gets s3c_ts_dev;
     call (KInput (InputUnregister dev));
     call (KInput (InputFree dev)) }"

section \<open>Equal to s3c_ts.c\<close>

lemma ym_modes:
  "ym_pen_is_up = pen_is_up" "ym_enter_wait_pen_down_mode = enter_wait_pen_down_mode"
  "ym_enter_wait_pen_up_mode = enter_wait_pen_up_mode" "ym_enter_measure_xy_mode = enter_measure_xy_mode"
  "ym_start_adc = start_adc" "ym_pen_up_func = pen_up_func" "ym_pen_down_func = pen_down_func"
  by (simp_all add: ym_pen_is_up_def pen_is_up_def ym_enter_wait_pen_down_mode_def
      enter_wait_pen_down_mode_def ym_enter_wait_pen_up_mode_def enter_wait_pen_up_mode_def
      ym_enter_measure_xy_mode_def enter_measure_xy_mode_def ym_start_adc_def start_adc_def
      ym_pen_up_func_def pen_up_func_def ym_pen_down_func_def pen_down_func_def)

lemma ym_filter: "ym_filter_ts = s3c_filter_ts"
  by (intro ext) (simp add: ym_filter_ts_def s3c_filter_ts_def ym_det_def ERR_LIMIT_def Let_def)

theorem s3c_ts_ym_equivalent:
  "ym_pen_down_up_irq = pen_down_up_irq \<and> ym_ts_timer_function = s3c_ts_timer_function \<and>
   ym_adc_irq = adc_irq \<and> ym_ts_init = s3c_ts_init \<and> ym_ts_exit = s3c_ts_exit"
  unfolding ym_pen_down_up_irq_def ym_ts_timer_function_def fun_eq_iff ym_adc_irq_def ym_ts_init_def ym_ts_exit_def
    ym_modes ym_filter
  by (simp add: pen_down_up_irq_def s3c_ts_timer_function_def adc_irq_def s3c_ts_init_def s3c_ts_exit_def)

text \<open>So one conversion of the earlier driver refines the measurement cycle as well.\<close>

corollary ym_adc_refines:
  assumes "ts_inv s"
  shows "\<exists>t samples' reps m. run_state (ym_adc_irq HZ) s = ((), t) \<and>
    touch_spec (ts_up s) (ts_sample s) (ts_samples s) = (samples', reps, m) \<and> ts_inv t \<and>
    ts_samples t = samples' \<and> input_reports (ktrace t) = input_reports (ktrace s) @ reps \<and>
    ts_mode_reg t = mode_word m"
  using adc_refines [OF assms, of HZ] s3c_ts_ym_equivalent by auto

end
