(* ===== verification/Flash.thy ===== *)
theory Flash
  imports Kernel
begin

text \<open>
  The flash drivers: \<open>src/Drivers/14.nand/s3c_nand.c\<close> (NAND controller of the S3C2440),
  \<open>src/Drivers/15.nor/s3c_nor.c\<close> (NOR flash found by CFI or JEDEC probing) and the example
  \<open>src/ex_source/ex_mtd.c\<close> (a memory-mapped flash, a NAND board and three ECC layouts), and the outline
  \<open>src/ex_source/ex_nand.c\<close>. The exits of a
  \<open>goto\<close> chain are definitions named after their labels. \<open>places\<close> states how the kernel lays out
  partitions.
\<close>

section \<open>s3c_nand.c\<close>

record nand_state = kstate +
  s3c_mtd :: ptr
  nand_clk :: ptr
  s3c_nand_regs :: ptr
  io_addr_r :: ptr
  io_addr_w :: ptr

definition nand_initial :: "(ptr \<Rightarrow> u32) \<Rightarrow> nand_state" where
  "nand_initial m = \<lparr>ktrace = [], kmem = m, kfault = None, s3c_mtd = NULL, nand_clk = NULL,
     s3c_nand_regs = NULL, io_addr_r = NULL, io_addr_w = NULL\<rparr>"

definition TACLS :: u32 where "TACLS = 0"
definition TWRPH0 :: u32 where "TWRPH0 = 1"
definition TWRPH1 :: u32 where "TWRPH1 = 0"

text \<open>Offsets in \<open>struct s3c_nand_regs\<close>.\<close>

definition nfconf :: u32 where "nfconf = 0x00"
definition nfcont :: u32 where "nfcont = 0x04"
definition nfcmd :: u32 where "nfcmd = 0x08"
definition nfaddr :: u32 where "nfaddr = 0x0c"
definition nfdata :: u32 where "nfdata = 0x10"
definition nfstat :: u32 where "nfstat = 0x20"

lemmas nand_offsets = nfconf_def nfcont_def nfcmd_def nfaddr_def nfdata_def nfstat_def

text \<open>\<open>NAND_CLE\<close>, the command latch flag of \<open><linux/mtd/nand.h>\<close>.\<close>

definition NAND_CLE :: u32 where "NAND_CLE = 0x02"

definition s3c2440_select_chip :: "int \<Rightarrow> (nand_state, unit) state" where
  "s3c2440_select_chip chipnr = do {
     regs \<leftarrow> gets s3c_nand_regs;
     (if chipnr = - 1 then modify (regs + nfcont) (\<lambda>r. r OR push_bit 1 1)
      else modify (regs + nfcont) (\<lambda>r. r AND NOT (push_bit 1 1))) }"

definition s3c2440_cmd_ctrl :: "int \<Rightarrow> u32 \<Rightarrow> (nand_state, unit) state" where
  "s3c2440_cmd_ctrl dat ctrl = do {
     regs \<leftarrow> gets s3c_nand_regs;
     (if ctrl AND NAND_CLE \<noteq> 0 then store (regs + nfcmd) (word_of_int dat)
      else store (regs + nfaddr) (word_of_int dat)) }"

definition s3c2440_dev_ready :: "(nand_state, u32) state" where
  "s3c2440_dev_ready = do {
     regs \<leftarrow> gets s3c_nand_regs;
     v \<leftarrow> load (regs + nfstat);
     State_Monad.return (v AND push_bit 0 1) }"

definition nand_out2 :: "(nand_state, unit) state" where
  "nand_out2 = do { m \<leftarrow> gets s3c_mtd; call (KMem (Kfree m)) }"

definition nand_out3 :: "(nand_state, unit) state" where
  "nand_out3 = do { r \<leftarrow> gets s3c_nand_regs; call (KMap (Iounmap r)); nand_out2 }"

definition nand_out4 :: "(nand_state, unit) state" where
  "nand_out4 = do { c \<leftarrow> gets nand_clk; call (KClk (ClkDisable c)); call (KClk (ClkPut c)); nand_out3 }"

text \<open>\<open>sz\<close> is \<open>sizeof(struct mtd_info) + sizeof(struct nand_chip)\<close>.\<close>

definition s3c_nand_init :: "nat \<Rightarrow> kenv \<Rightarrow> (nand_state, c_int) state" where
  "s3c_nand_init sz E = do {
     mtd \<leftarrow> kzalloc E sz;
     upd (\<lambda>s. s\<lparr>s3c_mtd := mtd\<rparr>);
     (if mtd = NULL then State_Monad.return (Inl ENOMEM)
      else do {
        regs \<leftarrow> ioremap E 0x4E000000 64;
        upd (\<lambda>s. s\<lparr>s3c_nand_regs := regs\<rparr>);
        (if regs = NULL then do { nand_out2; State_Monad.return (Inl EIO) }
         else do {
           upd (\<lambda>s. s\<lparr>io_addr_r := regs + nfdata, io_addr_w := regs + nfdata\<rparr>);
           clk \<leftarrow> clk_get E ''nand'';
           upd (\<lambda>s. s\<lparr>nand_clk := clk\<rparr>);
           (if clk = NULL \<or> e_IS_ERR E clk then do { nand_out3; State_Monad.return (Inl ENOENT) }
            else do {
              call (KClk (ClkEnable clk));
              store (regs + nfconf) (push_bit 12 TACLS OR push_bit 8 TWRPH0 OR push_bit 4 TWRPH1);
              store (regs + nfcont) (push_bit 1 1 OR push_bit 0 1);
              r \<leftarrow> nand_scan E mtd;
              (if r \<noteq> 0 then do { nand_out4; State_Monad.return (Inl ENXIO) }
               else do {
                 call (KMtd (AddPartitions mtd 4));
                 State_Monad.return (Inr 0) }) }) }) }) }"

definition s3c_nand_exit :: "(nand_state, unit) state" where
  "s3c_nand_exit = do {
     mtd \<leftarrow> gets s3c_mtd;
     call (KMtd (DelPartitions mtd));
     clk \<leftarrow> gets nand_clk;
     (if clk \<noteq> NULL then do {
        call (KClk (ClkDisable clk));
        call (KClk (ClkPut clk));
        upd (\<lambda>s. s\<lparr>nand_clk := NULL\<rparr>) }
      else State_Monad.return ());
     regs \<leftarrow> gets s3c_nand_regs;
     call (KMap (Iounmap regs));
     call (KMem (Kfree mtd)) }"

section \<open>s3c_nor.c\<close>

record nor_state = kstate +
  s3c_nor_map :: ptr
  nor_phys :: u32
  nor_size :: nat
  nor_bankwidth :: nat
  nor_virt :: ptr
  s3c_nor_mtd :: ptr

definition nor_initial :: nor_state where
  "nor_initial = \<lparr>ktrace = [], kmem = (\<lambda>_. 0), kfault = None, s3c_nor_map = NULL, nor_phys = 0,
     nor_size = 0, nor_bankwidth = 0, nor_virt = NULL, s3c_nor_mtd = NULL\<rparr>"

definition nor_out2 :: "(nor_state, unit) state" where
  "nor_out2 = do { m \<leftarrow> gets s3c_nor_map; call (KMem (Kfree m)) }"

definition nor_out3 :: "(nor_state, unit) state" where
  "nor_out3 = do {
     mtd \<leftarrow> gets s3c_nor_mtd;
     call (KMtd (MapDestroy mtd));
     v \<leftarrow> gets nor_virt;
     call (KMap (Iounmap v));
     nor_out2 }"

text \<open>\<open>sz\<close> is \<open>sizeof(struct map_info)\<close>.\<close>

definition s3c_nor_init :: "nat \<Rightarrow> kenv \<Rightarrow> (nor_state, c_int) state" where
  "s3c_nor_init sz E = do {
     map \<leftarrow> kzalloc E sz;
     upd (\<lambda>s. s\<lparr>s3c_nor_map := map\<rparr>);
     (if map = NULL then State_Monad.return (Inl ENOMEM)
      else do {
        upd (\<lambda>s. s\<lparr>nor_phys := 0, nor_size := 0x1000000, nor_bankwidth := 2\<rparr>);
        v \<leftarrow> ioremap E 0 0x1000000;
        upd (\<lambda>s. s\<lparr>nor_virt := v\<rparr>);
        (if v = NULL then do { nor_out2; State_Monad.return (Inl EIO) }
         else do {
           call (KMtd (SimpleMapInit map));
           mtd \<leftarrow> do_map_probe E ''cfi_probe'' map;
           upd (\<lambda>s. s\<lparr>s3c_nor_mtd := mtd\<rparr>);
           (if mtd = NULL then do {
              mtd \<leftarrow> do_map_probe E ''jedec_probe'' map;
              upd (\<lambda>s. s\<lparr>s3c_nor_mtd := mtd\<rparr>) }
            else State_Monad.return ());
           mtd \<leftarrow> gets s3c_nor_mtd;
           (if mtd = NULL then do { nor_out3; State_Monad.return (Inl ENXIO) }
            else do {
              call (KMtd (AddPartitions mtd 2));
              State_Monad.return (Inr 0) }) }) }) }"

definition s3c_nor_exit :: "(nor_state, unit) state" where
  "s3c_nor_exit = do {
     mtd \<leftarrow> gets s3c_nor_mtd;
     (if mtd \<noteq> NULL then do {
        call (KMtd (DelPartitions mtd));
        call (KMtd (MapDestroy mtd)) }
      else State_Monad.return ());
     map \<leftarrow> gets s3c_nor_map;
     (if map \<noteq> NULL then do {
        v \<leftarrow> gets nor_virt;
        call (KMap (Iounmap v));
        call (KMem (Kfree map)) }
      else State_Monad.return ()) }"

section \<open>ex_mtd.c\<close>

record ex_mtd_state = kstate +
  xxx_virt :: ptr
  mymtd :: ptr
  board_mtd :: ptr
  baseaddr :: ptr
  chip_addr_r :: ptr
  chip_addr_w :: ptr

definition ex_mtd_initial :: ex_mtd_state where
  "ex_mtd_initial = \<lparr>ktrace = [], kmem = (\<lambda>_. 0), kfault = None, xxx_virt = NULL, mymtd = NULL,
     board_mtd = NULL, baseaddr = NULL, chip_addr_r = NULL, chip_addr_w = NULL\<rparr>"

text \<open>
  \<open>window_addr\<close> and \<open>window_size\<close> stand for \<open>WINDOW_ADDR\<close> and \<open>WINDOW_SIZE\<close>, which the example leaves
  open, \<open>xxx_map\<close> for the address of the static \<open>map_info\<close> and \<open>nparts\<close> for the number of partitions.
\<close>

definition xxx_err1 :: "(ex_mtd_state, unit) state" where
  "xxx_err1 = do {
     m \<leftarrow> gets mymtd;
     call (KMtd (MapDestroy m));
     v \<leftarrow> gets xxx_virt;
     call (KMap (Iounmap v)) }"

definition init_xxx_map :: "u32 \<Rightarrow> nat \<Rightarrow> ptr \<Rightarrow> nat \<Rightarrow> kenv \<Rightarrow> (ex_mtd_state, c_int) state" where
  "init_xxx_map window_addr window_size xxx_map nparts E = do {
     v \<leftarrow> ioremap E window_addr window_size;
     upd (\<lambda>s. s\<lparr>xxx_virt := v\<rparr>);
     (if v = NULL then State_Monad.return (Inl EIO)
      else do {
        call (KMtd (SimpleMapInit xxx_map));
        m \<leftarrow> do_map_probe E ''jedec_probe'' xxx_map;
        upd (\<lambda>s. s\<lparr>mymtd := m\<rparr>);
        (if m = NULL then do { xxx_err1; State_Monad.return (Inl ENXIO) }
         else do {
           call (KMtd (AddPartitions m nparts));
           State_Monad.return (Inr 0) }) }) }"

definition cleanup_xxx_map :: "(ex_mtd_state, unit) state" where
  "cleanup_xxx_map = do {
     m \<leftarrow> gets mymtd;
     (if m \<noteq> NULL then do {
        call (KMtd (DelPartitions m));
        call (KMtd (MapDestroy m)) }
      else State_Monad.return ());
     v \<leftarrow> gets xxx_virt;
     (if v \<noteq> NULL then do {
        call (KMap (Iounmap v));
        upd (\<lambda>s. s\<lparr>xxx_virt := NULL\<rparr>) }
      else State_Monad.return ()) }"

definition board_out_mtd :: "(ex_mtd_state, unit) state" where
  "board_out_mtd = do { m \<leftarrow> gets board_mtd; call (KMem (Kfree m)) }"

definition board_out_ior :: "(ex_mtd_state, unit) state" where
  "board_out_ior = do { b \<leftarrow> gets baseaddr; call (KMap (Iounmap b)); board_out_mtd }"

definition board_init :: "u32 \<Rightarrow> nat \<Rightarrow> nat \<Rightarrow> kenv \<Rightarrow> (ex_mtd_state, c_int) state" where
  "board_init chip_address sz nparts E = do {
     m \<leftarrow> kzalloc E sz;
     upd (\<lambda>s. s\<lparr>board_mtd := m\<rparr>);
     (if m = NULL then State_Monad.return (Inl ENOMEM)
      else do {
        b \<leftarrow> ioremap E chip_address 1024;
        upd (\<lambda>s. s\<lparr>baseaddr := b\<rparr>);
        (if b = NULL then do { board_out_mtd; State_Monad.return (Inl EIO) }
         else do {
           upd (\<lambda>s. s\<lparr>chip_addr_r := b, chip_addr_w := b\<rparr>);
           r \<leftarrow> nand_scan E m;
           (if r \<noteq> 0 then do { board_out_ior; State_Monad.return (Inl ENXIO) }
            else do {
              call (KMtd (AddPartitions m nparts));
              State_Monad.return (Inr 0) }) }) }) }"

definition board_exit :: "(ex_mtd_state, unit) state" where
  "board_exit = do {
     m \<leftarrow> gets board_mtd;
     call (KMtd (NandRelease m));
     b \<leftarrow> gets baseaddr;
     call (KMap (Iounmap b));
     call (KMem (Kfree m)) }"

text \<open>
  The chip functions that \<open>board_init\<close> installs: the cases of \<open>board_hwcontorl\<close> are left empty, and
  \<open>board_dev_ready\<close> asks \<open>read_ready_bit\<close>, for \<open>xxx_read_ready_bit\<close>, which is not in the repository.
\<close>

datatype nand_ctl = NAND_CTL_SETCLE | NAND_CTL_CLRCLE | NAND_CTL_SETALE | NAND_CTL_CLRALE
  | NAND_CTL_SETNCE | NAND_CTL_CLRNCE

definition board_hwcontorl :: "nand_ctl \<Rightarrow> (ex_mtd_state, unit) state" where
  "board_hwcontorl cmd = (case cmd of
     NAND_CTL_SETCLE \<Rightarrow> State_Monad.return ()
   | NAND_CTL_CLRCLE \<Rightarrow> State_Monad.return ()
   | NAND_CTL_SETALE \<Rightarrow> State_Monad.return ()
   | NAND_CTL_CLRALE \<Rightarrow> State_Monad.return ()
   | NAND_CTL_SETNCE \<Rightarrow> State_Monad.return ()
   | NAND_CTL_CLRNCE \<Rightarrow> State_Monad.return ())"

definition board_dev_ready :: "(ex_mtd_state, int) state \<Rightarrow> (ex_mtd_state, int) state" where
  "board_dev_ready read_ready_bit = read_ready_bit"

lemmas flash_defs [driver_defs] = s3c2440_select_chip_def s3c2440_cmd_ctrl_def s3c2440_dev_ready_def
  nand_out2_def nand_out3_def nand_out4_def s3c_nand_init_def s3c_nand_exit_def nor_out2_def
  nor_out3_def s3c_nor_init_def s3c_nor_exit_def xxx_err1_def init_xxx_map_def cleanup_xxx_map_def
  board_out_mtd_def board_out_ior_def board_init_def board_exit_def

section \<open>Partition tables and ECC layouts\<close>

text \<open>\<open>MTDPART_OFS_APPEND\<close>, \<open>MTDPART_OFS_NEXT\<close> and \<open>MTDPART_SIZ_FULL\<close> as constructors.\<close>

datatype part_offset = At nat | OfsAppend | OfsNext

datatype part_size = Size nat | SizFull

record mtd_partition =
  part_name :: string
  part_offset :: part_offset
  part_size :: part_size

definition s3c_nand_parts :: "mtd_partition list" where
  "s3c_nand_parts =
     [\<lparr>part_name = ''bootloader'', part_offset = At 0, part_size = Size 0x00040000\<rparr>,
      \<lparr>part_name = ''params'', part_offset = OfsAppend, part_size = Size 0x00020000\<rparr>,
      \<lparr>part_name = ''kernel'', part_offset = OfsAppend, part_size = Size 0x00200000\<rparr>,
      \<lparr>part_name = ''root'', part_offset = OfsAppend, part_size = SizFull\<rparr>]"

definition s3c_nor_parts :: "mtd_partition list" where
  "s3c_nor_parts =
     [\<lparr>part_name = ''bootloader_nor'', part_offset = At 0, part_size = Size 0x40000\<rparr>,
      \<lparr>part_name = ''root_nor'', part_offset = OfsAppend, part_size = SizFull\<rparr>]"

definition partition_info :: "mtd_partition list" where
  "partition_info =
     [\<lparr>part_name = ''Flash partition 1'', part_offset = At 0, part_size = Size (8 * 1024 * 1024)\<rparr>,
      \<lparr>part_name = ''Flash partition 2'', part_offset = OfsNext, part_size = SizFull\<rparr>]"

record nand_ecclayout =
  eccbytes :: nat
  eccpos :: "nat list"
  oobfree :: "(nat \<times> nat) list"

definition nand_oob_8 :: nand_ecclayout where
  "nand_oob_8 = \<lparr>eccbytes = 3, eccpos = [0, 1, 2], oobfree = [(3, 2), (6, 2)]\<rparr>"

definition nand_oob_16 :: nand_ecclayout where
  "nand_oob_16 = \<lparr>eccbytes = 6, eccpos = [0, 1, 2, 3, 6, 7], oobfree = [(8, 8)]\<rparr>"

definition nand_oob_64 :: nand_ecclayout where
  "nand_oob_64 = \<lparr>eccbytes = 24, eccpos = [40, 41, 42, 43, 44, 45, 46, 47, 48, 49, 50, 51, 52, 53, 54, 55,
     56, 57, 58, 59, 60, 61, 62, 63], oobfree = [(2, 38)]\<rparr>"

section \<open>ex_nand.c\<close>

text \<open>
  An outline of the kernel's S3C24xx NAND driver. Its functions are declared without bodies, except the
  probe of the S3C2410, which hands over to the common one with the type of the processor.
\<close>

definition nand_hw_eccoob :: nand_ecclayout where
  "nand_hw_eccoob = \<lparr>eccbytes = 3, eccpos = [0, 1, 2], oobfree = [(8, 8)]\<rparr>"

datatype s3c_cpu_type = TYPE_S3C2410 | TYPE_S3C2412 | TYPE_S3C2440

definition s3c2410_nand_probe :: "('dev \<Rightarrow> s3c_cpu_type \<Rightarrow> 'r) \<Rightarrow> 'dev \<Rightarrow> 'r" where
  "s3c2410_nand_probe s3c24xx_nand_probe dev = s3c24xx_nand_probe dev TYPE_S3C2410"

text \<open>The platform driver; the two power management methods exist only with \<open>CONFIG_PM\<close>.\<close>

record ('p, 'q) platform_driver =
  pd_probe :: 'p
  pd_remove :: 'q
  pd_suspend :: "'q option"
  pd_resume :: "'q option"
  pd_name :: string

definition s3c2410_nand_driver ::
  "bool \<Rightarrow> ('dev \<Rightarrow> s3c_cpu_type \<Rightarrow> 'r) \<Rightarrow> 'q \<Rightarrow> 'q \<Rightarrow> 'q \<Rightarrow> ('dev \<Rightarrow> 'r, 'q) platform_driver" where
  "s3c2410_nand_driver config_pm probe remove suspend resume = \<lparr>pd_probe = s3c2410_nand_probe probe,
     pd_remove = remove, pd_suspend = (if config_pm then Some suspend else None),
     pd_resume = (if config_pm then Some resume else None), pd_name = ''s3c2410-nand''\<rparr>"

lemma s3c2410_probe_type: "pd_probe (s3c2410_nand_driver pm probe r s t) dev = probe dev TYPE_S3C2410"
  by (simp add: s3c2410_nand_driver_def s3c2410_nand_probe_def)

section \<open>What a layout must satisfy\<close>

text \<open>The bytes of the spare area that a layout leaves to the user, and what a layout must satisfy.\<close>

definition free_bytes :: "nand_ecclayout \<Rightarrow> nat list" where
  "free_bytes l = concat (map (\<lambda>(off, n). [off..<off + n]) (oobfree l))"

definition layout_ok :: "nat \<Rightarrow> nand_ecclayout \<Rightarrow> bool" where
  "layout_ok oob l \<longleftrightarrow> eccbytes l = length (eccpos l) \<and> distinct (eccpos l @ free_bytes l) \<and>
     (\<forall>i \<in> set (eccpos l @ free_bytes l). i < oob)"

section \<open>Loading and unloading\<close>

interpretation nand_mod: module_contract "s3c_nand_init sz" s3c_nand_exit "nand_initial m" ktrace
  "\<lambda>E. e_ioremap E 0x4E000000 64 + nfcont \<noteq> NULL"
  by unfold_locales
    (auto simp: driver_defs nand_initial_def nfconf_def no_leak_def split: if_splits)

interpretation nor_mod: module_contract "s3c_nor_init sz" s3c_nor_exit nor_initial ktrace
  "\<lambda>E. e_do_map_probe E ''cfi_probe'' (e_kzalloc E sz) \<noteq> NULL \<or>
     e_do_map_probe E ''jedec_probe'' (e_kzalloc E sz) \<noteq> NULL"
  by unfold_locales (auto simp: driver_defs nor_initial_def no_leak_def split: if_splits)

interpretation xxx_mod: module_contract "init_xxx_map addr n xmap nparts" cleanup_xxx_map ex_mtd_initial
  ktrace "\<lambda>E. e_do_map_probe E ''jedec_probe'' xmap \<noteq> NULL"
  by unfold_locales (auto simp: driver_defs ex_mtd_initial_def no_leak_def split: if_splits)

interpretation board_mod: module_contract "board_init addr sz nparts" board_exit ex_mtd_initial ktrace
  "\<lambda>E. True"
  by unfold_locales (auto simp: driver_defs ex_mtd_initial_def no_leak_def split: if_splits)

text \<open>What the kernel answered to a load, as the driver sees it.\<close>

definition nand_outcome :: "nat \<Rightarrow> kenv \<Rightarrow> c_int" where
  "nand_outcome sz E =
     (if e_kzalloc E sz = NULL then Inl ENOMEM
      else if e_ioremap E 0x4E000000 64 = NULL then Inl EIO
      else if e_clk_get E ''nand'' = NULL \<or> e_IS_ERR E (e_clk_get E ''nand'') then Inl ENOENT
      else if e_nand_scan E (e_kzalloc E sz) \<noteq> 0 then Inl ENXIO
      else Inr 0)"

lemma nand_init_run:
  assumes "e_ioremap E 0x4E000000 64 + nfcont \<noteq> NULL"
  shows "\<exists>s. run_state (s3c_nand_init sz E) (nand_initial m) = (nand_outcome sz E, s) \<and> kfault s = None \<and>
    (nand_outcome sz E = Inr 0 \<longrightarrow> s3c_nand_regs s = e_ioremap E 0x4E000000 64 \<and>
       kmem s (e_ioremap E 0x4E000000 64 + nfconf) = 0x100 \<and>
       kmem s (e_ioremap E 0x4E000000 64 + nfcont) = 3)"
  using assms
  by (auto simp: driver_defs nand_initial_def nand_outcome_def nfconf_def nfcont_def TACLS_def TWRPH0_def
      TWRPH1_def)

section \<open>The command interface\<close>

text \<open>The writes the NAND core wants: commands to the command register, everything else to the address register.\<close>

fun cmd_writes :: "ptr \<Rightarrow> (int \<times> u32) list \<Rightarrow> kcall list" where
  "cmd_writes regs [] = []"
| "cmd_writes regs ((dat, ctrl) # cs) =
     KMap (WriteReg (regs + (if bit ctrl 1 then nfcmd else nfaddr)) (word_of_int dat)) # cmd_writes regs cs"

lemma cle_bit: "ctrl AND NAND_CLE \<noteq> 0 \<longleftrightarrow> bit ctrl 1"
  using and_exp_eq_0_iff_not_bit [of ctrl 1] by (simp add: NAND_CLE_def)

lemma cmd_ctrl_run:
  assumes "kfault s = None" and "s3c_nand_regs s + nfcmd \<noteq> NULL" and "s3c_nand_regs s + nfaddr \<noteq> NULL"
  shows "run_state (s3c2440_cmd_ctrl dat ctrl) s = ((), s\<lparr>kmem := (kmem s)(s3c_nand_regs s +
      (if bit ctrl 1 then nfcmd else nfaddr) := word_of_int dat),
    ktrace := ktrace s @ cmd_writes (s3c_nand_regs s) [(dat, ctrl)]\<rparr>)"
  using assms by (simp add: s3c2440_cmd_ctrl_def cle_bit)

lemma cmd_ctrls_run:
  assumes "kfault s = None" and "s3c_nand_regs s + nfcmd \<noteq> NULL" and "s3c_nand_regs s + nfaddr \<noteq> NULL"
  shows "\<exists>t. run_state (for_each (\<lambda>(d, c). s3c2440_cmd_ctrl d c) cs) s = ((), t) \<and> kfault t = None \<and>
    s3c_nand_regs t = s3c_nand_regs s \<and> ktrace t = ktrace s @ cmd_writes (s3c_nand_regs s) cs \<and>
    (\<forall>p. p \<notin> {s3c_nand_regs s + nfcmd, s3c_nand_regs s + nfaddr} \<longrightarrow> kmem t p = kmem s p)"
  using assms
proof (induction cs arbitrary: s)
  case (Cons c cs)
  obtain d f where c: "c = (d, f)" by (cases c) auto
  let ?t = "s\<lparr>kmem := (kmem s)(s3c_nand_regs s + (if bit f 1 then nfcmd else nfaddr) := word_of_int d),
    ktrace := ktrace s @ cmd_writes (s3c_nand_regs s) [(d, f)]\<rparr>"
  from Cons.IH [of ?t] Cons.prems show ?case
    by (cases "bit f (Suc 0)") (auto simp: c cmd_ctrl_run [OF Cons.prems])
qed simp



text \<open>
  C36: If no chip is found, \<open>s3c_nor_init\<close> and \<open>init_xxx_map\<close> fail with \<open>ENXIO\<close>, but on the way
  out they call \<open>map_destroy\<close> with the NULL they got from the probe: they hand back a map device that
  nobody holds.
\<close>

theorem probe_failure_destroys_null:
  assumes "e_kzalloc E sz \<noteq> NULL" and "e_ioremap E 0 0x1000000 \<noteq> NULL" and "e_ioremap E addr n \<noteq> NULL"
    and "\<forall>k p. e_do_map_probe E k p = NULL"
  shows "(\<exists>s. run_state (s3c_nor_init sz E) nor_initial = (Inl ENXIO, s) \<and>
      KMtd (MapDestroy NULL) \<in> set (ktrace s) \<and> account [] (ktrace s) = None) \<and>
    (\<exists>s. run_state (init_xxx_map addr n xmap nparts E) ex_mtd_initial = (Inl ENXIO, s) \<and>
      KMtd (MapDestroy NULL) \<in> set (ktrace s) \<and> account [] (ktrace s) = None)"
  using assms by (simp add: driver_defs nor_initial_def ex_mtd_initial_def)

theorem probe_failure_destroys_null_witness:
  "\<exists>s. run_state (s3c_nor_init 64 (sample_env\<lparr>e_do_map_probe := (\<lambda>_ _. NULL)\<rparr>)) nor_initial =
     (Inl ENXIO, s) \<and> account [] (ktrace s) = None"
proof -
  let ?E = "sample_env\<lparr>e_do_map_probe := (\<lambda>_ _. NULL)\<rparr>"
  have "e_kzalloc ?E 64 \<noteq> NULL" "e_ioremap ?E 0 0x1000000 \<noteq> NULL" "e_ioremap ?E 0x1000 16 \<noteq> NULL"
    "\<forall>k p. e_do_map_probe ?E k p = NULL"
    by (simp_all add: sample_env_def)
  from probe_failure_destroys_null [OF this, of 0 1] show ?thesis by blast
qed



text \<open>
  The NAND core also calls \<open>cmd_ctrl\<close> with \<open>NAND_CMD_NONE\<close> (-1) and without \<open>NAND_CLE\<close> to change the
  control lines only; the driver sends an address byte then.
\<close>

lemma cmd_none_is_sent:
  "cmd_writes regs [(- 1, 0)] = [KMap (WriteReg (regs + nfaddr) 0xffffffff)]"
  by simp

text \<open>
  The three ECC layouts of the example are consistent: as many check bytes as announced, all
  different, none of them among the bytes left to the user, and all within a spare area of 8, 16 and
  64 bytes; byte 5 of the small layouts and bytes 0 and 1 of the large one, where the NAND core keeps
  the bad block marker, are in neither.
\<close>

theorem ecc_layouts_consistent:
  "layout_ok 8 nand_oob_8 \<and> layout_ok 16 nand_oob_16 \<and> layout_ok 64 nand_oob_64 \<and>
   5 \<notin> set (eccpos nand_oob_8 @ free_bytes nand_oob_8) \<and>
   5 \<notin> set (eccpos nand_oob_16 @ free_bytes nand_oob_16) \<and>
   {0, 1} \<inter> set (eccpos nand_oob_64 @ free_bytes nand_oob_64) = {} \<and>
   layout_ok 16 nand_hw_eccoob \<and> 5 \<notin> set (eccpos nand_hw_eccoob @ free_bytes nand_hw_eccoob)"
  by (simp add: layout_ok_def free_bytes_def nand_oob_8_def nand_oob_16_def nand_oob_64_def nand_hw_eccoob_def upt_rec)

text \<open>
  How the kernel documents \<open>add_mtd_partitions\<close>: \<open>placed erase chip e ps qs\<close> says that \<open>qs\<close> are places
  (offset and size) it may give the partitions \<open>ps\<close> of a chip of \<open>chip\<close> bytes with erase blocks of \<open>erase\<close>
  bytes if the partition before them ends at \<open>e\<close>. \<open>MTDPART_OFS_APPEND\<close> is that end,
  \<open>MTDPART_OFS_NEXT\<close> the next block boundary from it, \<open>MTDPART_SIZ_FULL\<close> the rest of the chip.
\<close>

fun placed :: "nat \<Rightarrow> nat \<Rightarrow> nat \<Rightarrow> mtd_partition list \<Rightarrow> (nat \<times> nat) list \<Rightarrow> bool" where
  "placed erase chip e [] qs \<longleftrightarrow> qs = []"
| "placed erase chip e (p # ps) [] \<longleftrightarrow> False"
| "placed erase chip e (p # ps) ((off, n) # qs) \<longleftrightarrow>
     (case part_offset p of At a \<Rightarrow> off = a | OfsAppend \<Rightarrow> off = e
        | OfsNext \<Rightarrow> off mod erase = 0 \<and> e \<le> off \<and> off < e + erase) \<and>
     n = (case part_size p of Size k \<Rightarrow> k | SizFull \<Rightarrow> chip - off) \<and>
     placed erase chip (off + n) ps qs"

text \<open>The places follow each other without gap or overlap from \<open>lo\<close> to \<open>hi\<close>.\<close>

fun tiles :: "nat \<Rightarrow> nat \<Rightarrow> (nat \<times> nat) list \<Rightarrow> bool" where
  "tiles lo hi [] \<longleftrightarrow> lo = hi"
| "tiles lo hi ((off, n) # qs) \<longleftrightarrow> off = lo \<and> 0 < n \<and> tiles (lo + n) hi qs"

lemma tiles_disjoint:
  "tiles lo hi qs \<Longrightarrow> lo \<le> hi \<and> (\<forall>(off, n) \<in> set qs. lo \<le> off \<and> off + n \<le> hi) \<and>
    (\<forall>a. lo \<le> a \<and> a < hi \<longrightarrow> (\<exists>!i. i < length qs \<and> fst (qs ! i) \<le> a \<and> a < fst (qs ! i) + snd (qs ! i)))"
proof (induction lo hi qs rule: tiles.induct)
  case (2 lo hi off n qs)
  then have off: "off = lo" "0 < n" and IH: "lo + n \<le> hi" "\<forall>(o', m) \<in> set qs. lo + n \<le> o' \<and> o' + m \<le> hi"
    "\<And>a. lo + n \<le> a \<Longrightarrow> a < hi \<Longrightarrow>
      \<exists>!i. i < length qs \<and> fst (qs ! i) \<le> a \<and> a < fst (qs ! i) + snd (qs ! i)"
    by auto
  have above: "lo + n \<le> fst (qs ! i)" if "i < length qs" for i
    using IH(2) nth_mem [OF that] by (cases "qs ! i") auto
  have "\<exists>!i. i < length ((off, n) # qs) \<and> fst (((off, n) # qs) ! i) \<le> a \<and>
      a < fst (((off, n) # qs) ! i) + snd (((off, n) # qs) ! i)" if a: "lo \<le> a" "a < hi" for a
  proof (cases "a < lo + n")
    case True
    show ?thesis
    proof (rule ex1I [of _ 0])
      fix i
      assume i: "i < length ((off, n) # qs) \<and> fst (((off, n) # qs) ! i) \<le> a \<and>
        a < fst (((off, n) # qs) ! i) + snd (((off, n) # qs) ! i)"
      then show "i = 0" using above True by (cases i) force+
    qed (use a True off in simp)
  next
    case False
    from IH(3) [of a] a False obtain i where i: "i < length qs" "fst (qs ! i) \<le> a"
      "a < fst (qs ! i) + snd (qs ! i)"
      and uniq: "\<And>j. j < length qs \<and> fst (qs ! j) \<le> a \<and> a < fst (qs ! j) + snd (qs ! j) \<Longrightarrow> j = i"
      by (metis not_le)
    show ?thesis
    proof (rule ex1I [of _ "Suc i"])
      fix j
      assume j: "j < length ((off, n) # qs) \<and> fst (((off, n) # qs) ! j) \<le> a \<and>
        a < fst (((off, n) # qs) ! j) + snd (((off, n) # qs) ! j)"
      then show "j = Suc i" using uniq False off by (cases j) auto
    qed (use i in simp)
  qed
  with off IH show ?case by auto
qed auto

text \<open>
  C37: The partition tables divide their chips: if the kernel places the partitions as it documents,
  then on any NAND chip of more than 0x260000 bytes the four partitions, on the 16 MiB NOR flash the two,
  and on any chip of more than 8 MiB, with an erase block that divides 8 MiB, the two of the example
  cover the whole chip without overlap: every byte lies in exactly one of them.
\<close>

theorem partitions_tile_chip:
  assumes "placed erase chip 0 parts qs"
    and "(parts = s3c_nand_parts \<and> chip > 0x260000) \<or> (parts = s3c_nor_parts \<and> chip = 0x1000000) \<or>
      (parts = partition_info \<and> chip > 8 * 1024 * 1024 \<and> erase dvd 8 * 1024 * 1024 \<and> 0 < erase)"
    and "a < chip"
  shows "length qs = length parts \<and> (\<forall>(off, n) \<in> set qs. off + n \<le> chip) \<and>
    (\<exists>!i. i < length qs \<and> fst (qs ! i) \<le> a \<and> a < fst (qs ! i) + snd (qs ! i))"
proof -
  have next_block: "off = k" if "e dvd off" "k \<le> off" "off < k + e" "e dvd k" for off k e :: nat
  proof -
    have "e dvd off - k" using that(1,4) by (simp add: dvd_diff_nat)
    moreover have "off - k < e" using that(2,3) by linarith
    ultimately show ?thesis using that(2) by (metis diff_is_0_eq' le_antisym nat_dvd_not_less not_gr_zero diff_diff_cancel diff_zero)
  qed
  have step: "placed erase chip e (p # ps) qs \<longleftrightarrow> (\<exists>off n rs. qs = (off, n) # rs \<and>
     (case part_offset p of At a \<Rightarrow> off = a | OfsAppend \<Rightarrow> off = e
        | OfsNext \<Rightarrow> off mod erase = 0 \<and> e \<le> off \<and> off < e + erase) \<and>
     n = (case part_size p of Size k \<Rightarrow> k | SizFull \<Rightarrow> chip - off) \<and>
     placed erase chip (off + n) ps rs)" for e p ps qs chip
    by (cases qs) auto
  have "tiles 0 chip qs \<and> length qs = length parts"
  proof -
    consider "parts = s3c_nand_parts" "chip > 0x260000" | "parts = s3c_nor_parts" "chip = 0x1000000"
      | "parts = partition_info" "chip > 8 * 1024 * 1024" "erase dvd 8 * 1024 * 1024"
      using assms(2) by blast
    then show ?thesis
    proof cases
      case 1
      with assms(1) show ?thesis
by (auto simp: s3c_nand_parts_def step simp del: placed.simps(2,3))
    next
      case 2
      with assms(1) show ?thesis
        by (auto simp: s3c_nor_parts_def step simp del: placed.simps(2,3))
    next
      case 3
      then have nb: "off = 8388608" if "erase dvd off" "8388608 \<le> off" "off < 8388608 + erase" for off
        using next_block [OF that] by simp
      from 3 assms(1) show ?thesis
        by (auto simp: partition_info_def step simp del: placed.simps(2,3) dest: nb)
    qed
  qed
  with tiles_disjoint [of 0 chip qs] assms(3) show ?thesis by auto
qed

theorem partitions_tile_chip_witness:
  "let qs = [(0, 0x40000), (0x40000, 0x20000), (0x60000, 0x200000), (0x260000, 0x3da0000)] :: (nat \<times> nat) list
   in \<exists>!i. i < length qs \<and> fst (qs ! i) \<le> 0x50000 \<and> 0x50000 < fst (qs ! i) + snd (qs ! i)"
proof -
  let ?qs = "[(0, 0x40000), (0x40000, 0x20000), (0x60000, 0x200000), (0x260000, 0x3da0000)] :: (nat \<times> nat) list"
  have "placed 0x4000 0x4000000 0 s3c_nand_parts ?qs" by (simp add: s3c_nand_parts_def)
  moreover have "0x260000 < (0x4000000 :: nat)" "0x50000 < (0x4000000 :: nat)" by simp_all
  ultimately show ?thesis
    unfolding Let_def using partitions_tile_chip [OF _ disjI1 [OF conjI [OF refl]]] by blast
qed

end
