(* ===== verification/Registers.thy ===== *)
theory Registers
  imports Led_Bus Buttons_Irq Touchscreen Lcd Flash
begin

text \<open>
  The register structures of the drivers and the windows they map. The first part gives the C layouts
  (\<open>struct lcd_regs\<close> of \<open>lcd.c\<close> and of \<open>lcd_4.3.c\<close>, \<open>struct s3c_ts_regs\<close> of both touch screen drivers,
  \<open>struct s3c_nand_regs\<close>) and compares them with the offsets the driver models use. The second part is memory
  safety of the register writes: the operations of seven drivers keep the contract \<open>register_user\<close> of
  \<open>Windows\<close>, and loading them maps the windows they need.
\<close>

section \<open>Layouts\<close>

text \<open>The members of a structure of \<open>unsigned long\<close>s in order: name and number of words.\<close>

type_synonym layout = "(string \<times> nat) list"

fun offset_of :: "layout \<Rightarrow> string \<Rightarrow> u32 option" where
  "offset_of [] f = None"
| "offset_of ((g, n) # l) f = (if f = g then Some 0 else map_option ((+) (of_nat (4 * n))) (offset_of l f))"

definition size_of :: "layout \<Rightarrow> nat" where
  "size_of l = 4 * sum_list (map snd l)"

definition lcd_regs_layout :: layout where
  "lcd_regs_layout = map (\<lambda>f. (f, 1)) [''lcdcon1'', ''lcdcon2'', ''lcdcon3'', ''lcdcon4'', ''lcdcon5'',
     ''lcdsaddr1'', ''lcdsaddr2'', ''lcdsaddr3'', ''redlut'', ''greenlut'', ''bluelut''] @
     [(''reserved'', 9)] @ map (\<lambda>f. (f, 1)) [''dithmode'', ''tpal'', ''lcdintpnd'', ''lcdsrcpnd'',
     ''lcdintmsk'', ''lpcsel'']"

definition lcd43_regs_layout :: layout where
  "lcd43_regs_layout = map (\<lambda>f. (f, 1)) [''lcdcon1'', ''lcdcon2'', ''lcdcon3'', ''lcdcon4'', ''lcdcon5'',
     ''lcdsaddr1'', ''lcdsaddr2'', ''lcdsaddr3'', ''redlut'', ''greenlut'', ''bluelut''] @
     [(''reserved'', 8)] @ map (\<lambda>f. (f, 1)) [''dithmode'', ''tpal'', ''lcdintpnd'', ''lcdsrcpnd'',
     ''lcdintmsk'', ''tconsel'']"

definition ts_regs_layout :: layout where
  "ts_regs_layout = map (\<lambda>f. (f, 1)) [''adccon'', ''adctsc'', ''adcdly'', ''adcdat0'', ''adcdat1'', ''adcupdn'']"

definition ym_ts_regs_layout :: layout where
  "ym_ts_regs_layout = map (\<lambda>f. (f, 1)) [''adccon'', ''adctsc'', ''adcdly'', ''adcdat0'', ''adcdat1'', ''adcupdn'']"

text \<open>The name \<open>nfsecc\<close> occurs twice, which C does not allow; the first one lies before \<open>nfstat\<close>.\<close>

definition nand_regs_layout :: layout where
  "nand_regs_layout = map (\<lambda>f. (f, 1)) [''nfconf'', ''nfcont'', ''nfcmd'', ''nfaddr'', ''nfdata'', ''nfeccd0'',
     ''nfeccd1'', ''nfsecc'', ''nfstat'', ''nfestat0'', ''nfestat1'', ''nfmecc0'', ''nfmecc1'', ''nfsecc'',
     ''nfsblk'', ''nfeblk'']"

lemmas layout_defs = lcd_regs_layout_def lcd43_regs_layout_def ts_regs_layout_def ym_ts_regs_layout_def
  nand_regs_layout_def

text \<open>Members lie inside the structure, one after the other.\<close>

lemma offset_inside:
  assumes "offset_of l f = Some off" and "size_of l < 2 ^ 32"
  shows "\<exists>n. (f, n) \<in> set l \<and> unat off + 4 * n \<le> size_of l"
  using assms
proof (induction l arbitrary: off)
  case (Cons m l)
  obtain g n where m: "m = (g, n)" by fastforce
  show ?case
  proof (cases "f = g")
    case True
    with Cons.prems m show ?thesis by (auto simp: size_of_def)
  next
    case False
    with Cons.prems(1) m obtain o' where o': "offset_of l f = Some o'" "off = of_nat (4 * n) + o'" by auto
    have "size_of l < 2 ^ 32" using Cons.prems(2) by (simp add: size_of_def)
    from Cons.IH [OF o'(1) this] obtain k where k: "(f, k) \<in> set l" "unat o' + 4 * k \<le> size_of l" by blast
    have "4 * n + unat o' < 2 ^ 32" using Cons.prems(2) k(2) m by (simp add: size_of_def)
    then have "unat off = 4 * n + unat o'"
      using o'(2) by (simp add: unat_word_ariths take_bit_nat_eq_self unat_of_nat)
    with k m show ?thesis by (auto simp: size_of_def)
  qed
qed simp

definition uses :: "layout \<Rightarrow> (string \<times> u32) list \<Rightarrow> bool" where
  "uses l regs \<longleftrightarrow> (\<forall>(f, off) \<in> set regs. offset_of l f = Some off)"

definition lcd_used :: "(string \<times> u32) list" where
  "lcd_used = [(''lcdcon1'', lcdcon1), (''lcdcon2'', lcdcon2), (''lcdcon3'', lcdcon3), (''lcdcon4'', lcdcon4),
     (''lcdcon5'', lcdcon5), (''lcdsaddr1'', lcdsaddr1), (''lcdsaddr2'', lcdsaddr2), (''lcdsaddr3'', lcdsaddr3)]"

definition ts_used :: "(string \<times> u32) list" where
  "ts_used = [(''adccon'', adccon), (''adctsc'', adctsc), (''adcdly'', adcdly), (''adcdat0'', adcdat0),
     (''adcdat1'', adcdat1), (''adcupdn'', adcupdn)]"

definition nand_used :: "(string \<times> u32) list" where
  "nand_used = [(''nfconf'', nfconf), (''nfcont'', nfcont), (''nfcmd'', nfcmd), (''nfaddr'', nfaddr),
     (''nfdata'', nfdata), (''nfstat'', nfstat)]"

section \<open>Operations of the drivers\<close>

definition first_ops :: "(first_state \<Rightarrow> first_state) set" where
  "first_ops = insert (step first_drv_open) {step (first_drv_write buf stack n) |buf stack n. n \<le> 4}"

definition second_ops :: "(second_state \<Rightarrow> second_state) set" where
  "second_ops = insert (step second_drv_open) {step (second_drv_read n) |n. True}"

text \<open>The handlers of the touch screen, time, and the hardware changing the data registers.\<close>

definition ts_ops :: "(ts_state \<Rightarrow> ts_state) set" where
  "ts_ops = {step pen_down_up_irq, ts_expire, tick} \<union> {step (adc_irq HZ) |HZ. True} \<union>
     {\<lambda>s. s\<lparr>kmem := (kmem s)(s3c_ts_regs s + adcdat0 := a, s3c_ts_regs s + adcdat1 := b)\<rparr> |a b. True}"

definition nand_ops :: "(nand_state \<Rightarrow> nand_state) set" where
  "nand_ops = {step (s3c2440_select_chip n) |n. True} \<union> {step (s3c2440_cmd_ctrl dat ctrl) |dat ctrl. True} \<union>
     {step s3c2440_dev_ready}"

lemmas ops_defs = first_ops_def second_ops_def ts_ops_def nand_ops_def

text \<open>One register write is all that a \<open>write\<close> does.\<close>

lemma first_write_step:
  assumes "kfault s = None" and "first_gpfdat s \<noteq> NULL" and "n \<le> 4"
  shows "\<exists>v. step (first_drv_write buf stack n) s =
    s\<lparr>kmem := (kmem s)(first_gpfdat s := v), ktrace := ktrace s @ [KMap (WriteReg (first_gpfdat s) v)]\<rparr>"
  using assms by (cases "le32 (buf n @ drop n stack) = 1") (auto simp: driver_defs Let_def)

interpretation first_regs: register_user first_ops
  "\<lambda>s. first_ready s \<and> first_gpfdat s = first_gpfcon s + 4" "\<lambda>s. [(first_gpfcon s, 16)]"
proof
  fix s f
  assume ok: "first_ready s \<and> first_gpfdat s = first_gpfcon s + 4" and "f \<in> first_ops"
  then consider "f = step first_drv_open" | buf stack n where "f = step (first_drv_write buf stack n)" "n \<le> 4"
    by (auto simp: first_ops_def)
  then show "(first_ready (f s) \<and> first_gpfdat (f s) = first_gpfcon (f s) + 4) \<and>
    [(first_gpfcon (f s), 16)] = [(first_gpfcon s, 16)] \<and>
    (\<forall>V. set [(first_gpfcon s, 16)] \<subseteq> set V \<longrightarrow> extends V s (f s) V)"
  proof cases
    case 1
    with ok show ?thesis by (auto simp: first_ready_def driver_defs extends_def)
  next
    case 2
    with ok first_write_step [of s n buf stack] show ?thesis
      by (auto simp: first_ready_def extends_def)
  qed
qed

definition second_ok :: "second_state \<Rightarrow> bool" where
  "second_ok s \<longleftrightarrow> kfault s = None \<and> second_gpfcon s \<noteq> NULL \<and> second_gpgcon s \<noteq> NULL \<and>
     second_gpfdat s \<noteq> NULL \<and> second_gpgdat s \<noteq> NULL"

interpretation second_regs: register_user second_ops second_ok
  "\<lambda>s. [(second_gpfcon s, 16), (second_gpgcon s, 16)]"
  by unfold_locales
    (auto simp: second_ops_def second_ok_def driver_defs Let_def extends_def split: if_splits)

definition nand_ok :: "nand_state \<Rightarrow> bool" where
  "nand_ok s \<longleftrightarrow> kfault s = None \<and> (\<forall>off \<in> {nfcont, nfcmd, nfaddr, nfstat}. s3c_nand_regs s + off \<noteq> NULL)"

lemma nand_steps:
  assumes "nand_ok s"
  shows "\<exists>v. step (s3c2440_select_chip c) s = s\<lparr>kmem := (kmem s)(s3c_nand_regs s + nfcont := v),
      ktrace := ktrace s @ [KMap (WriteReg (s3c_nand_regs s + nfcont) v)]\<rparr>"
    and "\<exists>off \<in> {nfcmd, nfaddr}. \<exists>v. step (s3c2440_cmd_ctrl dat ctrl) s =
      s\<lparr>kmem := (kmem s)(s3c_nand_regs s + off := v), ktrace := ktrace s @ [KMap (WriteReg (s3c_nand_regs s + off) v)]\<rparr>"
    and "step s3c2440_dev_ready s = s"
  using assms
  by (cases "c = -1"; cases "ctrl AND NAND_CLE = 0";
      auto simp: nand_ok_def s3c2440_select_chip_def s3c2440_cmd_ctrl_def s3c2440_dev_ready_def)+

interpretation nand_regs: register_user nand_ops nand_ok "\<lambda>s. [(s3c_nand_regs s, 64)]"
proof
  fix s f
  assume ok: "nand_ok s" and "f \<in> nand_ops"
  then obtain off v where off: "off \<in> {nfcont, nfcmd, nfaddr}"
    and f: "f s = s \<or> f s = s\<lparr>kmem := (kmem s)(s3c_nand_regs s + off := v),
      ktrace := ktrace s @ [KMap (WriteReg (s3c_nand_regs s + off) v)]\<rparr>"
    using nand_steps [OF ok] unfolding nand_ops_def by blast
  from off have "unat off + 4 \<le> 64" by (auto simp: nand_offsets)
  with ok f show "nand_ok (f s) \<and> [(s3c_nand_regs (f s), 64)] = [(s3c_nand_regs s, 64)] \<and>
    (\<forall>V. set [(s3c_nand_regs s, 64)] \<subseteq> set V \<longrightarrow> extends V s (f s) V)"
    by (auto simp: nand_ok_def extends_def)
qed

text \<open>The touch screen driver.\<close>

lemma ts_writes:
  assumes "ts_inv s"
  shows "\<forall>V. (s3c_ts_regs s, 24) \<in> set V \<longrightarrow> extends V s (step pen_down_up_irq s) V"
    and "\<forall>V. (s3c_ts_regs s, 24) \<in> set V \<longrightarrow> extends V s (step (adc_irq HZ) s) V"
proof -
  note basic = ts_inv_basic [OF assms]
  have m: "\<forall>V. (s3c_ts_regs t, 24) \<in> set V \<longrightarrow> extends V t (step pen_up_func t) V \<and> extends V t (step pen_down_func t) V"
    if "kfault t = None" "ts_mapped t" for t
    using pen_up_run [OF that] pen_down_run [OF that]
    by (auto simp: extends_def ts_offsets up_reports_def)
  then show "\<forall>V. (s3c_ts_regs s, 24) \<in> set V \<longrightarrow> extends V s (step pen_down_up_irq s) V"
    using basic by (simp add: pen_down_up_irq_def pen_is_up_run)
  consider (up) "ts_up s" | (last) "\<not> ts_up s" "ts_cnt s = 3" | (more) "\<not> ts_up s" "ts_cnt s \<noteq> 3"
    by blast
  then show "\<forall>V. (s3c_ts_regs s, 24) \<in> set V \<longrightarrow> extends V s (step (adc_irq HZ) s) V"
  proof cases
    case up
    from m [of "s\<lparr>ts_cnt := 0\<rparr>"] basic adc_up [OF assms up, of HZ] show ?thesis
      by (simp add: ts_mapped_def extends_def)
  next
    case last
    with assms show ?thesis
      by (auto simp: adc_irq_def pen_is_up_run ts_inv_def ts_mapped_def set_sample_def
          enter_wait_pen_up_mode_def mod_timer_def report_abs_def report_key_def input_sync_def extends_def
          ts_offsets)
  next
    case more
    from m [of "ts_put s"] basic adc_next [OF assms more, of HZ] show ?thesis
      by (simp add: ts_mapped_def extends_def) (simp add: ts_put_def)
  qed
qed

lemma ts_ok_step:
  assumes "ts_inv s" and "f \<in> ts_ops"
  shows "ts_inv (f s) \<and> s3c_ts_regs (f s) = s3c_ts_regs s \<and>
    (\<forall>V. (s3c_ts_regs s, 24) \<in> set V \<longrightarrow> extends V s (f s) V)"
proof -
  have pen: "ts_inv (step pen_down_up_irq t) \<and> s3c_ts_regs (step pen_down_up_irq t) = s3c_ts_regs t"
    if "ts_inv t" for t
    using pen_up_effect [of t] pen_down_effect [of t] ts_inv_basic [OF that] ts_same_inv [OF _ that]
    by (cases "ts_up t") (auto simp: pen_down_up_irq_def pen_is_up_run ts_same_def)
  from assms(2) consider "f = step pen_down_up_irq" | "f = ts_expire" | "f = tick"
    | HZ where "f = step (adc_irq HZ)"
    | a b where "f = (\<lambda>s. s\<lparr>kmem := (kmem s)(s3c_ts_regs s + adcdat0 := a, s3c_ts_regs s + adcdat1 := b)\<rparr>)"
    by (auto simp: ts_ops_def)
  then show ?thesis
  proof cases
    case 1
    with pen [OF assms(1)] ts_writes(1) [OF assms(1)] show ?thesis by simp
  next
    case 2
    have inv: "ts_inv (s\<lparr>timer := None\<rparr>)" using assms(1) by (simp add: ts_inv_def ts_mapped_def)
    with 2 pen [OF inv] ts_writes(1) [OF inv] show ?thesis
      by (simp add: ts_expire_def timer_is_pen extends_def)
  next
    case 3
    with assms(1) show ?thesis by (simp add: tick_def ts_inv_def ts_mapped_def extends_def)
  next
    case (4 HZ)
    with adc_refines [OF assms(1), of HZ] ts_writes(2) [OF assms(1), of HZ] show ?thesis by auto
  next
    case 5
    with assms(1) show ?thesis by (simp add: ts_inv_def ts_mapped_def extends_def)
  qed
qed

interpretation ts_regs: register_user ts_ops ts_inv "\<lambda>s. [(s3c_ts_regs s, 24)]"
  using ts_ok_step by unfold_locales auto

text \<open>The LCD drivers: between loading and unloading the frame buffer core only sets colours.\<close>

definition lcd_ops :: "(lcd_state \<Rightarrow> lcd_state) set" where
  "lcd_ops = {step (s3c_lcdfb_setcolreg i r g b) |i r g b. i \<noteq> 16} \<union>
     {step (s3c_fb_setcolreg i r g b) |i r g b. i \<noteq> 16}"

definition lcd_ok :: "lcd_state \<Rightarrow> bool" where
  "lcd_ok s \<longleftrightarrow> lcd_ready s \<and> gpbdat s = gpbcon s + 4 \<and> gpbdat s \<noteq> NULL \<and>
     (\<forall>off \<in> {lcdcon1, lcdcon5, lcdsaddr1, lcdsaddr2, lcdsaddr3}. lcd_regs s + off \<noteq> NULL)"

interpretation lcd_regs: register_user lcd_ops lcd_ok "\<lambda>s. [(lcd_regs s, n), (gpbcon s, 8)]" for n
proof
  fix s f
  assume ok: "lcd_ok s" and "f \<in> lcd_ops"
  then obtain i r g b where f: "f = step (s3c_lcdfb_setcolreg i r g b)" and i: "i \<noteq> 16"
    by (auto simp: lcd_ops_def setcolreg_same)
  have "f s = s \<or> (\<exists>p. length p = 16 \<and> f s = s\<lparr>pseudo_palette := p\<rparr>)"
  proof (cases "i < 16")
    case True
    with ok setcolreg_run [of s i r g b]
    have "f s = s\<lparr>pseudo_palette := (pseudo_palette s)[i := rgb565 (r, g, b)]\<rparr> \<and>
        length ((pseudo_palette s)[i := rgb565 (r, g, b)]) = 16"
      by (simp add: f lcd_ok_def exec_Inr_iff lcd_ready_def)
    then show ?thesis by blast
  next
    case False
    with i show ?thesis by (simp add: f s3c_lcdfb_setcolreg_def)
  qed
  with ok show "lcd_ok (f s) \<and> [(lcd_regs (f s), n), (gpbcon (f s), 8)] = [(lcd_regs s, n), (gpbcon s, 8)] \<and>
    (\<forall>V. set [(lcd_regs s, n), (gpbcon s, 8)] \<subseteq> set V \<longrightarrow> extends V s (f s) V)"
    by (auto simp: lcd_ok_def lcd_ready_def extends_def)
qed

section \<open>Loading\<close>

text \<open>The kernel maps the banks the drivers ask for: no register of a window is at address 0.\<close>

definition maps :: "kenv \<Rightarrow> u32 \<Rightarrow> nat \<Rightarrow> bool" where
  "maps E p n \<longleftrightarrow> (\<forall>k \<in> set [0..<n]. e_ioremap E p n + of_nat k \<noteq> NULL)"

lemma mapsD: "maps E p n \<Longrightarrow> unat off < n \<Longrightarrow> e_ioremap E p n + off \<noteq> NULL"
  unfolding maps_def by (drule bspec [of _ _ "unat off"]) simp_all

lemma maps_base: "maps E p n \<Longrightarrow> 0 < n \<Longrightarrow> e_ioremap E p n \<noteq> NULL"
  using mapsD [of E p n 0] by simp

lemma first_load:
  assumes "maps E 0x56000050 16"
  shows "let s = step (first_drv_init E) (first_initial m) in
    (first_ready s \<and> first_gpfdat s = first_gpfcon s + 4) \<and>
    (\<exists>V. set [(first_gpfcon s, 16)] \<subseteq> set V \<and> extends [] (first_initial m) s V)"
  using mapsD [OF assms, of 4] maps_base [OF assms]
  by (simp add: driver_defs first_initial_def first_ready_def extends_def)

lemma led_load:
  assumes "maps E 0x56000050 8"
    and "\<forall>t n. get t n = (let l = filter (\<lambda>r. res_flags r = t) led_resource in
      if n < length l then Some (l ! n) else None)"
  shows "let s = step (led_probe E get) (led_initial m) in
    (led_ready s \<and> gpio_dat s = gpio_con s + 4) \<and>
    (\<exists>V. set [(gpio_con s, 8)] \<subseteq> set V \<and> extends [] (led_initial m) s V)"
  using mapsD [OF assms(1), of 4] maps_base [OF assms(1)] assms(2)
  by (simp add: driver_defs led_initial_def led_resource_def led_ready_def extends_def)

lemma second_load:
  assumes "maps E 0x56000050 16" and "maps E 0x56000060 16"
  shows "let s = step (second_drv_init E) (second_initial m) in second_ok s \<and>
    (\<exists>V. set [(second_gpfcon s, 16), (second_gpgcon s, 16)] \<subseteq> set V \<and> extends [] (second_initial m) s V)"
  using mapsD [OF assms(1), of 4] maps_base [OF assms(1)] mapsD [OF assms(2), of 4] maps_base [OF assms(2)]
  by (simp add: driver_defs second_initial_def second_ok_def extends_def)

lemma ts_load:
  assumes "maps E 0x58000000 24" and "e_input_allocate_device E \<noteq> NULL"
  shows "let s = step (s3c_ts_init E) (ts_initial now m) in ts_inv s \<and>
    (\<exists>V. set [(s3c_ts_regs s, 24)] \<subseteq> set V \<and> extends [] (ts_initial now m) s V)"
  using mapsD [OF assms(1), of adccon] mapsD [OF assms(1), of adctsc] mapsD [OF assms(1), of adcdly]
    mapsD [OF assms(1), of adcdat0] mapsD [OF assms(1), of adcdat1] maps_base [OF assms(1)] assms(2)
  by (simp add: driver_defs ts_initial_def add_static_timer_def ts_inv_def ts_mapped_def ts_offsets extends_def)

lemma nand_load:
  assumes "maps E 0x4E000000 64" and "e_kzalloc E sz \<noteq> NULL" and "e_nand_scan E (e_kzalloc E sz) = 0"
    and "e_clk_get E ''nand'' \<noteq> NULL" and "\<not> e_IS_ERR E (e_clk_get E ''nand'')"
  shows "let s = step (s3c_nand_init sz E) (nand_initial m) in nand_ok s \<and>
    (\<exists>V. set [(s3c_nand_regs s, 64)] \<subseteq> set V \<and> extends [] (nand_initial m) s V)"
  using mapsD [OF assms(1), of nfcont] mapsD [OF assms(1), of nfcmd] mapsD [OF assms(1), of nfaddr]
    mapsD [OF assms(1), of nfstat] maps_base [OF assms(1)] assms(2-)
  by (simp add: driver_defs nand_initial_def nand_ok_def nand_offsets extends_def)

definition lcd_maps :: "kenv \<Rightarrow> nat \<Rightarrow> bool" where
  "lcd_maps E n \<longleftrightarrow> maps E 0x56000010 8 \<and> maps E 0x56000020 4 \<and> maps E 0x56000030 4 \<and> maps E 0x56000060 4 \<and>
     maps E 0x4D000000 n"

text \<open>Phase by phase: \<open>lcd_wins\<close> are the windows in the end, \<open>lcd_bank\<close> says that the GPIO part is set up.\<close>

definition gpio_wins :: "kenv \<Rightarrow> (ptr \<times> nat) list" where
  "gpio_wins E = [(e_ioremap E 0x56000060 4, 4), (e_ioremap E 0x56000030 4, 4),
     (e_ioremap E 0x56000020 4, 4), (e_ioremap E 0x56000010 8, 8)]"

definition lcd_wins :: "kenv \<Rightarrow> nat \<Rightarrow> (ptr \<times> nat) list" where
  "lcd_wins E n = (e_ioremap E 0x4D000000 n, n) # gpio_wins E"

definition lcd_bank :: "kenv \<Rightarrow> lcd_state \<Rightarrow> bool" where
  "lcd_bank E s \<longleftrightarrow> lcd_ready s \<and> gpbcon s = e_ioremap E 0x56000010 8 \<and> gpbdat s = gpbcon s + 4"

lemma fill_inside:
  assumes "e_framebuffer_alloc E \<noteq> NULL" and "m \<in> {lcd_fill_info E, lcd43_fill_info E}"
  shows "\<exists>t. run_state m (lcd_initial mem) = ((), t) \<and> lcd_ready t \<and> extends [] (lcd_initial mem) t []"
  using assms by (auto simp: lcd_phases kernel_calls lcd_initial_def lcd_ready_def extends_def)

lemma gpio_inside:
  assumes "lcd_ready s" and "lcd_maps E n" and "m \<in> {lcd_setup_gpio E, lcd43_setup_gpio E}"
  shows "\<exists>t. run_state m s = ((), t) \<and> lcd_bank E t \<and> extends [] s t (gpio_wins E)"
proof -
  note m = assms(2) [unfolded lcd_maps_def]
  have "e_ioremap E 0x56000010 8 + 4 \<noteq> NULL" "e_ioremap E 0x56000010 8 \<noteq> NULL" "e_ioremap E 0x56000020 4 \<noteq> NULL"
    "e_ioremap E 0x56000030 4 \<noteq> NULL" "e_ioremap E 0x56000060 4 \<noteq> NULL"
    using m mapsD [of E "0x56000010" 8 4] maps_base [of E "0x56000010" 8] maps_base [of E "0x56000020" 4]
      maps_base [of E "0x56000030" 4] maps_base [of E "0x56000060" 4] by simp_all
  with assms(1,3) show ?thesis
    by (auto simp: lcd_phases kernel_calls lcd_ready_def lcd_bank_def gpio_wins_def extends_def
        split del: if_split)
qed

lemma regs_nonnull:
  assumes "lcd_maps E n" and "100 \<le> n"
    and "off \<in> {lcdcon1, lcdcon2, lcdcon3, lcdcon4, lcdcon5, lcdsaddr1, lcdsaddr2, lcdsaddr3}"
  shows "e_ioremap E 0x4D000000 n + off \<noteq> NULL" and "unat off + 4 \<le> n"
  using mapsD [of E "0x4D000000" n off] maps_base [of E "0x4D000000" n] assms
  by (auto simp: lcd_offsets lcd_maps_def)

lemma regs_inside:
  assumes "lcd_bank E s" and "lcd_maps E n" and "(n, m) \<in> {(104, lcd_setup_regs E), (100, lcd43_setup_regs E)}"
  shows "\<exists>t. run_state m s = ((), t) \<and> lcd_bank E t \<and> lcd_regs t = e_ioremap E 0x4D000000 n \<and>
    extends (gpio_wins E) s t (lcd_wins E n)"
proof -
  have "100 \<le> n" using assms(3) by auto
  note r = regs_nonnull [OF assms(2) this] maps_base [of E "0x4D000000" n]
  from assms(1,2) \<open>100 \<le> n\<close> assms(3) show ?thesis
    using r(1) [of lcdcon1] r(1) [of lcdcon2] r(1) [of lcdcon3] r(1) [of lcdcon4] r(1) [of lcdcon5] r(3) r(2)
    by (auto simp: lcd_phases kernel_calls lcd_bank_def lcd_ready_def lcd_wins_def lcd_maps_def extends_def
        split del: if_split)
qed

lemma buffer_inside:
  assumes "lcd_bank E s" and "lcd_maps E n" and "100 \<le> n" and "lcd_regs s = e_ioremap E 0x4D000000 n"
    and "m \<in> {lcd_setup_buffer E, lcd43_setup_buffer E}"
  shows "\<exists>t. run_state m s = ((), t) \<and> lcd_bank E t \<and> lcd_regs t = e_ioremap E 0x4D000000 n \<and>
    extends (lcd_wins E n) s t (lcd_wins E n)"
proof -
  note r = regs_nonnull [OF assms(2,3)]
  from assms(1,4,5) show ?thesis
    using r(1) [of lcdsaddr1] r(1) [of lcdsaddr2] r(1) [of lcdsaddr3] r(2)
    by (auto simp: lcd_phases kernel_calls lcd_bank_def lcd_ready_def lcd_wins_def extends_def split: prod.split)
qed

lemma enable_inside:
  assumes "lcd_bank E s" and "lcd_maps E n" and "100 \<le> n" and "lcd_regs s = e_ioremap E 0x4D000000 n"
    and "m \<in> {lcd_enable, lcd43_enable}"
  shows "\<exists>t. run_state m s = ((), t) \<and> lcd_bank E t \<and> lcd_regs t = e_ioremap E 0x4D000000 n \<and>
    extends (lcd_wins E n) s t (lcd_wins E n)"
proof -
  note r = regs_nonnull [OF assms(2,3)]
  have "e_ioremap E 0x56000010 8 + 4 \<noteq> NULL"
    using assms(2) mapsD [of E "0x56000010" 8 4] by (simp add: lcd_maps_def)
  moreover from assms(5) have "m = lcd_enable \<or> m = lcd43_enable" by simp
  ultimately show ?thesis
    using assms(1,4) r(1) [of lcdcon1] r(1) [of lcdcon5] r(2)
    by (elim disjE) (simp_all add: lcd_phases lcd_bank_def lcd_ready_def lcd_wins_def gpio_wins_def extends_def
        split del: if_split)
qed

lemma lcd_load:
  assumes "lcd_maps E n" and "e_framebuffer_alloc E \<noteq> NULL"
    and "(n, init) \<in> {(104, lcd_init E), (100, lcd43_init E)}"
  shows "let s = step init (lcd_initial m) in lcd_ok s \<and>
    (\<exists>V. set [(lcd_regs s, n), (gpbcon s, 8)] \<subseteq> set V \<and> extends [] (lcd_initial m) s V)"
proof -
  from assms(3) obtain A B C D F where init: "init = do { A; B; C; D; F; f \<leftarrow> gets s3c_lcd; register_framebuffer E f;
      State_Monad.return 0 }"
    and ph: "A \<in> {lcd_fill_info E, lcd43_fill_info E}" "B \<in> {lcd_setup_gpio E, lcd43_setup_gpio E}"
      "(n, C) \<in> {(104, lcd_setup_regs E), (100, lcd43_setup_regs E)}"
      "D \<in> {lcd_setup_buffer E, lcd43_setup_buffer E}" "F \<in> {lcd_enable, lcd43_enable}"
    unfolding lcd_init_def lcd43_init_def by blast
  have n: "100 \<le> n" using assms(3) by auto
  from fill_inside [OF assms(2) ph(1)] obtain t1 where t1: "run_state A (lcd_initial m) = ((), t1)"
    "lcd_ready t1" "extends [] (lcd_initial m) t1 []" by blast
  from gpio_inside [OF t1(2) assms(1) ph(2)] obtain t2 where t2: "run_state B t1 = ((), t2)" "lcd_bank E t2"
    "extends [] t1 t2 (gpio_wins E)" by blast
  from regs_inside [OF t2(2) assms(1) ph(3)] obtain t3 where t3: "run_state C t2 = ((), t3)" "lcd_bank E t3"
    "lcd_regs t3 = e_ioremap E 0x4D000000 n" "extends (gpio_wins E) t2 t3 (lcd_wins E n)" by blast
  from buffer_inside [OF t3(2) assms(1) n t3(3) ph(4)] obtain t4 where t4: "run_state D t3 = ((), t4)" "lcd_bank E t4"
    "lcd_regs t4 = e_ioremap E 0x4D000000 n" "extends (lcd_wins E n) t3 t4 (lcd_wins E n)" by blast
  from enable_inside [OF t4(2) assms(1) n t4(3) ph(5)] obtain t5 where t5: "run_state F t4 = ((), t5)" "lcd_bank E t5"
    "lcd_regs t5 = e_ioremap E 0x4D000000 n" "extends (lcd_wins E n) t4 t5 (lcd_wins E n)" by blast
  let ?s = "step init (lcd_initial m)"
  have last: "?s = t5\<lparr>ktrace := ktrace t5 @ [KFb (RegisterFramebuffer (s3c_lcd t5) (e_register_framebuffer E (s3c_lcd t5)))]\<rparr>"
    unfolding init using t1(1) t2(1) t3(1) t4(1) t5(1,2) by (simp add: lcd_bank_def lcd_ready_def kernel_calls)
  have "extends (lcd_wins E n) t5 ?s (lcd_wins E n)" unfolding last by (simp add: extends_def)
  with t1(3) t2(3) t3(4) t4(4) t5(4) have "extends [] (lcd_initial m) ?s (lcd_wins E n)"
    by (blast intro: extends_trans)
  moreover have "lcd_ok ?s"
    unfolding last using t5(2,3) regs_nonnull(1) [OF assms(1) n] assms(1) mapsD [of E "0x56000010" 8 4]
    by (simp add: lcd_ok_def lcd_bank_def lcd_ready_def lcd_maps_def)
  moreover have "set [(lcd_regs ?s, n), (gpbcon ?s, 8)] \<subseteq> set (lcd_wins E n)"
    unfolding last using t5(2,3) by (simp add: lcd_wins_def gpio_wins_def lcd_bank_def)
  ultimately show ?thesis unfolding Let_def by blast
qed

section \<open>Unloading\<close>

lemma unload_inside:
  "first_ready s \<Longrightarrow> \<exists>U. extends V s (step first_drv_exit s) U"
  "led_ready l \<Longrightarrow> \<exists>U. extends V l (step led_remove l) U"
  "second_ok b \<Longrightarrow> \<exists>U. extends V b (step second_drv_exit b) U"
  "ts_inv t \<Longrightarrow> \<exists>U. extends V t (step s3c_ts_exit t) U"
  "nand_ok n \<Longrightarrow> \<exists>U. extends V n (step s3c_nand_exit n) U"
  by (simp_all add: first_ready_def led_ready_def second_ok_def ts_inv_def nand_ok_def driver_defs
      del_timer_def extends_def)

lemma lcd_unload_inside:
  assumes "lcd_ok s" and "set [(lcd_regs s, n), (gpbcon s, 8)] \<subseteq> set V" and "100 \<le> n"
  shows "\<exists>U. extends V s (step lcd_exit s) U" and "\<exists>U. extends V s (step lcd43_exit s) U"
proof -
  have "covers V (lcd_regs s + off)" if "off \<in> {lcdcon1, lcdcon5}" for off
    using assms(2,3) that by (intro covers_in [of _ n]) (auto simp: lcd_offsets)
  with assms(1,2) show "\<exists>U. extends V s (step lcd_exit s) U" "\<exists>U. extends V s (step lcd43_exit s) U"
    by (auto simp: lcd_ok_def lcd_ready_def lcd_exit_def lcd43_exit_def extends_def)
qed

definition module_trace ::
  "('a kstate_scheme, 'r) state \<Rightarrow> ('a kstate_scheme \<Rightarrow> 'a kstate_scheme) list \<Rightarrow> ('a kstate_scheme, 'q) state \<Rightarrow>
   'a kstate_scheme \<Rightarrow> kcall list" where
  "module_trace init fs exit_fn s = ktrace (step exit_fn (fold (\<lambda>f. f) fs (step init s)))"

section \<open>Properties\<close>


lemma sample_maps: "0 < unat (p + 0x98000000) \<Longrightarrow> unat (p + 0x98000000) + n \<le> 2 ^ 32 \<Longrightarrow> maps sample_env p n"
proof -
  assume p: "0 < unat (p + 0x98000000)" "unat (p + 0x98000000) + n \<le> 2 ^ 32"
  have "p + 0x98000000 + of_nat k \<noteq> 0" if "k < n" for k
  proof -
    from that p have "unat (p + 0x98000000 + of_nat k) = unat (p + 0x98000000) + k"
      by (simp add: unat_word_ariths(1) take_bit_nat_eq_self unat_of_nat)
    with p(1) show ?thesis by (metis add_gr_0 less_irrefl unat_0)
  qed
  then show ?thesis by (simp add: maps_def sample_env_def)
qed



end
