(* ===== verification/Mousekb.thy ===== *)
theory Mousekb
  imports Kernel
begin

text \<open>
  The USB mouse that types, \<open>src/Drivers/12.usb/usb_mousekb.c\<close>: a completed interrupt URB carries
  the button bits of the mouse in its first byte; the driver reports a key for every bit that
  changed and submits the URB again. \<open>button_edges\<close> is what one completion reports, \<open>key_level\<close>
  the state of a key that user space derives from the reports.
\<close>

section \<open>usb_mousekb.c\<close>

text \<open>
  \<open>usb_data\<close> is the first byte of the DMA buffer, which the host controller writes; \<open>urb_pipe\<close> is
  the pipe field of the URB.
\<close>

record mkb_state = kstate +
  uk_dev :: ptr
  usb_buf :: ptr
  usb_buf_phys :: u32
  mkb_len :: nat
  uk_urb :: ptr
  urb_pipe :: u32
  usb_data :: u8
  pre_val :: u8

definition mkb_initial :: mkb_state where
  "mkb_initial = \<lparr>ktrace = [], kmem = (\<lambda>_. 0), kfault = None, uk_dev = NULL, usb_buf = NULL,
     usb_buf_phys = 0, mkb_len = 0, uk_urb = NULL, urb_pipe = 0, usb_data = 0, pre_val = 0\<rparr>"

definition input_event_sync :: "key \<Rightarrow> int \<Rightarrow> (mkb_state, unit) state" where
  "input_event_sync k v = do {
     call (KInput (Report (KeyEvent k v)));
     call (KInput (Report SynReport)) }"

definition usb_mousekb_irq :: "kenv \<Rightarrow> (mkb_state, unit) state" where
  "usb_mousekb_irq E = do {
     buf \<leftarrow> gets usb_buf;
     deref buf;
     pre \<leftarrow> gets pre_val;
     b \<leftarrow> gets usb_data;
     (if pre AND push_bit 0 1 \<noteq> b AND push_bit 0 1
      then input_event_sync KEY_L (if b AND push_bit 0 1 \<noteq> 0 then 1 else 0)
      else State_Monad.return ());
     (if pre AND push_bit 1 1 \<noteq> b AND push_bit 1 1
      then input_event_sync KEY_S (if b AND push_bit 1 1 \<noteq> 0 then 1 else 0)
      else State_Monad.return ());
     (if pre AND push_bit 2 1 \<noteq> b AND push_bit 2 1
      then input_event_sync KEY_L (if b AND push_bit 2 1 \<noteq> 0 then 1 else 0)
      else State_Monad.return ());
     upd (\<lambda>s. s\<lparr>pre_val := usb_data s\<rparr>);
     urb \<leftarrow> gets uk_urb;
     usb_submit_urb E urb;
     State_Monad.return () }"

text \<open>
  \<open>wMaxPacketSize\<close> comes from the endpoint descriptor; \<open>junk\<close> is the value of the local \<open>pipe\<close>, which
  \<open>usb_mousekb_probe\<close> never sets.
\<close>

definition usb_mousekb_probe :: "kenv \<Rightarrow> nat \<Rightarrow> u32 \<Rightarrow> (mkb_state, nat) state" where
  "usb_mousekb_probe E wMaxPacketSize junk = do {
     dev \<leftarrow> input_allocate_device E;
     upd (\<lambda>s. s\<lparr>uk_dev := dev\<rparr>);
     deref dev;
     call (KInput (SetEvbit EV_KEY));
     call (KInput (SetEvbit EV_REP));
     call (KInput (SetKeybit KEY_L));
     call (KInput (SetKeybit KEY_S));
     call (KInput (SetKeybit KEY_ENTER));
     call (KInput (InputRegister dev));
     upd (\<lambda>s. s\<lparr>mkb_len := wMaxPacketSize\<rparr>);
     (buf, phys) \<leftarrow> usb_buffer_alloc E wMaxPacketSize;
     upd (\<lambda>s. s\<lparr>usb_buf := buf, usb_buf_phys := phys\<rparr>);
     urb \<leftarrow> usb_alloc_urb E;
     upd (\<lambda>s. s\<lparr>uk_urb := urb\<rparr>);
     deref urb;
     upd (\<lambda>s. s\<lparr>urb_pipe := junk\<rparr>);
     usb_submit_urb E urb;
     State_Monad.return 0 }"

definition usbmousekb_disconnect :: "(mkb_state, unit) state" where
  "usbmousekb_disconnect = do {
     s \<leftarrow> State_Monad.get;
     call (KUsb (UsbKillUrb (uk_urb s)));
     call (KUsb (UsbFreeUrb (uk_urb s)));
     call (KUsb (UsbBufferFree (mkb_len s) (usb_buf s) (usb_buf_phys s)));
     call (KInput (InputUnregister (uk_dev s)));
     call (KInput (InputFree (uk_dev s))) }"

definition usb_mousekb_init :: "kenv \<Rightarrow> (mkb_state, nat) state" where
  "usb_mousekb_init E = do {
     result \<leftarrow> ask (e_usb_register E) (KUsb (UsbRegister (e_usb_register E)));
     State_Monad.return 0 }"

definition usb_mousekb_exit :: "(mkb_state, unit) state" where
  "usb_mousekb_exit = call (KUsb UsbDeregister)"

lemmas mkb_defs [driver_defs] = input_event_sync_def usb_mousekb_irq_def usb_mousekb_probe_def
  usbmousekb_disconnect_def usb_mousekb_init_def usb_mousekb_exit_def

section \<open>Edges\<close>

definition button_edges :: "u8 \<Rightarrow> u8 \<Rightarrow> input_report list" where
  "button_edges p b = concat (map (\<lambda>(i, k). if bit p i = bit b i then []
     else [KeyEvent k (of_bool (bit b i)), SynReport]) [(0, KEY_L), (1, KEY_S), (2, KEY_L)])"

fun edges :: "u8 \<Rightarrow> u8 list \<Rightarrow> input_report list" where
  "edges p [] = []"
| "edges p (b # bs) = button_edges p b @ edges b bs"

text \<open>The completion of one URB whose buffer starts with the byte \<open>b\<close>.\<close>

definition complete :: "kenv \<Rightarrow> u8 \<Rightarrow> mkb_state \<Rightarrow> mkb_state" where
  "complete E b s = snd (run_state (usb_mousekb_irq E) (s\<lparr>usb_data := b\<rparr>))"

definition key_level :: "key \<Rightarrow> input_report list \<Rightarrow> bool" where
  "key_level k rs = foldl (\<lambda>l r. case r of KeyEvent k' v \<Rightarrow> if k' = k then v \<noteq> 0 else l | _ \<Rightarrow> l) False rs"

definition submits :: "kcall list \<Rightarrow> nat" where
  "submits t = length (filter (\<lambda>c. case c of KUsb (UsbSubmitUrb u r) \<Rightarrow> True | _ \<Rightarrow> False) t)"

lemma mask_bits:
  fixes p b :: u8
  shows "p AND 1 = b AND 1 \<longleftrightarrow> bit p 0 = bit b 0" and "p AND 2 = b AND 2 \<longleftrightarrow> bit p 1 = bit b 1"
    and "p AND 4 = b AND 4 \<longleftrightarrow> bit p 2 = bit b 2"
    and "b AND 1 = 0 \<longleftrightarrow> \<not> bit b 0" and "b AND 2 = 0 \<longleftrightarrow> \<not> bit b 1" and "b AND 4 = 0 \<longleftrightarrow> \<not> bit b 2"
proof -
  have split: "w AND 2 ^ n = (if bit w n then 2 ^ n else 0)" for w :: u8 and n
    by (rule bit_word_eqI) (auto simp: bit_and_iff bit_exp_iff)
  note s = split [of _ 0, simplified] split [of _ 1, simplified] split [of _ 2, simplified]
  show "p AND 1 = b AND 1 \<longleftrightarrow> bit p 0 = bit b 0" "p AND 2 = b AND 2 \<longleftrightarrow> bit p 1 = bit b 1"
    "p AND 4 = b AND 4 \<longleftrightarrow> bit p 2 = bit b 2"
    "b AND 1 = 0 \<longleftrightarrow> \<not> bit b 0" "b AND 2 = 0 \<longleftrightarrow> \<not> bit b 1" "b AND 4 = 0 \<longleftrightarrow> \<not> bit b 2"
    by (simp_all add: s)
qed

lemma complete_effect:
  assumes "kfault s = None" and "usb_buf s \<noteq> NULL"
  shows "kfault (complete E b s) = None \<and> usb_buf (complete E b s) = usb_buf s \<and>
    pre_val (complete E b s) = b \<and> uk_urb (complete E b s) = uk_urb s \<and>
    submits (ktrace (complete E b s)) = Suc (submits (ktrace s)) \<and>
    input_reports (ktrace (complete E b s)) = input_reports (ktrace s) @ button_edges (pre_val s) b"
  using assms
  by (cases "bit (pre_val s) 0 = bit b 0"; cases "bit (pre_val s) 1 = bit b 1";
      cases "bit (pre_val s) 2 = bit b 2")
    (simp_all add: complete_def driver_defs mask_bits submits_def button_edges_def)

lemma completions_effect:
  assumes "kfault s = None" and "usb_buf s \<noteq> NULL"
  shows "kfault (fold (complete E) bs s) = None \<and>
    pre_val (fold (complete E) bs s) = last (pre_val s # bs) \<and>
    submits (ktrace (fold (complete E) bs s)) = submits (ktrace s) + length bs \<and>
    input_reports (ktrace (fold (complete E) bs s)) =
      input_reports (ktrace s) @ edges (pre_val s) bs"
  using assms
proof (induction bs arbitrary: s)
  case (Cons b bs)
  note e = complete_effect [OF Cons.prems, of E b]
  with Cons.IH [of "complete E b s"] Cons.prems show ?case by simp
qed simp

section \<open>Levels\<close>

lemma key_level_edges:
  "foldl (\<lambda>l r. case r of KeyEvent k' v \<Rightarrow> if k' = KEY_S then v \<noteq> 0 else l | _ \<Rightarrow> l) (bit p 1)
     (edges p bs) = bit (last (p # bs)) 1"
proof (induction bs arbitrary: p)
  case (Cons b bs)
  have "foldl (\<lambda>l r. case r of KeyEvent k' v \<Rightarrow> if k' = KEY_S then v \<noteq> 0 else l | _ \<Rightarrow> l) (bit p 1)
    (button_edges p b) = bit b 1"
    by (simp add: button_edges_def)
  with Cons.IH [of b] show ?case by simp
qed simp

lemma edges_keys: "KeyEvent k v \<in> set (edges p bs) \<Longrightarrow> k \<in> {KEY_L, KEY_S} \<and> v \<in> {0, 1}"
  by (induction bs arbitrary: p) (auto simp: button_edges_def split: if_splits)

lemma probe_state:
  assumes "e_input_allocate_device E \<noteq> NULL" and "e_usb_alloc_urb E \<noteq> NULL"
    and "fst (e_usb_buffer_alloc E n) \<noteq> NULL"
  shows "\<exists>s. exec (usb_mousekb_probe E n junk) mkb_initial = Inr (0, s) \<and> kfault s = None \<and>
    usb_buf s \<noteq> NULL \<and> pre_val s = 0 \<and> submits (ktrace s) = 1 \<and> input_reports (ktrace s) = [] \<and>
    urb_pipe s = junk"
  using assms
  by (cases "e_usb_buffer_alloc E n")
    (simp add: driver_defs exec_def mkb_initial_def submits_def)

text \<open>
  C13: The mouse driver detects edges correctly. Once \<open>usb_mousekb_probe\<close> got its input device,
  buffer and URB, after any sequence of completed URBs the key \<open>S\<close> is down for user space exactly if
  the right button is held in the last one (bit 1), every reported key is \<open>L\<close> or \<open>S\<close>, so \<open>ENTER\<close> is
  never reported although it is declared, the driver remembers the last byte, and the URB was
  submitted once per completion after the first time.
\<close>

theorem mousekb_tracks_buttons:
  assumes "e_input_allocate_device E \<noteq> NULL" and "e_usb_alloc_urb E \<noteq> NULL"
    and "fst (e_usb_buffer_alloc E n) \<noteq> NULL"
  shows "\<exists>s. exec (usb_mousekb_probe E n junk) mkb_initial = Inr (0, s) \<and>
    (let t = fold (complete E) bs s in
      kfault t = None \<and> pre_val t = last (0 # bs) \<and> submits (ktrace t) = Suc (length bs) \<and>
      key_level KEY_S (input_reports (ktrace t)) = bit (last (0 # bs)) 1 \<and>
      (\<forall>k v. KeyEvent k v \<in> set (input_reports (ktrace t)) \<longrightarrow> k \<in> {KEY_L, KEY_S} \<and> v \<in> {0, 1}))"
proof -
  from probe_state [OF assms, of junk] obtain s where s:
    "exec (usb_mousekb_probe E n junk) mkb_initial = Inr (0, s)" "kfault s = None" "usb_buf s \<noteq> NULL"
    "pre_val s = 0" "submits (ktrace s) = 1" "input_reports (ktrace s) = []"
    by blast
  have "key_level KEY_S (edges 0 bs) = bit (last (0 # bs)) 1"
    using key_level_edges [of 0 bs] by (simp add: key_level_def)
  with completions_effect [OF s(2,3), of E bs] s edges_keys [of _ _ 0 bs] show ?thesis
    by (auto simp: Let_def)
qed

theorem mousekb_tracks_buttons_witness:
  "\<exists>s. exec (usb_mousekb_probe sample_env 4 0) mkb_initial = Inr (0, s) \<and>
     key_level KEY_S (input_reports (ktrace (fold (complete sample_env) [2, 3] s)))"
proof -
  have h: "e_input_allocate_device sample_env \<noteq> NULL" "e_usb_alloc_urb sample_env \<noteq> NULL"
    "fst (e_usb_buffer_alloc sample_env 4) \<noteq> NULL"
    by (simp_all add: sample_env_def)
  from mousekb_tracks_buttons [OF h, of 0 "[2, 3]"] show ?thesis by (auto simp: Let_def)
qed

text \<open>
  The left and the middle button both report \<open>KEY_L\<close> (the middle one was meant to be \<open>KEY_ENTER\<close>): with both
  held, releasing the left one tells user space that \<open>L\<close> is up.
\<close>

lemma middle_button_shadows_left:
  "key_level KEY_L (edges 0 [1, 5, 4]) = False \<and> bit (4 :: u8) 2"
  by (simp add: key_level_def button_edges_def)

text \<open>The pipe of the URB is whatever the uninitialised local holds.\<close>

lemma pipe_uninitialised:
  assumes "e_input_allocate_device E \<noteq> NULL" and "e_usb_alloc_urb E \<noteq> NULL"
    and "fst (e_usb_buffer_alloc E n) \<noteq> NULL"
  shows "\<exists>s. exec (usb_mousekb_probe E n junk) mkb_initial = Inr (0, s) \<and> urb_pipe s = junk"
  using probe_state [OF assms] by blast

lemma disconnect_frees_twice:
  "let t = snd (run_state (do { usb_mousekb_probe sample_env 4 0; usbmousekb_disconnect }) mkb_initial)
   in kfault t = None \<and> account [] (butlast (ktrace t)) = Some [] \<and> account [] (ktrace t) = None"
  by (simp add: driver_defs mkb_initial_def sample_env_def Let_def)

text \<open>\<open>usb_mousekb_init\<close> reports success although the registration failed.\<close>

lemma init_hides_failure:
  "fst (run_state (usb_mousekb_init E) mkb_initial) = 0"
  by (simp add: driver_defs mkb_initial_def)

end
