(* ===== verification/Usb_Skel.thy ===== *)
theory Usb_Skel
  imports Kernel
begin

text \<open>
  The USB driver skeleton \<open>src/ex_source/usb-skeleton_ym.c\<close>: probe and disconnect, open and release, read,
  write with up to eight URBs in flight, and the completion callback.

  The operations are programs over \<open>skel_state\<close>, cut at the places where the code drops a lock or gives
  the device structure to another context; an access to the structure after \<open>skel_delete\<close> is the fault
  \<open>UseAfterFree\<close>. \<open>skel_step\<close> interleaves the pieces over a multiset of tasks. The parameter \<open>core\<close> of the
  relation is what the USB core guarantees: \<open>disconnect\<close> is called when no URB is in flight, and no URB is
  accepted once it has been called. The invariant proves the reference count, the semaphore and the
  absence of any access after the release; without \<open>core\<close> such an access is reachable.
\<close>

section \<open>State\<close>

definition WRITES_IN_FLIGHT :: nat where
  "WRITES_IN_FLIGHT = 8"

definition MAX_TRANSFER :: nat where
  "MAX_TRANSFER = 4096 - 512"

text \<open>The size of \<open>struct usb_skel\<close>, as asked of \<open>kzalloc\<close>.\<close>

definition SKEL_SIZE :: nat where
  "SKEL_SIZE = 56"

record skel_state = kstate +
  sk_dev :: ptr
  sk_kref :: nat
  sk_sem :: nat
  sk_interface :: bool
  sk_intfdata :: bool
  sk_in_buffer :: ptr
  sk_in_size :: nat
  sk_in_addr :: u8
  sk_out_addr :: u8
  sk_freed :: bool

definition skel_initial :: skel_state where
  "skel_initial = \<lparr>ktrace = [], kmem = (\<lambda>_. 0), kfault = None, sk_dev = NULL, sk_kref = 0, sk_sem = 0,
     sk_interface = False, sk_intfdata = False, sk_in_buffer = NULL, sk_in_size = 0, sk_in_addr = 0,
     sk_out_addr = 0, sk_freed = False\<rparr>"

text \<open>An access to the device structure.\<close>

definition touch :: "(skel_state, unit) state" where
  "touch = do { s \<leftarrow> State_Monad.get;
     (if sk_freed s then panic UseAfterFree else State_Monad.return ()) }"

definition skel_delete :: "(skel_state, unit) state" where
  "skel_delete = do {
     s \<leftarrow> State_Monad.get;
     call (KUsb UsbPutDev);
     call (KMem (Kfree (sk_in_buffer s)));
     call (KMem (Kfree (sk_dev s)));
     upd (\<lambda>s. s\<lparr>sk_freed := True\<rparr>) }"

definition kref_put :: "(skel_state, unit) state" where
  "kref_put = do {
     touch;
     upd (\<lambda>s. s\<lparr>sk_kref := sk_kref s - 1\<rparr>);
     s \<leftarrow> State_Monad.get;
     (if sk_kref s = 0 then skel_delete else State_Monad.return ()) }"

section \<open>Probe and disconnect\<close>

record endpoint =
  ep_bulk :: bool
  ep_addr :: u8
  ep_max_packet :: u16

definition usb_endpoint_is_bulk_in :: "endpoint \<Rightarrow> bool" where
  "usb_endpoint_is_bulk_in e \<longleftrightarrow> ep_bulk e \<and> bit (ep_addr e) 7"

definition usb_endpoint_is_bulk_out :: "endpoint \<Rightarrow> bool" where
  "usb_endpoint_is_bulk_out e \<longleftrightarrow> ep_bulk e \<and> \<not> bit (ep_addr e) 7"

text \<open>The body of the loop over the endpoints, and the loop; \<open>False\<close> is the jump to \<open>error\<close>.\<close>

definition skel_endpoint :: "kenv \<Rightarrow> endpoint \<Rightarrow> (skel_state, bool) state" where
  "skel_endpoint E e = do {
     s \<leftarrow> State_Monad.get;
     ok \<leftarrow> (if sk_in_addr s = 0 \<and> usb_endpoint_is_bulk_in e
       then do {
         upd (\<lambda>s. s\<lparr>sk_in_size := unat (ep_max_packet e), sk_in_addr := ep_addr e\<rparr>);
         b \<leftarrow> kzalloc E (unat (ep_max_packet e));
         upd (\<lambda>s. s\<lparr>sk_in_buffer := b\<rparr>);
         State_Monad.return (b \<noteq> NULL) }
       else State_Monad.return True);
     (if ok \<and> sk_out_addr s = 0 \<and> usb_endpoint_is_bulk_out e
      then upd (\<lambda>s. s\<lparr>sk_out_addr := ep_addr e\<rparr>) else State_Monad.return ());
     State_Monad.return ok }"

fun skel_endpoints :: "kenv \<Rightarrow> endpoint list \<Rightarrow> (skel_state, bool) state" where
  "skel_endpoints E [] = State_Monad.return True"
| "skel_endpoints E (e # es) = do {
     ok \<leftarrow> skel_endpoint E e;
     (if ok then skel_endpoints E es else State_Monad.return False) }"

text \<open>\<open>reg\<close> is the answer of \<open>usb_register_dev\<close>: an error, or \<open>None\<close> for 0.\<close>

definition skel_probe :: "kenv \<Rightarrow> errno option \<Rightarrow> endpoint list \<Rightarrow> (skel_state, c_int) state" where
  "skel_probe E reg eps = do {
     d \<leftarrow> kzalloc E SKEL_SIZE;
     (if d = NULL then State_Monad.return (Inl ENOMEM)
      else do {
        upd (\<lambda>s. s\<lparr>sk_dev := d, sk_kref := 1, sk_sem := WRITES_IN_FLIGHT\<rparr>);
        call (KUsb UsbGetDev);
        upd (\<lambda>s. s\<lparr>sk_interface := True\<rparr>);
        ok \<leftarrow> skel_endpoints E eps;
        s \<leftarrow> State_Monad.get;
        (if \<not> ok \<or> \<not> (sk_in_addr s \<noteq> 0 \<and> sk_out_addr s \<noteq> 0)
         then do { kref_put; State_Monad.return (Inl ENOMEM) }
         else do {
           upd (\<lambda>s. s\<lparr>sk_intfdata := True\<rparr>);
           call (KUsb (UsbRegisterDev (reg = None)));
           (case reg of
              Some e \<Rightarrow> do { upd (\<lambda>s. s\<lparr>sk_intfdata := False\<rparr>); kref_put; State_Monad.return (Inl e) }
            | None \<Rightarrow> State_Monad.return (Inr 0)) }) }) }"

text \<open>\<open>skel_disconnect\<close>: under \<open>skel_open_lock\<close>, under \<open>io_mutex\<close>, and the release of its reference.\<close>

definition disconnect_locked :: "(skel_state, unit) state" where
  "disconnect_locked = do {
     upd (\<lambda>s. s\<lparr>sk_intfdata := False\<rparr>);
     call (KUsb UsbDeregisterDev) }"

definition disconnect_io :: "(skel_state, unit) state" where
  "disconnect_io = do { touch; upd (\<lambda>s. s\<lparr>sk_interface := False\<rparr>) }"

definition skel_disconnect :: "(skel_state, unit) state" where
  "skel_disconnect = do { disconnect_locked; disconnect_io; kref_put }"

section \<open>Open, release and read\<close>

text \<open>\<open>found\<close> says whether \<open>usb_find_interface\<close> finds the interface of the minor number.\<close>

definition open_lookup :: "bool \<Rightarrow> (skel_state, c_int) state" where
  "open_lookup found = do {
     s \<leftarrow> State_Monad.get;
     (if \<not> found \<or> \<not> sk_intfdata s then State_Monad.return (Inl ENODEV)
      else do { touch; upd (\<lambda>s. s\<lparr>sk_kref := sk_kref s + 1\<rparr>); State_Monad.return (Inr 0) }) }"

definition open_autopm :: "errno option \<Rightarrow> (skel_state, c_int) state" where
  "open_autopm pm = do {
     call (KUsb (UsbAutopmGet (pm = None)));
     (case pm of
        Some e \<Rightarrow> do { kref_put; State_Monad.return (Inl e) }
      | None \<Rightarrow> State_Monad.return (Inr 0)) }"

definition skel_open :: "bool \<Rightarrow> errno option \<Rightarrow> (skel_state, c_int) state" where
  "skel_open found pm = do {
     r \<leftarrow> open_lookup found;
     (case r of Inl e \<Rightarrow> State_Monad.return (Inl e) | Inr _ \<Rightarrow> open_autopm pm) }"

definition skel_release :: "(skel_state, c_int) state" where
  "skel_release = do {
     touch;
     s \<leftarrow> State_Monad.get;
     (if sk_interface s then call (KUsb UsbAutopmPut) else State_Monad.return ());
     kref_put;
     State_Monad.return (Inr 0) }"

text \<open>
  \<open>bulk n\<close> is what \<open>usb_bulk_msg\<close> answers when asked for \<open>n\<close> bytes: an error, or the number of bytes
  that arrived.
\<close>

definition skel_read :: "(nat \<Rightarrow> c_int) \<Rightarrow> bool \<Rightarrow> nat \<Rightarrow> (skel_state, c_int) state" where
  "skel_read bulk copy_fails cnt = do {
     touch;
     s \<leftarrow> State_Monad.get;
     (if \<not> sk_interface s then State_Monad.return (Inl ENODEV)
      else State_Monad.return (case bulk (min (sk_in_size s) cnt) of
        Inl e \<Rightarrow> Inl e
      | Inr n \<Rightarrow> if copy_fails then Inl EFAULT else Inr n)) }"

section \<open>Write\<close>

text \<open>A slot of the semaphore, then a URB and a buffer with the data of the user.\<close>

definition write_down :: "(skel_state, unit) state" where
  "write_down = do { touch; upd (\<lambda>s. s\<lparr>sk_sem := sk_sem s - 1\<rparr>) }"

definition write_prepare :: "kenv \<Rightarrow> nat \<Rightarrow> bool \<Rightarrow> (skel_state, errno option \<times> ptr \<times> ptr) state" where
  "write_prepare E n copy_fails = do {
     urb \<leftarrow> usb_alloc_urb E;
     (if urb = NULL then State_Monad.return (Some ENOMEM, NULL, NULL)
      else do {
        (buf, dma) \<leftarrow> usb_buffer_alloc E n;
        State_Monad.return
          (if buf = NULL then Some ENOMEM else if copy_fails then Some EFAULT else None, urb, buf) }) }"

text \<open>Under \<open>io_mutex\<close>; \<open>sub\<close> is the answer of \<open>usb_submit_urb\<close>.\<close>

definition write_submit :: "errno option \<Rightarrow> ptr \<Rightarrow> (skel_state, errno option) state" where
  "write_submit sub urb = do {
     touch;
     s \<leftarrow> State_Monad.get;
     (if \<not> sk_interface s then State_Monad.return (Some ENODEV)
      else do {
        call (KUsb (UsbSubmitUrb urb (if sub = None then 0 else -1)));
        State_Monad.return sub }) }"

definition write_error :: "nat \<Rightarrow> ptr \<Rightarrow> ptr \<Rightarrow> (skel_state, unit) state" where
  "write_error n urb buf = do {
     (if urb \<noteq> NULL then do {
        call (KUsb (UsbBufferFree n buf 0));
        call (KUsb (UsbFreeUrb urb)) } else State_Monad.return ());
     touch;
     upd (\<lambda>s. s\<lparr>sk_sem := sk_sem s + 1\<rparr>) }"

definition write_done :: "ptr \<Rightarrow> (skel_state, unit) state" where
  "write_done urb = call (KUsb (UsbFreeUrb urb))"

text \<open>
  The whole call. A call that finds no free slot sleeps until there is one or a signal interrupts it:
  a run of it from a state without free slots is the interrupted one.
\<close>

definition skel_write :: "kenv \<Rightarrow> bool \<Rightarrow> bool \<Rightarrow> errno option \<Rightarrow> nat \<Rightarrow> (skel_state, c_int) state" where
  "skel_write E interrupted copy_fails sub cnt =
     (let writesize = min cnt MAX_TRANSFER in
      if cnt = 0 then State_Monad.return (Inr 0)
      else do {
        s \<leftarrow> State_Monad.get;
        (if interrupted \<or> sk_sem s = 0 then do { touch; State_Monad.return (Inl ERESTARTSYS) }
         else do {
           write_down;
           (e, urb, buf) \<leftarrow> write_prepare E writesize copy_fails;
           (case e of
              Some e \<Rightarrow> do { write_error writesize urb buf; State_Monad.return (Inl e) }
            | None \<Rightarrow> do {
                e \<leftarrow> write_submit sub urb;
                (case e of
                   Some e \<Rightarrow> do { write_error writesize urb buf; State_Monad.return (Inl e) }
                 | None \<Rightarrow> do { write_done urb; State_Monad.return (Inr writesize) }) }) }) })"

definition skel_write_bulk_callback :: "nat \<Rightarrow> ptr \<Rightarrow> (skel_state, unit) state" where
  "skel_write_bulk_callback n buf = do {
     call (KUsb (UsbBufferFree n buf 0));
     touch;
     upd (\<lambda>s. s\<lparr>sk_sem := sk_sem s + 1\<rparr>) }"

definition usb_skel_init :: "kenv \<Rightarrow> (skel_state, int) state" where
  "usb_skel_init E = ask (e_usb_register E) (KUsb (UsbRegister (e_usb_register E)))"

definition usb_skel_exit :: "(skel_state, unit) state" where
  "usb_skel_exit = call (KUsb UsbDeregister)"

lemmas skel_defs [driver_defs] = touch_def skel_delete_def kref_put_def skel_probe_def
  disconnect_locked_def disconnect_io_def skel_disconnect_def open_lookup_def open_autopm_def
  skel_open_def skel_release_def skel_read_def write_down_def write_prepare_def write_submit_def
  write_error_def write_done_def skel_write_def skel_write_bulk_callback_def usb_skel_init_def
  usb_skel_exit_def

section \<open>Tasks and steps\<close>

text \<open>
  A task is what holds a claim on the device structure: the binding to the interface, the stages of
  \<open>skel_disconnect\<close>, an \<open>open\<close> before \<open>usb_autopm_get_interface\<close>, an open file, the stages of a write
  through that file, and a URB in flight, which holds no reference. A file makes one call at a time.
\<close>

datatype task =
    Bound | Unbinding | Unbound
  | Opening | Open_File
  | Slot nat | Prepared nat "errno option" ptr ptr | Failed nat ptr ptr
  | Flight nat ptr

fun has_ref :: "task \<Rightarrow> bool" where
  "has_ref (Flight n b) = False"
| "has_ref t = True"

fun has_slot :: "task \<Rightarrow> bool" where
  "has_slot (Slot n) = True"
| "has_slot (Prepared n e u b) = True"
| "has_slot (Failed n u b) = True"
| "has_slot (Flight n b) = True"
| "has_slot t = False"

definition refs :: "task multiset \<Rightarrow> nat" where
  "refs T = size (filter_mset has_ref T)"

definition slots :: "task multiset \<Rightarrow> nat" where
  "slots T = size (filter_mset has_slot T)"

definition no_flight :: "task multiset \<Rightarrow> bool" where
  "no_flight T \<longleftrightarrow> (\<forall>t \<in># T. has_ref t)"

type_synonym sys = "skel_state \<times> task multiset"

abbreviation after :: "(skel_state, 'a) state \<Rightarrow> skel_state \<Rightarrow> skel_state" where
  "after m s \<equiv> snd (run_state m s)"

abbreviation result :: "(skel_state, 'a) state \<Rightarrow> skel_state \<Rightarrow> 'a" where
  "result m s \<equiv> fst (run_state m s)"

inductive skel_step :: "bool \<Rightarrow> sys \<Rightarrow> sys \<Rightarrow> bool" for core :: bool where
  Lookup: "result (open_lookup found) s = Inr 0 \<Longrightarrow>
    skel_step core (s, T) (after (open_lookup found) s, add_mset Opening T)"
| Opened: "result (open_autopm pm) s = Inr 0 \<Longrightarrow>
    skel_step core (s, add_mset Opening T) (after (open_autopm pm) s, add_mset Open_File T)"
| Open_Fails: "result (open_autopm pm) s = Inl e \<Longrightarrow>
    skel_step core (s, add_mset Opening T) (after (open_autopm pm) s, T)"
| Release: "skel_step core (s, add_mset Open_File T) (after skel_release s, T)"
| Read: "skel_step core (s, add_mset Open_File T) (after (skel_read bulk f n) s, add_mset Open_File T)"
| Down: "0 < n \<Longrightarrow> n \<le> MAX_TRANSFER \<Longrightarrow> 0 < sk_sem s \<Longrightarrow>
    skel_step core (s, add_mset Open_File T) (after write_down s, add_mset (Slot n) T)"
| Prepare: "result (write_prepare E n f) s = (e, u, b) \<Longrightarrow>
    skel_step core (s, add_mset (Slot n) T) (after (write_prepare E n f) s, add_mset (Prepared n e u b) T)"
| Prepare_Fails: "skel_step core (s, add_mset (Prepared n (Some e) u b) T) (s, add_mset (Failed n u b) T)"
| Submit_Fails: "result (write_submit sub u) s = Some e \<Longrightarrow>
    skel_step core (s, add_mset (Prepared n None u b) T)
      (after (write_submit sub u) s, add_mset (Failed n u b) T)"
| Submitted: "result (write_submit None u) s = None \<Longrightarrow> (core \<Longrightarrow> Bound \<in># T) \<Longrightarrow>
    skel_step core (s, add_mset (Prepared n None u b) T)
      (after (write_done u) (after (write_submit None u) s), add_mset Open_File (add_mset (Flight n b) T))"
| Write_Fails: "skel_step core (s, add_mset (Failed n u b) T)
    (after (write_error n u b) s, add_mset Open_File T)"
| Complete: "skel_step core (s, add_mset (Flight n b) T) (after (skel_write_bulk_callback n b) s, T)"
| Disconnect: "(core \<Longrightarrow> no_flight T) \<Longrightarrow>
    skel_step core (s, add_mset Bound T) (after disconnect_locked s, add_mset Unbinding T)"
| Disconnect_IO: "skel_step core (s, add_mset Unbinding T) (after disconnect_io s, add_mset Unbound T)"
| Disconnect_Put: "skel_step core (s, add_mset Unbound T) (after kref_put s, T)"

inductive skel_reach :: "bool \<Rightarrow> sys \<Rightarrow> bool" for core :: bool where
  Probed: "run_state (skel_probe E reg eps) skel_initial = (Inr 0, s) \<Longrightarrow> skel_reach core (s, {#Bound#})"
| Step: "skel_reach core x \<Longrightarrow> skel_step core x y \<Longrightarrow> skel_reach core y"

section \<open>The invariant\<close>

text \<open>
  The reference count is the number of tasks with a reference; the structure is freed exactly when
  there is none; every slot is either in the semaphore or with a task; and what the interface knows of
  the structure is tied to the binding.
\<close>

definition skel_inv :: "bool \<Rightarrow> sys \<Rightarrow> bool" where
  "skel_inv core x \<longleftrightarrow> (case x of (s, T) \<Rightarrow> kfault s = None \<and> sk_kref s = refs T \<and>
     (sk_freed s \<longleftrightarrow> refs T = 0) \<and> sk_sem s + slots T = WRITES_IN_FLIGHT \<and>
     (sk_intfdata s \<longrightarrow> Bound \<in># T) \<and> (core \<and> \<not> no_flight T \<longrightarrow> Bound \<in># T))"

lemma refs_simps [simp]: "refs {#} = 0" "refs (add_mset t T) = (if has_ref t then 1 else 0) + refs T"
  by (simp_all add: refs_def)

lemma slots_simps [simp]: "slots {#} = 0" "slots (add_mset t T) = (if has_slot t then 1 else 0) + slots T"
  by (simp_all add: slots_def)

lemma no_flight_simps [simp]: "no_flight {#}" "no_flight (add_mset t T) \<longleftrightarrow> has_ref t \<and> no_flight T"
  by (auto simp: no_flight_def)

lemma bound_refs: "Bound \<in># T \<Longrightarrow> 0 < refs T"
  by (auto dest!: multi_member_split)

definition same_counts :: "skel_state \<Rightarrow> skel_state \<Rightarrow> bool" where
  "same_counts s s' \<longleftrightarrow> kfault s' = None \<and> sk_kref s' = sk_kref s \<and> sk_sem s' = sk_sem s \<and>
     sk_freed s' = sk_freed s \<and> sk_dev s' = sk_dev s \<and> sk_intfdata s' = sk_intfdata s"

lemma endpoint_keeps: "kfault s = None \<Longrightarrow> same_counts s (after (skel_endpoint E e) s)"
  by (simp add: same_counts_def skel_endpoint_def kernel_calls)

lemma endpoints_keep: "kfault s = None \<Longrightarrow> same_counts s (after (skel_endpoints E es) s)"
proof (induction es arbitrary: s)
  case (Cons e es)
  obtain ok s1 where s1: "run_state (skel_endpoint E e) s = (ok, s1)" by fastforce
  with endpoint_keeps [OF Cons.prems, of E e] have "same_counts s s1" by simp
  with Cons.IH [of s1] s1 show ?case by (auto simp: same_counts_def)
qed (simp add: same_counts_def)

lemma probed_inv:
  assumes "run_state (skel_probe E reg eps) skel_initial = (Inr 0, s)"
  shows "skel_inv core (s, {#Bound#})"
proof -
  let ?s = "skel_initial\<lparr>ktrace := [KMem (Kzalloc SKEL_SIZE (e_kzalloc E SKEL_SIZE))] @ [KUsb UsbGetDev],
    sk_dev := e_kzalloc E SKEL_SIZE, sk_kref := 1, sk_sem := WRITES_IN_FLIGHT, sk_interface := True\<rparr>"
  obtain ok s1 where run: "run_state (skel_endpoints E eps) ?s = (ok, s1)" by fastforce
  have "kfault ?s = None" by (simp add: skel_initial_def)
  from endpoints_keep [OF this, of E eps] assms run show ?thesis
    by (auto simp: skel_inv_def driver_defs skel_initial_def same_counts_def split: if_splits option.splits)
qed

lemma step_inv:
  assumes "skel_step True x y" and "skel_inv True x"
  shows "skel_inv True y"
  using assms
proof cases
  case (Complete s n b T)
  with assms(2) bound_refs [of T] show ?thesis by (auto simp: skel_inv_def driver_defs)
next
  case (Lookup found s T)
  with assms(2) bound_refs [of T] show ?thesis
    by (auto simp: skel_inv_def driver_defs split: if_splits)
qed (auto simp: skel_inv_def driver_defs split: if_splits option.splits prod.splits)

lemma reach_inv: "skel_reach True x \<Longrightarrow> skel_inv True x"
  by (induction rule: skel_reach.induct) (auto intro: probed_inv step_inv)

section \<open>Resources\<close>

definition urb_res :: "ptr \<Rightarrow> resource multiset" where
  "urb_res u = (if u = NULL then {#} else {#RUrb u#})"

definition buf_res :: "ptr \<Rightarrow> resource multiset" where
  "buf_res b = (if b = NULL then {#} else {#RUsbBuf b#})"

fun task_res :: "task \<Rightarrow> resource multiset" where
  "task_res (Prepared n e u b) = urb_res u + buf_res b"
| "task_res (Failed n u b) = urb_res u + buf_res b"
| "task_res (Flight n b) = buf_res b"
| "task_res Bound = {#RUsbMinor#}"
| "task_res t = {#}"

definition dev_res :: "skel_state \<Rightarrow> resource multiset" where
  "dev_res s = (if sk_freed s then {#} else {#RUsbDev, RMem (sk_dev s)#} +
     (if sk_in_buffer s = NULL then {#} else {#RMem (sk_in_buffer s)#}))"

lemma dev_res_update [simp]:
  "dev_res (s\<lparr>ktrace := t\<rparr>) = dev_res s" "dev_res (s\<lparr>sk_sem := n\<rparr>) = dev_res s"
  "dev_res (s\<lparr>sk_kref := n\<rparr>) = dev_res s" "dev_res (s\<lparr>sk_intfdata := b\<rparr>) = dev_res s"
  "dev_res (s\<lparr>sk_interface := b\<rparr>) = dev_res s" "dev_res (s\<lparr>sk_freed := True\<rparr>) = {#}"
  "dev_res (s\<lparr>sk_out_addr := a\<rparr>) = dev_res s"
  by (simp_all add: dev_res_def)

text \<open>A buffer comes with a URB, and a write without an error has both.\<close>

fun task_ok :: "task \<Rightarrow> bool" where
  "task_ok (Prepared n e u b) \<longleftrightarrow> (u = NULL \<longrightarrow> b = NULL \<and> e \<noteq> None) \<and> (e = None \<longrightarrow> b \<noteq> NULL)"
| "task_ok (Failed n u b) \<longleftrightarrow> (u = NULL \<longrightarrow> b = NULL)"
| "task_ok t \<longleftrightarrow> True"

definition res_inv :: "sys \<Rightarrow> bool" where
  "res_inv x \<longleftrightarrow> (case x of (s, T) \<Rightarrow> sk_dev s \<noteq> NULL \<and> (\<forall>t \<in># T. task_ok t) \<and>
     holds (ktrace s) (dev_res s + (\<Sum>t \<in># T. task_res t)))"

lemma holds_acquire1:
  "holds t M \<Longrightarrow> releases c = None \<Longrightarrow> acquires c = [x] \<Longrightarrow> holds (t @ [c]) (add_mset x M)"
  by (rule holds_acquire) simp_all

lemma holds_put_dev:
  assumes "holds t (dev_res s + M)" and "\<not> sk_freed s" and "sk_dev s \<noteq> NULL"
  shows "holds (t @ [KUsb UsbPutDev, KMem (Kfree (sk_in_buffer s)), KMem (Kfree (sk_dev s))]) M"
proof -
  let ?b = "sk_in_buffer s"
  let ?B = "if ?b = NULL then {#} else {#RMem ?b#}"
  have "holds t (add_mset RUsbDev (add_mset (RMem (sk_dev s)) (?B + M)))"
    using assms(1,2) by (simp add: dev_res_def)
  then have "holds (t @ [KUsb UsbPutDev]) (add_mset (RMem (sk_dev s)) (?B + M))"
    by (rule holds_release) simp_all
  then have "holds ((t @ [KUsb UsbPutDev]) @ [KMem (Kfree ?b)]) (add_mset (RMem (sk_dev s)) M)"
    by (cases "?b = NULL") (auto intro: holds_release [where x = "RMem ?b"] simp: add_mset_commute
        simp del: append_assoc)
  then have "holds (((t @ [KUsb UsbPutDev]) @ [KMem (Kfree ?b)]) @ [KMem (Kfree (sk_dev s))]) M"
    by (rule holds_release) (simp_all add: assms(3))
  then show ?thesis by simp
qed

lemma kref_put_holds:
  assumes "kfault s = None" and "\<not> sk_freed s" and "sk_dev s \<noteq> NULL" and "holds (ktrace s) (dev_res s + M)"
  shows "holds (ktrace (after kref_put s)) (dev_res (after kref_put s) + M) \<and>
    sk_dev (after kref_put s) = sk_dev s"
  using assms holds_put_dev [of "ktrace s" s M] by (auto simp: driver_defs)

lemma prepare_holds:
  assumes "kfault s = None" and "holds (ktrace s) M"
    and "run_state (write_prepare E n f) s = ((e, u, b), s')"
  shows "holds (ktrace s') (urb_res u + buf_res b + M)" and "task_ok (Prepared n e u b)"
    and "s' = s\<lparr>ktrace := ktrace s'\<rparr>"
proof -
  let ?u = "e_usb_alloc_urb E" and ?b = "fst (e_usb_buffer_alloc E n)" and ?d = "snd (e_usb_buffer_alloc E n)"
  have h1: "holds (ktrace s @ [KUsb (UsbAllocUrb ?u)]) (urb_res ?u + M)"
    using assms(2) by (rule holds_acquire) (simp_all add: urb_res_def)
  then have h2: "holds ((ktrace s @ [KUsb (UsbAllocUrb ?u)]) @ [KUsb (UsbBufferAlloc n ?b ?d)])
      (urb_res ?u + buf_res ?b + M)"
    by (rule holds_acquire) (simp_all add: buf_res_def)
  obtain b' d' where bd: "e_usb_buffer_alloc E n = (b', d')" by (cases "e_usb_buffer_alloc E n")
  have "holds (ktrace s') (urb_res u + buf_res b + M) \<and> task_ok (Prepared n e u b) \<and> s' = s\<lparr>ktrace := ktrace s'\<rparr>"
  proof (cases "?u = NULL")
    case True
    with h1 assms(1,3) show ?thesis by (auto simp: driver_defs urb_res_def buf_res_def)
  next
    case False
    with h2 assms(1,3) bd show ?thesis by (auto simp: write_prepare_def kernel_calls split: if_splits)
  qed
  then show "holds (ktrace s') (urb_res u + buf_res b + M)" "task_ok (Prepared n e u b)"
    "s' = s\<lparr>ktrace := ktrace s'\<rparr>" by blast+
qed

lemma free_write_holds:
  assumes "holds t (urb_res u + buf_res b + M)" and "u \<noteq> NULL"
  shows "holds (t @ [KUsb (UsbBufferFree n b 0), KUsb (UsbFreeUrb u)]) M"
proof -
  have "holds (t @ [KUsb (UsbBufferFree n b 0)]) (add_mset (RUrb u) M)"
    using assms by (cases "b = NULL") (auto simp: urb_res_def buf_res_def add_mset_commute
        intro: holds_release [where x = "RUsbBuf b"])
  then have "holds ((t @ [KUsb (UsbBufferFree n b 0)]) @ [KUsb (UsbFreeUrb u)]) M"
    by (rule holds_release) simp_all
  then show ?thesis by simp
qed

lemma release_put:
  assumes "kfault s = None" and "\<not> sk_freed s" and "sk_dev s \<noteq> NULL" and "holds (ktrace s) (dev_res s + M)"
  shows "holds (ktrace (after skel_release s)) (dev_res (after skel_release s) + M) \<and>
    sk_dev (after skel_release s) = sk_dev s"
proof -
  let ?s = "if sk_interface s then s\<lparr>ktrace := ktrace s @ [KUsb UsbAutopmPut]\<rparr> else s"
  have "after skel_release s = after kref_put ?s"
    using assms(1,2) by (simp add: skel_release_def touch_def split_beta)
  with kref_put_holds [of ?s M] assms show ?thesis by simp
qed

lemma autopm_put:
  assumes "kfault s = None" and "\<not> sk_freed s" and "sk_dev s \<noteq> NULL" and "holds (ktrace s) (dev_res s + M)"
  shows "holds (ktrace (after (open_autopm pm) s)) (dev_res (after (open_autopm pm) s) + M) \<and>
    sk_dev (after (open_autopm pm) s) = sk_dev s"
proof -
  let ?s = "s\<lparr>ktrace := ktrace s @ [KUsb (UsbAutopmGet (pm = None))]\<rparr>"
  have "after (open_autopm pm) s = (if pm = None then ?s else after kref_put ?s)"
    using assms(1) by (simp add: open_autopm_def split_beta split: option.split)
  with kref_put_holds [of ?s M] assms show ?thesis by simp
qed

lemma error_frees:
  assumes "kfault s = None" and "\<not> sk_freed s" and "u = NULL \<longrightarrow> b = NULL"
    and "holds (ktrace s) (urb_res u + buf_res b + M)"
  shows "holds (ktrace (after (write_error n u b) s)) M"
    and "after (write_error n u b) s =
      s\<lparr>sk_sem := sk_sem s + 1, ktrace := ktrace (after (write_error n u b) s)\<rparr>"
  using assms free_write_holds [of "ktrace s" u b M n]
  by (auto simp: write_error_def touch_def urb_res_def buf_res_def)

lemma submit_holds:
  assumes "kfault s = None" and "\<not> sk_freed s" and "holds (ktrace s) M"
  shows "holds (ktrace (after (write_submit sub u) s)) M"
    and "after (write_submit sub u) s = s\<lparr>ktrace := ktrace (after (write_submit sub u) s)\<rparr>"
  using assms by (simp_all add: write_submit_def touch_def)

lemma done_holds:
  assumes "kfault s = None" and "holds (ktrace s) (urb_res u + M)" and "u \<noteq> NULL"
  shows "holds (ktrace (after (write_done u) s)) M"
    and "after (write_done u) s = s\<lparr>ktrace := ktrace (after (write_done u) s)\<rparr>"
  using assms by (auto simp: write_done_def urb_res_def intro: holds_release)

lemma complete_holds:
  assumes "kfault s = None" and "\<not> sk_freed s" and "holds (ktrace s) (buf_res b + M)"
  shows "holds (ktrace (after (skel_write_bulk_callback n b) s)) M"
    and "after (skel_write_bulk_callback n b) s =
      s\<lparr>sk_sem := sk_sem s + 1, ktrace := ktrace (after (skel_write_bulk_callback n b) s)\<rparr>"
  using assms by (cases "b = NULL";
    auto simp: skel_write_bulk_callback_def touch_def buf_res_def intro: holds_release)+

text \<open>The steps of a write.\<close>

lemma prepare_res:
  assumes "result (write_prepare E n f) s = (e, u, b)" and "kfault s = None"
    and "res_inv (s, add_mset (Slot n) T)"
  shows "res_inv (after (write_prepare E n f) s, add_mset (Prepared n e u b) T)"
proof -
  let ?s = "after (write_prepare E n f) s"
  have run: "run_state (write_prepare E n f) s = ((e, u, b), ?s)" using assms(1) by (simp add: prod_eq_iff)
  have "holds (ktrace s) (dev_res s + (\<Sum>t \<in># T. task_res t))" using assms(3) by (simp add: res_inv_def)
  note p = prepare_holds [OF assms(2) this run]
  have "dev_res ?s = dev_res s" "sk_dev ?s = sk_dev s" by (subst p(3), simp)+
  with p(1,2) assms(3) show ?thesis by (simp add: res_inv_def ac_simps)
qed

lemma submit_fails_res:
  assumes "kfault s = None" and "\<not> sk_freed s" and "res_inv (s, add_mset (Prepared n None u b) T)"
  shows "res_inv (after (write_submit sub u) s, add_mset (Failed n u b) T)"
proof -
  let ?s = "after (write_submit sub u) s"
  have "holds (ktrace s) (dev_res s + (\<Sum>t \<in># T. task_res t) + urb_res u + buf_res b)"
    using assms(3) by (simp add: res_inv_def ac_simps)
  note p = submit_holds [OF assms(1,2) this, of sub u]
  have "dev_res ?s = dev_res s" "sk_dev ?s = sk_dev s" by (subst p(2), simp)+
  with p(1) assms(3) show ?thesis by (simp add: res_inv_def ac_simps)
qed

lemma submitted_res:
  assumes "kfault s = None" and "\<not> sk_freed s" and "res_inv (s, add_mset (Prepared n None u b) T)"
  shows "res_inv (after (write_done u) (after (write_submit None u) s), add_mset Open_File (add_mset (Flight n b) T))"
proof -
  let ?s = "after (write_submit None u) s"
  let ?t = "after (write_done u) ?s"
  have inv: "u \<noteq> NULL" "holds (ktrace s) (urb_res u + (dev_res s + buf_res b + (\<Sum>t \<in># T. task_res t)))"
    using assms(3) by (auto simp: res_inv_def ac_simps)
  note p = submit_holds [OF assms(1,2) inv(2), of None u]
  have "kfault ?s = None" by (subst p(2)) (simp add: assms(1))
  note q = done_holds [OF this p(1) inv(1)]
  have "dev_res ?t = dev_res s" "sk_dev ?t = sk_dev s" by (subst q(2), subst p(2), simp)+
  with q(1) assms(3) show ?thesis by (simp add: res_inv_def ac_simps)
qed

lemma write_fails_res:
  assumes "kfault s = None" and "\<not> sk_freed s" and "res_inv (s, add_mset (Failed n u b) T)"
  shows "res_inv (after (write_error n u b) s, add_mset Open_File T)"
proof -
  let ?s = "after (write_error n u b) s"
  have "u = NULL \<longrightarrow> b = NULL" "holds (ktrace s) (urb_res u + buf_res b + (dev_res s + (\<Sum>t \<in># T. task_res t)))"
    using assms(3) by (auto simp: res_inv_def ac_simps)
  note p = error_frees [OF assms(1,2) this, of n]
  have "dev_res ?s = dev_res s" "sk_dev ?s = sk_dev s" by (subst p(2), simp)+
  with p(1) assms(3) show ?thesis by (simp add: res_inv_def)
qed

lemma complete_res:
  assumes "kfault s = None" and "\<not> sk_freed s" and "res_inv (s, add_mset (Flight n b) T)"
  shows "res_inv (after (skel_write_bulk_callback n b) s, T)"
proof -
  let ?s = "after (skel_write_bulk_callback n b) s"
  have "holds (ktrace s) (buf_res b + (dev_res s + (\<Sum>t \<in># T. task_res t)))"
    using assms(3) by (simp add: res_inv_def ac_simps)
  note p = complete_holds [OF assms(1,2) this, of n]
  have "dev_res ?s = dev_res s" "sk_dev ?s = sk_dev s" by (subst p(2), simp)+
  with p(1) assms(3) show ?thesis by (simp add: res_inv_def)
qed

lemma step_res:
  assumes "skel_step True x y" and "skel_inv True x" and "res_inv x"
  shows "res_inv y"
  using assms(1)
proof cases
  case (Open_Fails pm s e T)
  with assms(2,3) autopm_put [of s "\<Sum>t \<in># T. task_res t" pm] show ?thesis
    by (auto simp: res_inv_def skel_inv_def)
next
  case (Opened pm s T)
  with assms(2,3) autopm_put [of s "\<Sum>t \<in># T. task_res t" pm] show ?thesis
    by (auto simp: res_inv_def skel_inv_def)
next
  case (Release s T)
  with assms(2,3) release_put [of s "\<Sum>t \<in># T. task_res t"] show ?thesis
    by (auto simp: res_inv_def skel_inv_def)
next
  case (Disconnect_Put s T)
  with assms(2,3) kref_put_holds [of s "\<Sum>t \<in># T. task_res t"] show ?thesis
    by (auto simp: res_inv_def skel_inv_def)
next
  case (Prepare E n f s e u b T)
  with prepare_res [OF Prepare(3), of T] assms(2,3) show ?thesis by (auto simp: skel_inv_def)
next
  case (Submit_Fails sub u s e n b T)
  with submit_fails_res [of s n u b T sub] assms(2,3) show ?thesis by (auto simp: skel_inv_def)
next
  case (Submitted u s T n b)
  with submitted_res [of s n u b T] assms(2,3) show ?thesis by (auto simp: skel_inv_def)
next
  case (Write_Fails s n u b T)
  with write_fails_res [of s n u b T] assms(2,3) show ?thesis by (auto simp: skel_inv_def)
next
  case (Complete s n b T)
  with complete_res [of s n b T] assms(2,3) bound_refs [of T] show ?thesis by (auto simp: skel_inv_def)
next
  case (Disconnect T s)
  with assms(2,3) show ?thesis
    by (auto simp: res_inv_def skel_inv_def disconnect_locked_def intro: holds_release)
next
  case (Lookup found s T)
  with assms(2,3) bound_refs [of T] show ?thesis
    by (auto simp: res_inv_def skel_inv_def open_lookup_def touch_def split: if_splits)
qed (use assms(2,3) in \<open>auto simp: res_inv_def skel_inv_def driver_defs split: if_splits\<close>)

section \<open>Probing\<close>

definition endpoint_inv :: "skel_state \<Rightarrow> bool" where
  "endpoint_inv s \<longleftrightarrow> kfault s = None \<and> \<not> sk_freed s \<and> sk_dev s \<noteq> NULL \<and>
     (sk_in_addr s = 0 \<longrightarrow> sk_in_buffer s = NULL) \<and> holds (ktrace s) (dev_res s)"

lemma bulk_in_addr: "usb_endpoint_is_bulk_in e \<Longrightarrow> ep_addr e \<noteq> 0"
  by (auto simp: usb_endpoint_is_bulk_in_def)

lemma endpoint_inv_endpoint:
  assumes "endpoint_inv s"
  shows "endpoint_inv (after (skel_endpoint E e) s)"
proof (cases "sk_in_addr s = 0 \<and> usb_endpoint_is_bulk_in e")
  case True
  let ?n = "unat (ep_max_packet e)"
  have "holds (ktrace s @ [KMem (Kzalloc ?n (e_kzalloc E ?n))]) (dev_res s +
      (if e_kzalloc E ?n = NULL then {#} else {#RMem (e_kzalloc E ?n)#}))"
    by (rule holds_acquire) (use assms in \<open>simp_all add: endpoint_inv_def\<close>)
  with assms True bulk_in_addr [of e] show ?thesis
    by (cases "e_kzalloc E ?n = NULL")
      (simp_all add: endpoint_inv_def skel_endpoint_def kernel_calls dev_res_def add_mset_commute)
next
  case False
  with assms show ?thesis
    by (cases "sk_in_addr s = 0") (simp_all add: endpoint_inv_def skel_endpoint_def)
qed

lemma endpoint_inv_endpoints: "endpoint_inv s \<Longrightarrow> endpoint_inv (after (skel_endpoints E es) s)"
proof (induction es arbitrary: s)
  case (Cons e es)
  obtain ok s1 where s1: "run_state (skel_endpoint E e) s = (ok, s1)" by fastforce
  with endpoint_inv_endpoint [OF Cons.prems, of E e] Cons.IH [of s1] show ?case by auto
qed simp

text \<open>Where \<open>skel_probe\<close> stands after the endpoints.\<close>

definition probing :: "kenv \<Rightarrow> skel_state" where
  "probing E = skel_initial\<lparr>sk_dev := e_kzalloc E SKEL_SIZE, sk_kref := 1, sk_sem := WRITES_IN_FLIGHT,
     ktrace := [KMem (Kzalloc SKEL_SIZE (e_kzalloc E SKEL_SIZE)), KUsb UsbGetDev], sk_interface := True\<rparr>"

lemma probing_inv: "e_kzalloc E SKEL_SIZE \<noteq> NULL \<Longrightarrow> endpoint_inv (probing E)"
  by (auto simp: endpoint_inv_def probing_def skel_initial_def dev_res_def holds_def)

lemma run_probe:
  "run_state (skel_probe E reg eps) skel_initial =
    (if e_kzalloc E SKEL_SIZE = NULL
     then (Inl ENOMEM, skel_initial\<lparr>ktrace := [KMem (Kzalloc SKEL_SIZE NULL)]\<rparr>)
     else (let (ok, s) = run_state (skel_endpoints E eps) (probing E) in
       if \<not> ok \<or> \<not> (sk_in_addr s \<noteq> 0 \<and> sk_out_addr s \<noteq> 0) then (Inl ENOMEM, after kref_put s)
       else (let s' = s\<lparr>sk_intfdata := True, ktrace := ktrace s @ [KUsb (UsbRegisterDev (reg = None))]\<rparr> in
         case reg of Some e \<Rightarrow> (Inl e, after kref_put (s'\<lparr>sk_intfdata := False\<rparr>)) | None \<Rightarrow> (Inr 0, s'))))"
proof -
  obtain ok s where run: "run_state (skel_endpoints E eps) (probing E) = (ok, s)" by fastforce
  have "kfault (probing E) = None" by (simp add: probing_def skel_initial_def)
  from endpoints_keep [OF this, of E eps] run have "kfault s = None" by (simp add: same_counts_def)
  with run show ?thesis
    by (auto simp: skel_probe_def kernel_calls skel_initial_def probing_def Let_def
        split: option.split prod.split)
qed

lemma probe_fails_no_leak:
  assumes "run_state (skel_probe E reg eps) skel_initial = (Inl e, s)"
  shows "no_leak (ktrace s)"
proof (cases "e_kzalloc E SKEL_SIZE = NULL")
  case False
  obtain ok s1 where run: "run_state (skel_endpoints E eps) (probing E) = (ok, s1)" by fastforce
  have inv: "endpoint_inv s1"
    using endpoint_inv_endpoints [OF probing_inv [OF False], of E eps] run by simp
  have kref: "sk_kref s1 = 1"
    using endpoints_keep [of "probing E" E eps] run by (simp add: same_counts_def probing_def skel_initial_def)
  have put: "no_leak (ktrace (after kref_put s'))"
    if "kfault s' = None" "\<not> sk_freed s'" "sk_dev s' \<noteq> NULL" "holds (ktrace s') (dev_res s')" "sk_kref s' = 1"
    for s'
    using holds_put_dev [of "ktrace s'" s' "{#}"] that by (simp add: driver_defs flip: holds_no_leak)
  from assms run False inv kref show ?thesis
    by (auto simp: run_probe Let_def endpoint_inv_def split: if_splits option.splits intro!: put)
qed (use assms in \<open>auto simp: run_probe no_leak_def\<close>)

lemma probed_res:
  assumes "run_state (skel_probe E reg eps) skel_initial = (Inr 0, s)"
  shows "res_inv (s, {#Bound#})"
proof -
  have mem: "e_kzalloc E SKEL_SIZE \<noteq> NULL" using assms by (auto simp: run_probe)
  obtain ok s1 where run: "run_state (skel_endpoints E eps) (probing E) = (ok, s1)" by fastforce
  have inv: "endpoint_inv s1"
    using endpoint_inv_endpoints [OF probing_inv [OF mem], of E eps] run by simp
  then have "holds (ktrace s1 @ [KUsb (UsbRegisterDev True)]) (add_mset RUsbMinor (dev_res s1))"
    by (intro holds_acquire1) (simp_all add: endpoint_inv_def)
  with inv assms run mem show ?thesis
    by (auto simp: run_probe Let_def res_inv_def endpoint_inv_def split: if_splits option.splits)
qed

lemma reach_res: "skel_reach True x \<Longrightarrow> res_inv x"
  by (induction rule: skel_reach.induct) (auto intro: probed_res step_res reach_inv)

section \<open>Properties\<close>

definition sample_endpoints :: "endpoint list" where
  "sample_endpoints = [\<lparr>ep_bulk = True, ep_addr = 0x81, ep_max_packet = 512\<rparr>,
     \<lparr>ep_bulk = True, ep_addr = 0x02, ep_max_packet = 512\<rparr>]"

definition sample_skel :: skel_state where
  "sample_skel = after (skel_probe sample_env None sample_endpoints) skel_initial"

lemma sample_probed: "run_state (skel_probe sample_env None sample_endpoints) skel_initial = (Inr 0, sample_skel)"
  by (simp add: sample_skel_def skel_probe_def skel_endpoint_def sample_endpoints_def sample_env_def
      kernel_calls skel_initial_def usb_endpoint_is_bulk_in_def usb_endpoint_is_bulk_out_def)

text \<open>
  C1: in every interleaving of opens, releases, reads, writes, completions and a disconnect, in
  which the USB core keeps its guarantee, nothing touches the device structure after it was freed; the
  reference count is the number of tasks that hold a reference, and the structure is freed exactly when
  there is none; the free slots and the writes under way are eight together; the resources held are
  those of the tasks and of the structure, so that none is left when all tasks are done.
\<close>

theorem skel_safe:
  assumes "skel_reach True (s, T)"
  shows "kfault s = None \<and> sk_kref s = refs T \<and> (sk_freed s \<longleftrightarrow> refs T = 0) \<and>
    sk_sem s + slots T = WRITES_IN_FLIGHT \<and>
    holds (ktrace s) (dev_res s + (\<Sum>t \<in># T. task_res t)) \<and> (T = {#} \<longrightarrow> no_leak (ktrace s))"
proof -
  have inv: "kfault s = None \<and> sk_kref s = refs T \<and> (sk_freed s \<longleftrightarrow> refs T = 0) \<and>
      sk_sem s + slots T = WRITES_IN_FLIGHT"
    using reach_inv [OF assms] by (simp add: skel_inv_def)
  moreover have res: "holds (ktrace s) (dev_res s + (\<Sum>t \<in># T. task_res t))"
    using reach_res [OF assms] by (simp add: res_inv_def)
  moreover have "no_leak (ktrace s)" if "T = {#}"
    using inv res that by (simp add: dev_res_def flip: holds_no_leak)
  ultimately show ?thesis by blast
qed

theorem skel_safe_witness:
  "sk_kref sample_skel = 1 \<and> sk_sem sample_skel = 8 \<and> \<not> sk_freed sample_skel"
  using skel_safe [OF skel_reach.Probed [OF sample_probed]] by (simp add: WRITES_IN_FLIGHT_def)

text \<open>How many steps a task still has to go.\<close>

fun steps_left :: "task \<Rightarrow> nat" where
  "steps_left (Slot n) = 4"
| "steps_left (Prepared n e u b) = 3"
| "steps_left (Failed n u b) = 2"
| "steps_left Bound = 3"
| "steps_left Unbinding = 2"
| "steps_left t = 1"

definition work :: "task multiset \<Rightarrow> nat" where
  "work T = (\<Sum>t \<in># T. steps_left t)"

lemma work_simps [simp]: "work {#} = 0" "work (add_mset t T) = steps_left t + work T"
  by (simp_all add: work_def)

text \<open>Every task but the binding can go on at any time; the binding can when it is alone.\<close>

lemma task_proceeds:
  assumes "skel_inv True (s, add_mset t T)" and "t \<noteq> Bound"
  shows "\<exists>y. skel_step True (s, add_mset t T) y \<and> work (snd y) < work (add_mset t T)"
proof -
  have alive: "kfault s = None" "has_ref t \<Longrightarrow> \<not> sk_freed s"
    using assms(1) by (auto simp: skel_inv_def split: if_splits)
  show ?thesis
  proof (cases t)
    case (Slot n)
    obtain e u b where r: "result (write_prepare sample_env n False) s = (e, u, b)"
      by (cases "result (write_prepare sample_env n False) s")
    show ?thesis using skel_step.Prepare [OF r] Slot by fastforce
  next
    case (Prepared n e u b)
    have "\<exists>e'. result (write_submit (Some EIO) u) s = Some e'"
      using alive Prepared by (simp add: write_submit_def touch_def)
    with Prepared skel_step.Submit_Fails [of "Some EIO" u s] skel_step.Prepare_Fails [of True s n]
    show ?thesis by (cases e) fastforce+
  next
    case Opening
    have "result (open_autopm (Some EIO)) s = Inl EIO" by (simp add: open_autopm_def split_beta)
    from skel_step.Open_Fails [OF this] Opening show ?thesis by fastforce
  qed (use assms(2) in \<open>fastforce intro: skel_step.intros\<close>)+
qed

lemma skel_proceeds:
  assumes "skel_inv True (s, T)" and "T \<noteq> {#}"
  shows "\<exists>y. skel_step True (s, T) y \<and> work (snd y) < work T"
proof (cases "\<exists>t \<in># T. t \<noteq> Bound")
  case True
  then obtain t T' where "T = add_mset t T'" "t \<noteq> Bound" by (metis multi_member_split)
  with task_proceeds assms(1) show ?thesis by blast
next
  case False
  obtain T' where T: "T = add_mset Bound T'"
    using assms(2) False by (metis multiset_cases union_single_eq_member)
  have "no_flight T'" using False T by (auto simp: no_flight_def)
  from skel_step.Disconnect [of True, OF this] T show ?thesis by fastforce
qed



text \<open>What the caller of \<open>skel_write\<close> and the device are left with; \<open>n\<close> bytes were asked for.\<close>

definition keeps :: "skel_state \<Rightarrow> skel_state \<Rightarrow> bool" where
  "keeps s s' \<longleftrightarrow> kfault s' = None \<and> sk_sem s' = sk_sem s \<and> (\<forall>M. holds (ktrace s) M \<longrightarrow> holds (ktrace s') M)"

definition under_way :: "skel_state \<Rightarrow> nat \<Rightarrow> skel_state \<Rightarrow> bool" where
  "under_way s n s' \<longleftrightarrow> kfault s' = None \<and> sk_sem s' + 1 = sk_sem s \<and> sk_interface s \<and>
     (\<exists>b. b \<noteq> NULL \<and> (\<forall>M. holds (ktrace s) M \<longrightarrow> holds (ktrace s') (add_mset (RUsbBuf b) M)) \<and>
       keeps s (after (skel_write_bulk_callback n b) s'))"

lemma error_keeps:
  assumes "kfault s1 = None" and "\<not> sk_freed s1" and "task_ok (Failed n u b)" and "sk_sem s1 + 1 = sk_sem s"
    and "\<forall>M. holds (ktrace s) M \<longrightarrow> holds (ktrace s1) (urb_res u + buf_res b + M)"
  shows "keeps s (after (write_error n u b) s1)"
proof -
  have nb: "u = NULL \<longrightarrow> b = NULL" using assms(3) by simp
  have "holds (ktrace (after (write_error n u b) s1)) M" if "holds (ktrace s) M" for M
    by (rule error_frees(1) [OF assms(1,2) nb]) (use assms(5) that in blast)
  moreover have "kfault (after (write_error n u b) s1) = None \<and>
      sk_sem (after (write_error n u b) s1) = sk_sem s"
    using assms by (simp add: write_error_def touch_def)
  ultimately show ?thesis by (simp add: keeps_def)
qed

lemma submitted_under_way:
  assumes "kfault s1 = None" and "\<not> sk_freed s1" and "u \<noteq> NULL" and "b \<noteq> NULL"
    and "sk_sem s1 + 1 = sk_sem s" and "sk_interface s1" and "sk_interface s"
    and "\<forall>M. holds (ktrace s) M \<longrightarrow> holds (ktrace s1) (urb_res u + buf_res b + M)"
  shows "under_way s n (after (write_done u) (after (write_submit None u) s1))"
proof -
  let ?s = "after (write_submit None u) s1"
  let ?t = "after (write_done u) ?s"
  have plain: "kfault ?s = None" "kfault ?t = None" "\<not> sk_freed ?t" "sk_sem ?t = sk_sem s1"
    using assms(1,2,6) by (simp_all add: write_submit_def write_done_def touch_def)
  have t: "holds (ktrace ?t) (buf_res b + M)" if "holds (ktrace s) M" for M
  proof -
    have "holds (ktrace s1) (urb_res u + (buf_res b + M))" using assms(8) that by (simp add: add.assoc)
    from done_holds(1) [OF plain(1) submit_holds(1) [OF assms(1,2) this] assms(3)] show ?thesis .
  qed
  have "keeps s (after (skel_write_bulk_callback n b) ?t)"
    using complete_holds(1) [OF plain(2,3) t] plain assms(5)
    by (auto simp: keeps_def skel_write_bulk_callback_def touch_def)
  with t plain assms(4,5,7) show ?thesis by (auto simp: under_way_def buf_res_def)
qed

text \<open>A write with its slot after its URB and buffer were asked for.\<close>

lemma write_prepared:
  assumes "kfault s = None" and "\<not> sk_freed s" and "sk_sem s \<noteq> 0"
    and "run_state (write_prepare E n f) (s\<lparr>sk_sem := sk_sem s - 1\<rparr>) = ((e, u, b), s1)"
  shows "kfault s1 = None" and "\<not> sk_freed s1" and "sk_sem s1 + 1 = sk_sem s"
    and "sk_interface s1 = sk_interface s" and "task_ok (Prepared n e u b)"
    and "\<forall>M. holds (ktrace s) M \<longrightarrow> holds (ktrace s1) (urb_res u + buf_res b + M)"
proof -
  show "kfault s1 = None" "\<not> sk_freed s1" "sk_sem s1 + 1 = sk_sem s" "sk_interface s1 = sk_interface s"
    "task_ok (Prepared n e u b)"
    using assms by (auto simp: write_prepare_def kernel_calls split: if_splits prod.splits)
  have "kfault (s\<lparr>sk_sem := sk_sem s - 1\<rparr>) = None" using assms(1) by simp
  from prepare_holds(1) [OF this _ assms(4)]
  show "\<forall>M. holds (ktrace s) M \<longrightarrow> holds (ktrace s1) (urb_res u + buf_res b + M)" by simp
qed

text \<open>
  C11: one call of \<open>skel_write\<close> on a live device. It answers 0 for an empty request and touches
  nothing; a call that fails, for whatever reason (a signal, no URB, no buffer, a bad address, a device
  that is gone, a refused URB), leaves the semaphore and the resources as it found them; a call that
  succeeds answers the number of bytes asked for, at most 3584, has taken one slot and left one buffer
  with the URB, and the callback gives both back.
\<close>

theorem skel_write_outcome:
  assumes "kfault s = None" and "\<not> sk_freed s" and "run_state (skel_write E sig f sub cnt) s = (r, s')"
  shows "case r of Inl e \<Rightarrow> keeps s s'
    | Inr n \<Rightarrow> n = min cnt MAX_TRANSFER \<and> (if n = 0 then s' = s else under_way s n s')"
proof (cases "cnt = 0 \<or> sig \<or> sk_sem s = 0")
  case True
  with assms show ?thesis
    by (auto simp: skel_write_def touch_def keeps_def Let_def split: if_splits)
next
  case False
  let ?n = "min cnt MAX_TRANSFER"
  have n: "?n \<noteq> 0" using False by (simp add: MAX_TRANSFER_def)
  obtain e u b s1 where prep: "run_state (write_prepare E ?n f) (s\<lparr>sk_sem := sk_sem s - 1\<rparr>) = ((e, u, b), s1)"
    by (metis prod.exhaust)
  have "sk_sem s \<noteq> 0" using False by simp
  note s1 = write_prepared [OF assms(1,2) this prep]
  note held = s1(6) and ok = s1(5)
  let ?s2 = "after (write_submit sub u) s1"
  have s2: "kfault ?s2 = None" "\<not> sk_freed ?s2" "sk_sem ?s2 + 1 = sk_sem s"
    using s1 by (simp_all add: write_submit_def touch_def)
  have held2: "\<forall>M. holds (ktrace s) M \<longrightarrow> holds (ktrace ?s2) (urb_res u + buf_res b + M)"
    using held submit_holds(1) [OF s1(1,2)] by blast
  have run: "run_state (skel_write E sig f sub cnt) s =
    (case e of Some e \<Rightarrow> (Inl e, after (write_error ?n u b) s1)
     | None \<Rightarrow> (case result (write_submit sub u) s1 of
         Some e \<Rightarrow> (Inl e, after (write_error ?n u b) ?s2)
       | None \<Rightarrow> (Inr ?n, after (write_done u) ?s2)))"
    using False assms(1,2) prep
    by (simp add: skel_write_def write_down_def touch_def split_beta split: option.split)
  show ?thesis
  proof (cases e)
    case (Some e')
    then show ?thesis
      using run assms(3) error_keeps [OF s1(1,2) _ s1(3) held, of ?n] ok by auto
  next
    case None
    then have nz: "u \<noteq> NULL" "b \<noteq> NULL" using ok by auto
    show ?thesis
    proof (cases "result (write_submit sub u) s1")
      case (Some e')
      then show ?thesis
        using run None assms(3) error_keeps [OF s2(1,2) _ s2(3) held2, of ?n] nz by auto
    next
      case sent: None
      then have "sub = None" "sk_interface s1"
        using s1(1,2) by (auto simp: write_submit_def touch_def split: if_splits)
      with submitted_under_way [OF s1(1,2) nz s1(3) _ _ held, of ?n] run None sent assms(3) n s1(4)
      show ?thesis by auto
    qed
  qed
qed

theorem skel_write_outcome_witness:
  "under_way sample_skel 3584 (after (skel_write sample_env False False None 5000) sample_skel)"
proof -
  have "sk_sem sample_skel = 8" "\<not> sk_freed sample_skel" "kfault sample_skel = None" "sk_interface sample_skel"
    by (simp_all add: sample_skel_def skel_probe_def skel_endpoint_def sample_endpoints_def sample_env_def
        kernel_calls skel_initial_def usb_endpoint_is_bulk_in_def usb_endpoint_is_bulk_out_def
        WRITES_IN_FLIGHT_def)
  moreover from this have "result (skel_write sample_env False False None 5000) sample_skel = Inr 3584"
    by (simp add: skel_write_def write_down_def write_prepare_def write_submit_def write_done_def touch_def
        kernel_calls sample_env_def MAX_TRANSFER_def)
  ultimately show ?thesis
    using skel_write_outcome [of sample_skel sample_env False False None 5000 "Inr 3584"]
    by (simp add: prod_eq_iff)
qed

definition fields :: "skel_state \<Rightarrow> nat \<times> nat \<times> bool \<times> bool \<times> bool" where
  "fields s = (sk_kref s, sk_sem s, sk_interface s, sk_intfdata s, sk_freed s)"

lemma sample_fields: "kfault sample_skel = None" "fields sample_skel = (1, 8, True, True, False)"
  by (simp_all add: fields_def sample_skel_def skel_probe_def skel_endpoint_def sample_endpoints_def
      sample_env_def kernel_calls skel_initial_def usb_endpoint_is_bulk_in_def usb_endpoint_is_bulk_out_def
      WRITES_IN_FLIGHT_def)


end
