(* ===== verification/Usb_Bus.thy ===== *)
theory Usb_Bus
  imports Mousekb Usb_Skel Fileops
begin

text \<open>
  The USB drivers as the USB core sees them: the tables \<open>usb_mousekb_driver\<close>, \<open>skel_driver\<close> with their
  identifier tables, \<open>skel_class\<close> and \<open>skel_fops\<close>; and the life of the mouse driver on the bus. The core's rule for
  an entry of an identifier table is the locale \<open>usb_matching\<close>. \<open>mouse_step\<close> is one event: the
  module is loaded or unloaded, a mouse comes or goes, one of its URBs completes. \<open>urb_call\<close> follows what
  the driver does with its URBs and notices a call on one that it does not own.
\<close>

section \<open>Identifiers\<close>

datatype usb_device_id = USB_DEVICE u16 u16 | USB_INTERFACE_INFO u8 u8 u8

text \<open>An interface: the identity of its device, its class, and \<open>wMaxPacketSize\<close> of its first endpoint.\<close>

record usb_interface =
  if_vendor :: u16
  if_product :: u16
  if_class :: u8
  if_subclass :: u8
  if_protocol :: u8
  if_packet :: nat

locale usb_matching =
  fixes matches :: "usb_device_id \<Rightarrow> usb_interface \<Rightarrow> bool"
  assumes device: "matches (USB_DEVICE v d) i \<longleftrightarrow> if_vendor i = v \<and> if_product i = d"
    and interface_info: "matches (USB_INTERFACE_INFO c s p) i \<longleftrightarrow>
      if_class i = c \<and> if_subclass i = s \<and> if_protocol i = p"

definition USB_INTERFACE_CLASS_HID :: u8 where "USB_INTERFACE_CLASS_HID = 3"
definition USB_INTERFACE_SUBCLASS_BOOT :: u8 where "USB_INTERFACE_SUBCLASS_BOOT = 1"
definition USB_INTERFACE_PROTOCOL_MOUSE :: u8 where "USB_INTERFACE_PROTOCOL_MOUSE = 2"

definition usb_mousekb_table :: "usb_device_id list" where
  "usb_mousekb_table = [USB_INTERFACE_INFO USB_INTERFACE_CLASS_HID USB_INTERFACE_SUBCLASS_BOOT
     USB_INTERFACE_PROTOCOL_MOUSE]"

definition USB_SKEL_VENDOR_ID :: u16 where "USB_SKEL_VENDOR_ID = 0xfff0"
definition USB_SKEL_PRODUCT_ID :: u16 where "USB_SKEL_PRODUCT_ID = 0xfff0"
definition USB_SKEL_MINOR_BASE :: nat where "USB_SKEL_MINOR_BASE = 192"

definition skel_table :: "usb_device_id list" where
  "skel_table = [USB_DEVICE USB_SKEL_VENDOR_ID USB_SKEL_PRODUCT_ID]"

section \<open>The drivers' tables\<close>

text \<open>\<open>ud_probe E i x\<close>: \<open>x\<close> is what else the model of the probe function takes.\<close>

record ('s, 'x, 'r) usb_driver =
  ud_name :: string
  ud_probe :: "kenv \<Rightarrow> usb_interface \<Rightarrow> 'x \<Rightarrow> ('s, 'r) state"
  ud_disconnect :: "('s, unit) state"
  ud_id_table :: "usb_device_id list"
  ud_autosuspend :: bool

definition usb_mousekb_driver :: "(mkb_state, u32, nat) usb_driver" where
  "usb_mousekb_driver = \<lparr>ud_name = ''usb_mousekb'',
     ud_probe = (\<lambda>E i junk. usb_mousekb_probe E (if_packet i) junk),
     ud_disconnect = usbmousekb_disconnect, ud_id_table = usb_mousekb_table, ud_autosuspend = False\<rparr>"

definition skel_driver :: "(skel_state, errno option \<times> endpoint list, c_int) usb_driver" where
  "skel_driver = \<lparr>ud_name = ''skeleton'', ud_probe = (\<lambda>E i (reg, eps). skel_probe E reg eps),
     ud_disconnect = skel_disconnect, ud_id_table = skel_table, ud_autosuspend = True\<rparr>"

record usb_class_driver =
  uc_name :: string
  uc_minor_base :: nat

definition skel_class :: usb_class_driver where
  "skel_class = \<lparr>uc_name = ''skel%d'', uc_minor_base = USB_SKEL_MINOR_BASE\<rparr>"

text \<open>
  \<open>found\<close> and \<open>pm\<close> are the answers of \<open>usb_find_interface\<close> and \<open>usb_autopm_get_interface\<close>, \<open>bulk\<close> that of
  \<open>usb_bulk_msg\<close> with the bytes that came, \<open>sub\<close> that of \<open>usb_submit_urb\<close>. A write copies the user's bytes and
  sleeps while no slot is free.
\<close>

definition skel_fops ::
  "kenv \<Rightarrow> bool \<Rightarrow> errno option \<Rightarrow> (nat \<Rightarrow> errno + u8 list) \<Rightarrow> errno option \<Rightarrow> skel_state file_ops" where
  "skel_fops E found pm bulk sub = no_ops\<lparr>
     fop_read := Some (\<lambda>nb i n s. map_outcome (\<lambda>r. (r, case r of Inl e \<Rightarrow> [] | Inr _ \<Rightarrow>
       (case bulk (min (sk_in_size s) n) of Inl e \<Rightarrow> [] | Inr b \<Rightarrow> b))) id
       (of_exec (exec (skel_read (\<lambda>k. map_sum id length (bulk k)) False n) s))),
     fop_write := Some (\<lambda>buf n s. if 0 < n \<and> sk_sem s = 0 then Sleeps
       else of_exec (exec (skel_write E False False sub n) s)),
     fop_open := Some (\<lambda>nb s. of_exec (exec (skel_open found pm) s)),
     fop_release := Some (\<lambda>s. of_exec (exec skel_release s))\<rparr>"

definition claims :: "(usb_device_id \<Rightarrow> usb_interface \<Rightarrow> bool) \<Rightarrow> usb_device_id list \<Rightarrow> usb_interface \<Rightarrow> bool" where
  "claims matches ids i \<longleftrightarrow> list_ex (\<lambda>id. matches id i) ids"

context usb_matching begin

lemma mouse_claims: "claims matches usb_mousekb_table i \<longleftrightarrow> if_class i = 3 \<and> if_subclass i = 1 \<and> if_protocol i = 2"
  by (simp add: claims_def usb_mousekb_table_def interface_info USB_INTERFACE_CLASS_HID_def
      USB_INTERFACE_SUBCLASS_BOOT_def USB_INTERFACE_PROTOCOL_MOUSE_def)

lemma skel_claims: "claims matches skel_table i \<longleftrightarrow> if_vendor i = 0xfff0 \<and> if_product i = 0xfff0"
  by (simp add: claims_def skel_table_def device USB_SKEL_VENDOR_ID_def USB_SKEL_PRODUCT_ID_def)

end

definition id_fits :: "usb_device_id \<Rightarrow> usb_interface \<Rightarrow> bool" where
  "id_fits d i = (case d of USB_DEVICE v p \<Rightarrow> if_vendor i = v \<and> if_product i = p
   | USB_INTERFACE_INFO c s p \<Rightarrow> if_class i = c \<and> if_subclass i = s \<and> if_protocol i = p)"

interpretation id_fits: usb_matching id_fits
  by unfold_locales (simp_all add: id_fits_def)

section \<open>URBs\<close>

text \<open>
  The URBs a driver owns, and whether each is in flight. \<open>None\<close>: the driver submitted, killed or freed a
  URB it does not own, or freed one in flight. The core ignores NULL in the three calls.
\<close>

fun urb_call :: "kcall \<Rightarrow> (ptr \<rightharpoonup> bool) \<Rightarrow> (ptr \<rightharpoonup> bool) option" where
  "urb_call (KUsb (UsbAllocUrb u)) U = Some (if u = NULL then U else U(u \<mapsto> False))"
| "urb_call (KUsb (UsbSubmitUrb u r)) U =
     (if u = NULL then Some U else case U u of None \<Rightarrow> None | Some f \<Rightarrow> Some (if r = 0 then U(u \<mapsto> True) else U))"
| "urb_call (KUsb (UsbKillUrb u)) U =
     (if u = NULL then Some U else case U u of None \<Rightarrow> None | Some f \<Rightarrow> Some (U(u \<mapsto> False)))"
| "urb_call (KUsb (UsbFreeUrb u)) U =
     (if u = NULL then Some U else if U u = Some False then Some (U(u := None)) else None)"
| "urb_call c U = Some U"

definition urb_calls :: "kcall list \<Rightarrow> (ptr \<rightharpoonup> bool) option \<Rightarrow> (ptr \<rightharpoonup> bool) option" where
  "urb_calls cs U = fold (\<lambda>c U. Option.bind U (urb_call c)) cs U"

lemma urb_calls_simps [simp]:
  "urb_calls [] U = U" "urb_calls (c # cs) (Some V) = urb_calls cs (urb_call c V)"
  "urb_calls (c # cs) None = urb_calls cs None"
  by (simp_all add: urb_calls_def)

lemma urb_calls_None [simp]: "urb_calls cs None = None"
  by (induction cs) simp_all

lemma urb_calls_append [simp]: "urb_calls (cs @ ds) U = urb_calls ds (urb_calls cs U)"
  by (simp add: urb_calls_def)

section \<open>Mice come and go\<close>

text \<open>\<open>mb_drv\<close> holds the static variables, and as trace the calls of the last event.\<close>

record mouse_bus =
  mb_loaded :: bool
  mb_registered :: bool
  mb_bound :: "usb_interface list"
  mb_drv :: mkb_state
  mb_urbs :: "(ptr \<rightharpoonup> bool) option"

definition no_mouse :: mouse_bus where
  "no_mouse = \<lparr>mb_loaded = False, mb_registered = False, mb_bound = [], mb_drv = mkb_initial,
     mb_urbs = Some Map.empty\<rparr>"

definition mb_run :: "(mkb_state, 'r) state \<Rightarrow> mouse_bus \<Rightarrow> mouse_bus" where
  "mb_run m b = (case run_state m ((mb_drv b)\<lparr>ktrace := []\<rparr>) of (r, t) \<Rightarrow>
     b\<lparr>mb_drv := t, mb_urbs := urb_calls (ktrace t) (mb_urbs b)\<rparr>)"

text \<open>The answers of the kernel to a probe: it gives what it is asked for, and a URB that is not in use.\<close>

definition grants :: "kenv \<Rightarrow> nat \<Rightarrow> mouse_bus \<Rightarrow> bool" where
  "grants E n b \<longleftrightarrow> e_input_allocate_device E \<noteq> NULL \<and> e_usb_alloc_urb E \<noteq> NULL \<and>
     fst (e_usb_buffer_alloc E n) \<noteq> NULL \<and> (\<forall>U. mb_urbs b = Some U \<longrightarrow> U (e_usb_alloc_urb E) = None)"

text \<open>
  A completion takes the URB out of flight and runs the handler; the data are in the buffer the handler looks
  at if the URB is the one in \<open>uk_urb\<close>.
\<close>

definition mouse_data :: "ptr \<Rightarrow> u8 \<Rightarrow> mouse_bus \<Rightarrow> mouse_bus" where
  "mouse_data u d b = b\<lparr>mb_urbs := map_option (\<lambda>U. U(u \<mapsto> False)) (mb_urbs b),
     mb_drv := (if uk_urb (mb_drv b) = u then (mb_drv b)\<lparr>usb_data := d\<rparr> else mb_drv b)\<rparr>"

text \<open>Unregistering disconnects what is still bound.\<close>

definition disconnect_all :: "mouse_bus \<Rightarrow> mouse_bus" where
  "disconnect_all b = fold (\<lambda>i. mb_run (ud_disconnect usb_mousekb_driver)) (mb_bound b) (b\<lparr>mb_bound := []\<rparr>)"

text \<open>\<open>sure\<close>: the core accepts every submission.\<close>

inductive mouse_step :: "(usb_device_id \<Rightarrow> usb_interface \<Rightarrow> bool) \<Rightarrow> bool \<Rightarrow> mouse_bus \<Rightarrow> mouse_bus \<Rightarrow> bool"
  for matches :: "usb_device_id \<Rightarrow> usb_interface \<Rightarrow> bool" and sure :: bool where
  load_mod: "\<not> mb_loaded b \<Longrightarrow> mouse_step matches sure b
    (mb_run (usb_mousekb_init E)
      (b\<lparr>mb_loaded := True, mb_registered := (e_usb_register E = 0), mb_drv := mkb_initial\<rparr>))"
| plug: "mb_registered b \<Longrightarrow> i \<notin> set (mb_bound b) \<Longrightarrow> claims matches (ud_id_table usb_mousekb_driver) i \<Longrightarrow>
    grants E (if_packet i) b \<Longrightarrow> (sure \<Longrightarrow> \<forall>u. e_usb_submit_urb E u = 0) \<Longrightarrow> mouse_step matches sure b
      (mb_run (ud_probe usb_mousekb_driver E i junk) (b\<lparr>mb_bound := i # mb_bound b\<rparr>))"
| complete_urb: "mb_urbs b = Some U \<Longrightarrow> U u = Some True \<Longrightarrow> (sure \<Longrightarrow> \<forall>u. e_usb_submit_urb E u = 0) \<Longrightarrow>
    mouse_step matches sure b (mb_run (usb_mousekb_irq E) (mouse_data u d b))"
| unplug: "i \<in> set (mb_bound b) \<Longrightarrow> mouse_step matches sure b
    (mb_run (ud_disconnect usb_mousekb_driver) (b\<lparr>mb_bound := removeAll i (mb_bound b)\<rparr>))"
| unload_mod: "mb_loaded b \<Longrightarrow> mouse_step matches sure b
    (disconnect_all ((mb_run usb_mousekb_exit b)\<lparr>mb_loaded := False, mb_registered := False\<rparr>))"

text \<open>At most one mouse at a time.\<close>

definition single_step where
  "single_step matches sure b c \<longleftrightarrow> mouse_step matches sure b c \<and> length (mb_bound c) \<le> 1"

section \<open>One mouse\<close>

text \<open>Exactly the URB \<open>u\<close>, in flight if the core is \<open>sure\<close> to accept it.\<close>

definition one_urb :: "bool \<Rightarrow> ptr \<Rightarrow> (ptr \<rightharpoonup> bool) option \<Rightarrow> bool" where
  "one_urb sure u U \<longleftrightarrow> (\<exists>f. U = Some [u \<mapsto> f] \<and> (sure \<longrightarrow> f))"

lemma one_urbI: "(sure \<Longrightarrow> f) \<Longrightarrow> one_urb sure u (Some [u \<mapsto> f])"
  by (auto simp: one_urb_def)

definition mouse_inv :: "bool \<Rightarrow> mouse_bus \<Rightarrow> bool" where
  "mouse_inv sure b \<longleftrightarrow> kfault (mb_drv b) = None \<and> (mb_registered b \<longrightarrow> mb_loaded b) \<and>
     (mb_bound b \<noteq> [] \<longrightarrow> mb_registered b) \<and>
     (\<forall>i \<in> set (mb_bound b). if_class i = 3 \<and> if_subclass i = 1 \<and> if_protocol i = 2) \<and>
     (case mb_bound b of [] \<Rightarrow> mb_urbs b = Some Map.empty
      | [i] \<Rightarrow> usb_buf (mb_drv b) \<noteq> NULL \<and> uk_urb (mb_drv b) \<noteq> NULL \<and> one_urb sure (uk_urb (mb_drv b)) (mb_urbs b)
      | _ \<Rightarrow> False)"

lemmas mouse_defs = mb_run_def usb_mousekb_driver_def driver_defs

lemma init_run:
  "kfault s = None \<Longrightarrow> \<exists>t. run_state (usb_mousekb_init E) (s\<lparr>ktrace := []\<rparr>) = (0, t) \<and> kfault t = None \<and>
     urb_calls (ktrace t) U = U"
  by (cases U) (simp_all add: driver_defs)

lemma probe_run_mouse:
  assumes "kfault s = None" and "grants E n b" and "mb_urbs b = Some Map.empty"
  shows "\<exists>t. run_state (usb_mousekb_probe E n junk) (s\<lparr>ktrace := []\<rparr>) = (0, t) \<and> kfault t = None \<and>
    usb_buf t \<noteq> NULL \<and> uk_urb t \<noteq> NULL \<and> urb_calls (ktrace t) (Some Map.empty) = Some [uk_urb t \<mapsto> e_usb_submit_urb E (uk_urb t) = 0] \<and>
    pre_val t = pre_val s"
  using assms by (cases "e_usb_buffer_alloc E n") (simp add: driver_defs grants_def)

lemma irq_run:
  assumes "kfault s = None" and "usb_buf s \<noteq> NULL" and "uk_urb s \<noteq> NULL"
  shows "\<exists>t. run_state (usb_mousekb_irq E) (s\<lparr>ktrace := []\<rparr>) = ((), t) \<and> kfault t = None \<and>
    usb_buf t = usb_buf s \<and> uk_urb t = uk_urb s \<and>
    urb_calls (ktrace t) (Some [uk_urb s \<mapsto> False]) = Some [uk_urb s \<mapsto> e_usb_submit_urb E (uk_urb s) = 0] \<and>
    input_reports (ktrace t) = button_edges (pre_val s) (usb_data s) \<and> pre_val t = usb_data s"
  using assms
  by (cases "bit (pre_val s) 0 = bit (usb_data s) 0"; cases "bit (pre_val s) 1 = bit (usb_data s) 1";
      cases "bit (pre_val s) 2 = bit (usb_data s) 2")
    (simp_all add: driver_defs mask_bits button_edges_def)

lemma disconnect_run:
  assumes "kfault s = None" and "uk_urb s \<noteq> NULL"
  shows "\<exists>t. run_state usbmousekb_disconnect (s\<lparr>ktrace := []\<rparr>) = ((), t) \<and> kfault t = None \<and>
    urb_calls (ktrace t) (Some [uk_urb s \<mapsto> f]) = Some Map.empty \<and> pre_val t = pre_val s"
  using assms by (simp add: driver_defs)

lemma exit_run:
  "kfault s = None \<Longrightarrow> \<exists>t. run_state usb_mousekb_exit (s\<lparr>ktrace := []\<rparr>) = ((), t) \<and> kfault t = None \<and>
     urb_calls (ktrace t) U = U \<and> uk_urb t = uk_urb s"
  by (cases U) (simp_all add: driver_defs)

lemma mouse_inv_start: "mouse_inv sure no_mouse"
  by (simp add: mouse_inv_def no_mouse_def mkb_initial_def)

text \<open>The invariant without a mouse and with one.\<close>

lemma mouse_inv_idle:
  "mb_bound b = [] \<Longrightarrow> mouse_inv sure b \<longleftrightarrow> kfault (mb_drv b) = None \<and> (mb_registered b \<longrightarrow> mb_loaded b) \<and>
     mb_urbs b = Some Map.empty"
  by (auto simp: mouse_inv_def)

lemma mouse_inv_bound:
  "mb_bound b = [i] \<Longrightarrow> mouse_inv sure b \<longleftrightarrow> kfault (mb_drv b) = None \<and> mb_loaded b \<and> mb_registered b \<and>
     if_class i = 3 \<and> if_subclass i = 1 \<and> if_protocol i = 2 \<and> usb_buf (mb_drv b) \<noteq> NULL \<and>
     uk_urb (mb_drv b) \<noteq> NULL \<and> one_urb sure (uk_urb (mb_drv b)) (mb_urbs b)"
  by (auto simp: mouse_inv_def)

lemma mouse_inv_cases:
  assumes "mouse_inv sure b"
  obtains "mb_bound b = []" | i where "mb_bound b = [i]"
  using assms by (auto simp: mouse_inv_def split: list.splits)

lemma disconnect_keeps:
  assumes "mouse_inv sure b" and "mb_bound b = [i]"
  shows "\<exists>t. mb_run (ud_disconnect usb_mousekb_driver) (b\<lparr>mb_bound := []\<rparr>) =
      b\<lparr>mb_bound := [], mb_drv := t, mb_urbs := Some Map.empty\<rparr> \<and> kfault t = None"
proof -
  from assms obtain f where b: "kfault (mb_drv b) = None" "uk_urb (mb_drv b) \<noteq> NULL"
    "mb_urbs b = Some [uk_urb (mb_drv b) \<mapsto> f]" by (auto simp: mouse_inv_bound one_urb_def)
  from disconnect_run [OF b(1,2), of f] b(3) show ?thesis
    by (auto simp: mb_run_def usb_mousekb_driver_def)
qed

lemma mouse_inv_step:
  assumes "usb_matching matches" and "mouse_inv sure b" and "single_step matches sure b c"
  shows "mouse_inv sure c"
proof -
  from assms(3) have "mouse_step matches sure b c" and one: "length (mb_bound c) \<le> 1"
    by (auto simp: single_step_def)
  then show ?thesis
  proof cases
    case (load_mod E)
    with assms(2) have "mb_bound b = []" "mb_urbs b = Some Map.empty"
      by (cases rule: mouse_inv_cases [OF assms(2)]; use assms(2) in \<open>simp add: mouse_inv_idle mouse_inv_bound\<close>)+
    with init_run [of mkb_initial E "Some Map.empty"] show ?thesis
      unfolding load_mod by (auto simp: mouse_inv_idle mb_run_def mkb_initial_def)
  next
    case (plug i E junk)
    then have "mb_bound b = []" using one by (simp add: mb_run_def split: prod.splits)
    with assms(2) have b: "kfault (mb_drv b) = None" "mb_urbs b = Some Map.empty" "mb_registered b \<longrightarrow> mb_loaded b"
      by (simp_all add: mouse_inv_idle)
    have i: "if_class i = 3 \<and> if_subclass i = 1 \<and> if_protocol i = 2"
      using plug(4) by (simp add: usb_mousekb_driver_def usb_matching.mouse_claims [OF assms(1)])
    from probe_run_mouse [OF b(1) plug(5) b(2), of junk] plug(2,6) b(2,3) i \<open>mb_bound b = []\<close> show ?thesis
      unfolding plug(1) by (auto simp: mb_run_def usb_mousekb_driver_def mouse_inv_bound intro!: one_urbI)
  next
    case (complete_urb U u E d)
    then have "mb_bound b \<noteq> []" using assms(2) by (auto simp: mouse_inv_idle)
    with mouse_inv_cases [OF assms(2)] obtain i where i: "mb_bound b = [i]" by blast
    with assms(2) complete_urb(2,3) have u: "u = uk_urb (mb_drv b)" "mb_urbs b = Some [u \<mapsto> True]"
      by (auto simp: mouse_inv_bound one_urb_def split: if_splits)
    let ?s = "(mb_drv b)\<lparr>usb_data := d\<rparr>"
    have "kfault ?s = None" "usb_buf ?s \<noteq> NULL" "uk_urb ?s \<noteq> NULL"
      using assms(2) by (auto simp: mouse_inv_bound [OF i])
    from irq_run [OF this, of E] complete_urb(4) assms(2) show ?thesis
      unfolding complete_urb(1) by (auto simp: mb_run_def mouse_data_def mouse_inv_bound i u intro!: one_urbI)
  next
    case (unplug i)
    with assms(2) have "mb_bound b = [i]" by (auto elim!: mouse_inv_cases)
    with disconnect_keeps [OF assms(2), of i] assms(2) show ?thesis
      unfolding unplug(1) by (auto simp: mouse_inv_idle mouse_inv_bound)
  next
    case unload_mod
    let ?e = "(mb_run usb_mousekb_exit b)\<lparr>mb_loaded := False, mb_registered := False\<rparr>"
    have "kfault (mb_drv b) = None" using assms(2) by (simp add: mouse_inv_def)
    from exit_run [OF this, of "mb_urbs b"] obtain t where t: "kfault t = None" "uk_urb t = uk_urb (mb_drv b)"
      "?e = b\<lparr>mb_loaded := False, mb_registered := False, mb_drv := t\<rparr>" by (auto simp: mb_run_def)
    have c: "c = disconnect_all (b\<lparr>mb_loaded := False, mb_registered := False, mb_drv := t\<rparr>)"
      unfolding unload_mod(1) t(3) by (rule refl)
    from assms(2) show ?thesis
    proof (cases rule: mouse_inv_cases)
      case 1
      then show ?thesis using assms(2) t by (simp add: c disconnect_all_def mouse_inv_idle)
    next
      case (2 i)
      then obtain f where "uk_urb t \<noteq> NULL" "mb_urbs b = Some [uk_urb t \<mapsto> f]"
        using assms(2) t(2) by (auto simp: mouse_inv_bound one_urb_def)
      with disconnect_run [OF t(1), of f] 2 show ?thesis
        by (auto simp: c disconnect_all_def mouse_inv_idle mb_run_def usb_mousekb_driver_def)
    qed
  qed
qed


definition sample_mouse :: "nat \<Rightarrow> usb_interface" where
  "sample_mouse k = \<lparr>if_vendor = 0x46d, if_product = of_nat k, if_class = 3, if_subclass = 1,
     if_protocol = 2, if_packet = 4\<rparr>"

definition sample_urb :: "ptr \<Rightarrow> kenv" where
  "sample_urb u = sample_env\<lparr>e_usb_alloc_urb := u\<rparr>"

lemmas sample_mouse_defs = sample_mouse_def sample_urb_def sample_env_def no_mouse_def mkb_initial_def

definition loaded_bus :: mouse_bus where
  "loaded_bus = mb_run (usb_mousekb_init sample_env) (no_mouse\<lparr>mb_loaded := True, mb_registered := True\<rparr>)"

definition mouse_in :: "nat \<Rightarrow> ptr \<Rightarrow> mouse_bus \<Rightarrow> mouse_bus" where
  "mouse_in k u b = mb_run (ud_probe usb_mousekb_driver (sample_urb u) (sample_mouse k) 0)
     (b\<lparr>mb_bound := sample_mouse k # mb_bound b\<rparr>)"

definition mouse_out :: "nat \<Rightarrow> mouse_bus \<Rightarrow> mouse_bus" where
  "mouse_out k b = mb_run (ud_disconnect usb_mousekb_driver) (b\<lparr>mb_bound := removeAll (sample_mouse k) (mb_bound b)\<rparr>)"

lemma sample_load: "mouse_step id_fits sure no_mouse loaded_bus"
  using mouse_step.load_mod [of no_mouse id_fits sure sample_env]
  by (simp add: loaded_bus_def sample_mouse_defs)

lemma sample_in:
  assumes "mb_registered b" and "sample_mouse k \<notin> set (mb_bound b)" and "u \<noteq> NULL"
    and "\<forall>U. mb_urbs b = Some U \<longrightarrow> U u = None"
  shows "mouse_step id_fits sure b (mouse_in k u b)"
  unfolding mouse_in_def
proof (rule mouse_step.plug)
  show "claims id_fits (ud_id_table usb_mousekb_driver) (sample_mouse k)"
    by (simp add: usb_mousekb_driver_def id_fits.mouse_claims sample_mouse_def)
qed (use assms in \<open>simp_all add: grants_def sample_urb_def sample_mouse_def sample_env_def\<close>)

lemma sample_out: "sample_mouse k \<in> set (mb_bound b) \<Longrightarrow> mouse_step id_fits sure b (mouse_out k b)"
  unfolding mouse_out_def by (rule mouse_step.unplug)


section \<open>Two mice, and one after another\<close>

text \<open>
  The static variables have room for one mouse. With two, the second probe overwrites what the first left: when
  the first mouse goes, the URB of the second is killed and freed while that of the first stays in flight; when the
  second goes, the driver kills and frees a URB that is gone, and the first one is never taken back.
\<close>

theorem two_mice_share_one_urb:
  "let a = mouse_in 2 0x200 (mouse_in 1 0x100 loaded_bus); b = mouse_out 1 a; c = mouse_out 2 b in
     (mouse_step id_fits True)\<^sup>*\<^sup>* no_mouse c \<and>
     mb_urbs a = Some [0x100 \<mapsto> True, 0x200 \<mapsto> True] \<and>
     mb_bound b = [sample_mouse 2] \<and> mb_urbs b = Some [0x100 \<mapsto> True] \<and> mb_bound c = [] \<and> mb_urbs c = None"
proof -
  let ?a1 = "mouse_in 1 0x100 loaded_bus"
  let ?a = "mouse_in 2 0x200 ?a1"
  let ?b = "mouse_out 1 ?a"
  let ?c = "mouse_out 2 ?b"
  note run = mouse_in_def mouse_out_def loaded_bus_def mouse_defs sample_mouse_defs
  have l: "mb_bound loaded_bus = []" "mb_registered loaded_bus" "mb_urbs loaded_bus = Some Map.empty"
    by (simp_all add: run)
  have a1: "mb_bound ?a1 = [sample_mouse 1]" "mb_registered ?a1" "mb_urbs ?a1 = Some [0x100 \<mapsto> True]"
    by (simp_all add: run)
  have a: "mb_bound ?a = [sample_mouse 2, sample_mouse 1]" "mb_urbs ?a = Some [0x100 \<mapsto> True, 0x200 \<mapsto> True]"
    by (simp_all add: run)
  have b: "mb_bound ?b = [sample_mouse 2]" "mb_urbs ?b = Some [0x100 \<mapsto> True]"
    by (simp_all add: run fun_upd_twist)
  have c: "mb_bound ?c = []" "mb_urbs ?c = None" by (simp_all add: run)
  have two: "sample_mouse 2 \<noteq> sample_mouse 1" by (simp add: sample_mouse_def)
  have "mouse_step id_fits True no_mouse loaded_bus" "mouse_step id_fits True loaded_bus ?a1"
    "mouse_step id_fits True ?a1 ?a" "mouse_step id_fits True ?a ?b" "mouse_step id_fits True ?b ?c"
    using sample_load sample_in [of loaded_bus 1 "0x100"] sample_in [of ?a1 2 "0x200"] l a1 two
      sample_out [of 1 ?a] sample_out [of 2 ?b] a b by simp_all
  then have "(mouse_step id_fits True)\<^sup>*\<^sup>* no_mouse ?c"
    by (meson converse_rtranclp_into_rtranclp rtranclp.rtrancl_refl)
  with a b c show ?thesis by (simp add: Let_def)
qed

text \<open>
  \<open>pre_val\<close> outlives the mouse: unplugged with its left button held, the next mouse's first press of
  that button is not reported.
\<close>

lemma press_on_next_mouse_lost:
  "let held = mb_run (usb_mousekb_irq sample_env) (mouse_data 0x100 1 (mouse_in 1 0x100 loaded_bus));
       next_mouse = mouse_in 2 0x200 (mouse_out 1 held);
       pressed = mb_run (usb_mousekb_irq sample_env) (mouse_data 0x200 1 next_mouse)
   in input_reports (ktrace (mb_drv held)) = [KeyEvent KEY_L 1, SynReport] \<and>
     input_reports (ktrace (mb_drv pressed)) = []"
  by (simp add: Let_def mouse_in_def mouse_out_def loaded_bus_def mouse_data_def mouse_defs sample_mouse_defs)

section \<open>The skeleton's node after its device went\<close>

text \<open>Whatever the program calls on the node of a device that is gone fails and keeps no slot of the semaphore.\<close>

theorem skel_node_gone:
  assumes "device_node S path (skel_fops E found pm bulk sub) fd"
    and "kfault s = None" and "\<not> sk_freed s" and "\<not> sk_interface s" and "\<not> sk_intfdata s"
  shows "sys_open S path s = Done (-1) s"
    and "sys_read S fd n s = Done (-1, []) s"
    and "b \<noteq> [] \<Longrightarrow> 0 < sk_sem s \<Longrightarrow> \<exists>t. sys_write S fd b s = Done (-1) t \<and> sk_sem t = sk_sem s"
    and "b \<noteq> [] \<Longrightarrow> sk_sem s = 0 \<Longrightarrow> sys_write S fd b s = Sleeps"
proof -
  note node = device_node.open_node [OF assms(1)] device_node.read_node [OF assms(1)]
    device_node.write_node [OF assms(1)]
  note run = skel_fops_def no_ops_def open_result_def read_result_def driver_defs exec_def Let_def
  show "sys_open S path s = Done (-1) s" using assms(2-) by (simp add: node run)
  show "sys_read S fd n s = Done (-1, []) s" using assms(2-) by (simp add: node run)
  show "b \<noteq> [] \<Longrightarrow> 0 < sk_sem s \<Longrightarrow> \<exists>t. sys_write S fd b s = Done (-1) t \<and> sk_sem t = sk_sem s"
    using assms(2-) by (cases "e_usb_buffer_alloc E (min (length b) MAX_TRANSFER)") (simp add: node run)
  show "b \<noteq> [] \<Longrightarrow> sk_sem s = 0 \<Longrightarrow> sys_write S fd b s = Sleeps" using assms(2-) by (simp add: node run)
qed

end
