(* ===== verification/Blockdev.thy ===== *)
theory Blockdev
  imports Kernel
begin

text \<open>
  Block devices: \<open>src/Drivers/13.ramblock/ramblock.c\<close> (a disk of 1 MiB in kernel memory) and the driver
  example \<open>src/ex_source/ex_blockdev.c\<close> (transfer with a bounds check, request loops, bio transfer, two
  ways to load). The contract of a disk is the locale \<open>block_store\<close>: what was written last to a sector is
  what a read returns. \<open>byte_device\<close> is the contract of the raw device below \<open>xxx_transfer\<close>, whose
  routines \<open>read_dev\<close> and \<open>write_dev\<close> the example leaves open.
\<close>

section \<open>The contract of a disk\<close>

text \<open>\<open>rd i n s\<close> reads \<open>n\<close> sectors from sector \<open>i\<close>, \<open>wr i d s\<close> writes the bytes \<open>d\<close> from sector \<open>i\<close> on.\<close>

definition sector_update :: "nat \<Rightarrow> u8 list \<Rightarrow> (nat \<Rightarrow> u8 list) \<Rightarrow> nat \<Rightarrow> u8 list" where
  "sector_update i d f j =
     (if i \<le> j \<and> j < i + length d div 512 then take 512 (drop (512 * (j - i)) d) else f j)"

text \<open>The content of every sector after a sequence of writes.\<close>

fun latest :: "(nat \<times> u8 list) list \<Rightarrow> (nat \<Rightarrow> u8 list) \<Rightarrow> nat \<Rightarrow> u8 list" where
  "latest [] f = f"
| "latest ((i, d) # ws) f = latest ws (sector_update i d f)"

definition in_capacity :: "nat \<Rightarrow> nat \<times> u8 list \<Rightarrow> bool" where
  "in_capacity cap w \<longleftrightarrow> 512 dvd length (snd w) \<and> fst w + length (snd w) div 512 \<le> cap"

locale block_store =
  fixes rd :: "nat \<Rightarrow> nat \<Rightarrow> 's \<Rightarrow> u8 list" and wr :: "nat \<Rightarrow> u8 list \<Rightarrow> 's \<Rightarrow> 's"
    and ok :: "'s \<Rightarrow> bool" and cap :: nat
  assumes wr_ok: "ok s \<Longrightarrow> in_capacity cap (i, d) \<Longrightarrow> ok (wr i d s)"
    and rd_wr: "ok s \<Longrightarrow> in_capacity cap (i, d) \<Longrightarrow> j < cap \<Longrightarrow>
      rd j 1 (wr i d s) = sector_update i d (\<lambda>j. rd j 1 s) j"
    and rd_sectors: "ok s \<Longrightarrow> i + n \<le> cap \<Longrightarrow> rd i n s = concat (map (\<lambda>j. rd j 1 s) [i..<i + n])"
begin

lemma history_ok:
  "ok s \<Longrightarrow> \<forall>w \<in> set ws. in_capacity cap w \<Longrightarrow> ok (fold (\<lambda>(i, d). wr i d) ws s)"
  by (induction ws arbitrary: s) (auto intro: wr_ok)

lemma history_sector:
  assumes "ok s" and "\<forall>w \<in> set ws. in_capacity cap w" and "j < cap"
    and "\<forall>j < cap. rd j 1 s = f j"
  shows "rd j 1 (fold (\<lambda>(i, d). wr i d) ws s) = latest ws f j"
  using assms
proof (induction ws arbitrary: s f)
  case (Cons w ws)
  obtain i d where w: "w = (i, d)" by (cases w) auto
  have "\<forall>j < cap. rd j 1 (wr i d s) = sector_update i d f j"
    using Cons.prems rd_wr [OF Cons.prems(1), of i d] by (simp add: w sector_update_def)
  with Cons show ?case by (simp add: w wr_ok)
qed simp

lemma read_back:
  assumes "ok s" and "\<forall>w \<in> set ws. in_capacity cap w" and "i + n \<le> cap"
  shows "rd i n (fold (\<lambda>(i, d). wr i d) ws s) = concat (map (latest ws (\<lambda>j. rd j 1 s)) [i..<i + n])"
proof -
  have "map (\<lambda>j. rd j 1 (fold (\<lambda>(i, d). wr i d) ws s)) [i..<i + n] =
    map (latest ws (\<lambda>j. rd j 1 s)) [i..<i + n]"
    by (intro map_cong refl history_sector [OF assms(1,2)]) (use assms(3) in auto)
  with rd_sectors [OF history_ok [OF assms(1,2)] assms(3)] show ?thesis by (simp only:)
qed

end

text \<open>Two disks with the same content cannot be told apart by writing and reading.\<close>

lemma disks_alike:
  assumes one: "block_store rd wr ok cap" "ok s" and two: "block_store rd' wr' ok' cap" "ok' s'"
    and same: "\<forall>j < cap. rd j 1 s = rd' j 1 s'"
    and ws: "\<forall>w \<in> set ws. in_capacity cap w" and "i + n \<le> cap"
  shows "rd i n (fold (\<lambda>(i, d). wr i d) ws s) = rd' i n (fold (\<lambda>(i, d). wr' i d) ws s')"
proof -
  have "map (\<lambda>j. rd j 1 (fold (\<lambda>(i, d). wr i d) ws s)) [i..<i + n] =
      map (\<lambda>j. rd' j 1 (fold (\<lambda>(i, d). wr' i d) ws s')) [i..<i + n]"
  proof (intro map_cong refl)
    fix j
    assume "j \<in> set [i..<i + n]"
    then have "j < cap" using assms(7) by simp
    with block_store.history_sector [OF one ws this, of "\<lambda>j. rd j 1 s"]
      block_store.history_sector [OF two ws this, of "\<lambda>j. rd j 1 s"] same
    show "rd j 1 (fold (\<lambda>(i, d). wr i d) ws s) = rd' j 1 (fold (\<lambda>(i, d). wr' i d) ws s')" by simp
  qed
  with block_store.rd_sectors [OF one(1) block_store.history_ok [OF one ws] assms(7)]
    block_store.rd_sectors [OF two(1) block_store.history_ok [OF two ws] assms(7)]
  show ?thesis by (simp only:)
qed

section \<open>A buffer of bytes\<close>

text \<open>\<open>memcpy\<close> from and to a place in a buffer.\<close>

definition slice :: "nat \<Rightarrow> nat \<Rightarrow> 'a list \<Rightarrow> 'a list" where
  "slice off n xs = take n (drop off xs)"

lemma length_slice [simp]: "off + n \<le> length xs \<Longrightarrow> length (slice off n xs) = n"
  by (simp add: slice_def)

lemma nth_slice: "off + n \<le> length xs \<Longrightarrow> i < n \<Longrightarrow> slice off n xs ! i = xs ! (off + i)"
  by (simp add: slice_def)

lemma slice_slice: "k + m \<le> n \<Longrightarrow> slice k m (slice off n xs) = slice (off + k) m xs"
  by (simp add: slice_def drop_take min_def add.commute)

lemma slice_overwrite_other:
  assumes "off + length d \<le> length xs" and "o' + n \<le> length xs"
    and "o' + n \<le> off \<or> off + length d \<le> o'"
  shows "slice o' n (overwrite xs off d) = slice o' n xs"
  by (rule nth_equalityI) (use assms in \<open>auto simp: nth_slice nth_overwrite\<close>)

lemma slice_overwrite_inside:
  assumes "off + length d \<le> length xs" and "off \<le> o'" and "o' + n \<le> off + length d"
  shows "slice o' n (overwrite xs off d) = slice (o' - off) n d"
  by (rule nth_equalityI) (use assms in \<open>auto simp: nth_slice nth_overwrite\<close>)

lemma overwrite_overwrite:
  assumes "off + length d + length e \<le> length xs"
  shows "overwrite (overwrite xs off d) (off + length d) e = overwrite xs off (d @ e)"
  by (rule nth_equalityI) (use assms in \<open>auto simp: nth_overwrite nth_append\<close>)

lemma slice_append: "slice off n xs @ slice (off + n) m xs = slice off (n + m) xs"
  by (simp only: slice_def take_add drop_drop add.commute [of off])

lemma slice_sectors:
  assumes "512 * (i + n) \<le> length xs"
  shows "slice (512 * i) (512 * n) xs = concat (map (\<lambda>j. slice (512 * j) 512 xs) [i..<i + n])"
  using assms
proof (induction n)
  case (Suc n)
  have "slice (512 * i) (512 * Suc n) xs = slice (512 * i) (512 * n) xs @ slice (512 * (i + n)) 512 xs"
    using slice_append [of "512 * i" "512 * n" xs 512] by (simp add: algebra_simps)
  with Suc show ?case by simp
qed (simp add: slice_def)

definition ram_read :: "u32 \<Rightarrow> u32 \<Rightarrow> u8 list \<Rightarrow> u8 list" where
  "ram_read off n mem = slice (unat off) (unat n) mem"

definition ram_write :: "u32 \<Rightarrow> u8 list \<Rightarrow> u8 list \<Rightarrow> u8 list" where
  "ram_write off d mem = overwrite mem (unat off) d"

text \<open>The contract of a device of bytes; the RAM disk's \<open>memcpy\<close> keeps it.\<close>

locale byte_device =
  fixes R :: "u32 \<Rightarrow> u32 \<Rightarrow> 'd \<Rightarrow> u8 list" and W :: "u32 \<Rightarrow> u8 list \<Rightarrow> 'd \<Rightarrow> 'd" and content :: "'d \<Rightarrow> u8 list"
  assumes R_content: "unat off + unat n \<le> length (content d) \<Longrightarrow>
      R off n d = slice (unat off) (unat n) (content d)"
    and W_content: "unat off + length b \<le> length (content d) \<Longrightarrow>
      content (W off b d) = overwrite (content d) (unat off) b"

interpretation ram: byte_device ram_read ram_write "\<lambda>d. d"
  by unfold_locales (simp_all add: ram_read_def ram_write_def)

section \<open>ramblock.c\<close>

text \<open>
  A request as \<open>elv_next_request\<close> hands it out: the current segment, with the buffer the data comes from
  or goes to. \<open>end_request\<close> removes it from the queue; a request of several segments is several entries.
\<close>

record request =
  rq_sector :: u32
  rq_nr :: u32
  rq_write :: bool
  rq_fs :: bool
  rq_buffer :: "u8 list"

definition RAMBLOCK_SIZE :: nat where
  "RAMBLOCK_SIZE = 1024 * 1024"

record rb_state = kstate +
  ramblock_disk :: ptr
  ramblock_queue :: ptr
  rb_major :: int
  ramblock_buf :: ptr
  rb_data :: "u8 list"
  rb_capacity :: nat
  rb_pending :: "request list"
  rb_ended :: "(request \<times> bool) list"

definition rb_initial :: rb_state where
  "rb_initial = \<lparr>ktrace = [], kmem = (\<lambda>_. 0), kfault = None, ramblock_disk = NULL,
     ramblock_queue = NULL, rb_major = 0, ramblock_buf = NULL, rb_data = [], rb_capacity = 0,
     rb_pending = [], rb_ended = []\<rparr>"

text \<open>Cylinders are an \<open>unsigned short\<close> in \<open>struct hd_geometry\<close>.\<close>

record hd_geometry =
  geo_heads :: u8
  geo_sectors :: u8
  geo_cylinders :: u16
  geo_start :: u32

definition ramblock_getgeo :: "hd_geometry \<Rightarrow> nat \<times> hd_geometry" where
  "ramblock_getgeo geo = (0, geo\<lparr>geo_heads := 2, geo_cylinders := 32,
     geo_sectors := of_nat (RAMBLOCK_SIZE div 2 div 32 div 512)\<rparr>)"

text \<open>
  The body of the loop in \<open>do_ramblock_request\<close> for the request \<open>req\<close>. A \<open>memcpy\<close> that leaves the disk's
  buffer or the request's is a fault.
\<close>

definition ramblock_serve :: "request \<Rightarrow> (rb_state, unit) state" where
  "ramblock_serve req =
     (let offset = unat (rq_sector req * 512); len = unat (rq_nr req * 512) in do {
        s \<leftarrow> State_Monad.get;
        (if length (rb_data s) < offset + len \<or> length (rq_buffer req) < len then panic OutOfBounds
         else if \<not> rq_write req
         then upd (\<lambda>s. s\<lparr>rb_ended := rb_ended s @
           [(req\<lparr>rq_buffer := overwrite (rq_buffer req) 0 (ram_read (rq_sector req * 512) (rq_nr req * 512) (rb_data s))\<rparr>, True)]\<rparr>)
         else upd (\<lambda>s. s\<lparr>rb_data := ram_write (rq_sector req * 512) (take len (rq_buffer req)) (rb_data s),
           rb_ended := rb_ended s @ [(req, True)]\<rparr>)) })"

lemma serve_pending: "rb_pending (snd (run_state (ramblock_serve req) s)) = rb_pending s"
  by (cases "kfault s") (simp_all add: ramblock_serve_def Let_def)

function do_ramblock_request :: "rb_state \<Rightarrow> rb_state" where
  "do_ramblock_request s = (case rb_pending s of
     [] \<Rightarrow> s
   | req # rest \<Rightarrow>
       (if kfault s \<noteq> None then s
        else do_ramblock_request (snd (run_state (ramblock_serve req) (s\<lparr>rb_pending := rest\<rparr>)))))"
  by pat_completeness auto

termination
  by (relation "measure (\<lambda>s. length (rb_pending s))") (simp_all add: serve_pending)

declare do_ramblock_request.simps [simp del]

definition ramblock_init :: "kenv \<Rightarrow> (rb_state, c_int) state" where
  "ramblock_init E = do {
     d \<leftarrow> ask (e_alloc_disk E 0) (KBlk (AllocDisk (e_alloc_disk E 0)));
     upd (\<lambda>s. s\<lparr>ramblock_disk := d\<rparr>);
     q \<leftarrow> ask (e_blk_queue E 0) (KBlk (BlkQueue (e_blk_queue E 0)));
     upd (\<lambda>s. s\<lparr>ramblock_queue := q\<rparr>);
     deref d;
     m \<leftarrow> ask (e_register_blkdev E 0) (KBlk (RegisterBlkdev 0 (e_register_blkdev E 0)));
     upd (\<lambda>s. s\<lparr>rb_major := m\<rparr>);
     upd (\<lambda>s. s\<lparr>rb_capacity := RAMBLOCK_SIZE div 512\<rparr>);
     b \<leftarrow> kzalloc E RAMBLOCK_SIZE;
     upd (\<lambda>s. s\<lparr>ramblock_buf := b,
       rb_data := (if b = NULL then [] else replicate RAMBLOCK_SIZE 0)\<rparr>);
     call (KBlk (AddDisk d));
     State_Monad.return (Inr 0) }"

definition ramblock_exit :: "(rb_state, unit) state" where
  "ramblock_exit = do {
     s \<leftarrow> State_Monad.get;
     call (KBlk (UnregisterBlkdev (rb_major s)));
     call (KBlk (DelGendisk (ramblock_disk s)));
     call (KBlk (PutDisk (ramblock_disk s)));
     call (KBlk (BlkCleanupQueue (ramblock_queue s)));
     call (KMem (Kfree (ramblock_buf s)));
     upd (\<lambda>s. s\<lparr>rb_data := []\<rparr>) }"

lemmas ramblock_defs [driver_defs] = ramblock_init_def ramblock_exit_def

section \<open>Serving requests\<close>

definition in_range :: "rb_state \<Rightarrow> request \<Rightarrow> bool" where
  "in_range s req \<longleftrightarrow> unat (rq_sector req * 512) + unat (rq_nr req * 512) \<le> length (rb_data s)
     \<and> unat (rq_nr req * 512) \<le> length (rq_buffer req)"

text \<open>What serving one request means for the bytes of the disk and for the request's buffer.\<close>

definition disk_after :: "u8 list \<Rightarrow> request \<Rightarrow> u8 list" where
  "disk_after D req = (if rq_write req
     then overwrite D (unat (rq_sector req * 512)) (take (unat (rq_nr req * 512)) (rq_buffer req)) else D)"

definition answered :: "u8 list \<Rightarrow> request \<Rightarrow> request" where
  "answered D req = (if rq_write req then req else req\<lparr>rq_buffer :=
     overwrite (rq_buffer req) 0 (slice (unat (rq_sector req * 512)) (unat (rq_nr req * 512)) D)\<rparr>)"

lemma length_disk_after [simp]:
  "in_range s req \<Longrightarrow> length (disk_after (rb_data s) req) = length (rb_data s)"
  by (simp add: disk_after_def in_range_def)

lemma run_serve:
  assumes "kfault s = None"
  shows "snd (run_state (ramblock_serve req) s) =
    (if in_range s req
     then s\<lparr>rb_data := disk_after (rb_data s) req, rb_ended := rb_ended s @ [(answered (rb_data s) req, True)]\<rparr>
     else s\<lparr>kfault := Some OutOfBounds\<rparr>)"
  using assms by (auto simp: ramblock_serve_def Let_def in_range_def disk_after_def answered_def
      ram_read_def ram_write_def not_less)

lemma do_ramblock_request_Nil [simp]: "rb_pending s = [] \<Longrightarrow> do_ramblock_request s = s"
  by (subst do_ramblock_request.simps) simp

lemma do_ramblock_request_fault [simp]: "kfault s \<noteq> None \<Longrightarrow> do_ramblock_request s = s"
  by (subst do_ramblock_request.simps) (simp split: list.split)

lemma do_ramblock_request_Cons:
  assumes "kfault s = None" and "rb_pending s = req # rest"
  shows "do_ramblock_request s =
    (if in_range s req
     then do_ramblock_request (s\<lparr>rb_pending := rest, rb_data := disk_after (rb_data s) req,
       rb_ended := rb_ended s @ [(answered (rb_data s) req, True)]\<rparr>)
     else s\<lparr>rb_pending := rest, kfault := Some OutOfBounds\<rparr>)"
  by (subst do_ramblock_request.simps) (simp add: assms run_serve in_range_def)

definition rb_request :: "nat \<Rightarrow> nat \<Rightarrow> bool \<Rightarrow> u8 list \<Rightarrow> request" where
  "rb_request i n w b = \<lparr>rq_sector = of_nat i, rq_nr = of_nat n, rq_write = w, rq_fs = True, rq_buffer = b\<rparr>"

text \<open>The history of a queue: what is answered, request by request.\<close>

fun answers :: "u8 list \<Rightarrow> request list \<Rightarrow> request list" where
  "answers D [] = []"
| "answers D (req # rest) = answered D req # answers (disk_after D req) rest"

text \<open>
  C38: \<open>do_ramblock_request\<close> empties its queue. If every request lies on the disk and has a buffer
  of its size, the loop ends without a fault, every request is ended with success, in the order of the
  queue, reads with the content that the writes before them left, and the content of the disk is that of
  all writes in order. The disk keeps its size.
\<close>

theorem ramblock_drains:
  assumes "kfault s = None" and "\<forall>req \<in> set (rb_pending s). in_range s req"
  shows "do_ramblock_request s = s\<lparr>rb_pending := [],
      rb_data := foldl disk_after (rb_data s) (rb_pending s),
      rb_ended := rb_ended s @ map (\<lambda>r. (r, True)) (answers (rb_data s) (rb_pending s))\<rparr> \<and>
    length (foldl disk_after (rb_data s) (rb_pending s)) = length (rb_data s)"
  using assms
proof (induction "rb_pending s" arbitrary: s)
  case Nil
  then show ?case by (simp add: Nil.hyps [symmetric])
next
  case (Cons req rest)
  have "in_range s req" using Cons.prems by (simp add: Cons.hyps(2) [symmetric])
  let ?s = "s\<lparr>rb_pending := rest, rb_data := disk_after (rb_data s) req,
    rb_ended := rb_ended s @ [(answered (rb_data s) req, True)]\<rparr>"
  have "in_range ?s r = in_range s r" for r
    using \<open>in_range s req\<close> by (simp add: in_range_def [of _ r])
  then have "\<forall>r \<in> set (rb_pending ?s). in_range ?s r"
    using Cons.prems by (simp add: Cons.hyps(2) [symmetric])
  with Cons.hyps(1) [of ?s] Cons.prems show ?case
    by (simp add: Cons.hyps(2) [symmetric] do_ramblock_request_Cons \<open>in_range s req\<close>)
qed

theorem ramblock_drains_witness:
  "let s = do_ramblock_request (rb_initial\<lparr>rb_data := replicate 1024 0,
       rb_pending := [rb_request 1 1 True (replicate 512 7), rb_request 1 1 False (replicate 512 0)]\<rparr>)
   in rb_pending s = [] \<and> map (\<lambda>(r, e). (rq_buffer r, e)) (rb_ended s) =
     [(replicate 512 7, True), (replicate 512 7, True)]"
  by (subst ramblock_drains)
    (simp_all add: Let_def rb_initial_def rb_request_def in_range_def answered_def disk_after_def
      overwrite_def slice_def)

text \<open>Reading and writing the disk through its request queue.\<close>

definition rb_rd :: "nat \<Rightarrow> nat \<Rightarrow> rb_state \<Rightarrow> u8 list" where
  "rb_rd i n s = rq_buffer (fst (last (rb_ended
     (do_ramblock_request (s\<lparr>rb_pending := [rb_request i n False (replicate (512 * n) 0)]\<rparr>)))))"

definition rb_wr :: "nat \<Rightarrow> u8 list \<Rightarrow> rb_state \<Rightarrow> rb_state" where
  "rb_wr i d s = do_ramblock_request (s\<lparr>rb_pending := [rb_request i (length d div 512) True d]\<rparr>)"

definition rb_ok :: "rb_state \<Rightarrow> bool" where
  "rb_ok s \<longleftrightarrow> kfault s = None \<and> rb_pending s = [] \<and> length (rb_data s) = RAMBLOCK_SIZE"

lemma unat_sectors [simp]: "i \<le> 2048 \<Longrightarrow> unat (of_nat i * 512 :: u32) = 512 * i"
  by (simp add: unat_word_ariths unat_of_nat)

lemma overwrite_whole [simp]: "length d = length xs \<Longrightarrow> overwrite xs 0 d = d"
  by (simp add: overwrite_def)

lemma rb_rd_slice:
  assumes "rb_ok s" and "i + n \<le> 2048"
  shows "rb_rd i n s = slice (512 * i) (512 * n) (rb_data s)"
  using assms by (simp add: rb_rd_def rb_ok_def RAMBLOCK_SIZE_def do_ramblock_request_Cons in_range_def
      rb_request_def answered_def)

lemma rb_wr_overwrite:
  assumes "rb_ok s" and "in_capacity 2048 (i, d)"
  shows "rb_ok (rb_wr i d s)" "rb_data (rb_wr i d s) = overwrite (rb_data s) (512 * i) d"
  using assms by (auto simp: rb_wr_def rb_ok_def RAMBLOCK_SIZE_def do_ramblock_request_Cons in_range_def
      rb_request_def disk_after_def in_capacity_def)

lemma slice_sector_update:
  assumes "512 * i + length d \<le> length xs" and "512 dvd length d" and "512 * (j + 1) \<le> length xs"
  shows "slice (512 * j) 512 (overwrite xs (512 * i) d) =
    sector_update i d (\<lambda>j. slice (512 * j) 512 xs) j"
proof -
  obtain k where k: "length d = 512 * k" using assms(2) by auto
  have "drop (512 * (j - i)) d = drop (512 * j - 512 * i) d" by (simp add: diff_mult_distrib2)
  with assms k show ?thesis
    by (auto simp: sector_update_def slice_overwrite_other slice_overwrite_inside) (simp_all add: slice_def)
qed

interpretation ramblock: block_store rb_rd rb_wr rb_ok 2048
proof
  fix s i d
  assume a: "rb_ok s" "in_capacity 2048 (i, d)"
  then show "rb_ok (rb_wr i d s)" by (rule rb_wr_overwrite)
  fix j :: nat
  assume "j < 2048"
  have "512 * i + length d \<le> length (rb_data s)" "512 dvd length d"
    using a by (auto simp: in_capacity_def rb_ok_def RAMBLOCK_SIZE_def)
  moreover have "512 * (j + 1) \<le> length (rb_data s)"
    using a \<open>j < 2048\<close> by (simp add: rb_ok_def RAMBLOCK_SIZE_def)
  ultimately have "slice (512 * j) 512 (overwrite (rb_data s) (512 * i) d) =
      sector_update i d (\<lambda>j. slice (512 * j) 512 (rb_data s)) j"
    by (rule slice_sector_update)
  moreover have "sector_update i d (\<lambda>j. rb_rd j 1 s) j =
      sector_update i d (\<lambda>j. slice (512 * j) 512 (rb_data s)) j"
    using a \<open>j < 2048\<close> by (simp add: sector_update_def rb_rd_slice)
  moreover have "rb_rd j 1 (rb_wr i d s) = slice (512 * j) 512 (rb_data (rb_wr i d s))"
    using \<open>j < 2048\<close> rb_wr_overwrite(1) [OF a] by (simp add: rb_rd_slice)
  ultimately show "rb_rd j 1 (rb_wr i d s) = sector_update i d (\<lambda>j. rb_rd j 1 s) j"
    using rb_wr_overwrite(2) [OF a] by simp
next
  fix s i n
  assume a: "rb_ok s" "i + n \<le> (2048::nat)"
  then have "map (\<lambda>j. rb_rd j 1 s) [i..<i + n] = map (\<lambda>j. slice (512 * j) 512 (rb_data s)) [i..<i + n]"
    by (simp add: rb_rd_slice)
  moreover have "512 * (i + n) \<le> length (rb_data s)" using a by (simp add: rb_ok_def RAMBLOCK_SIZE_def)
  ultimately show "rb_rd i n s = concat (map (\<lambda>j. rb_rd j 1 s) [i..<i + n])"
    using a by (simp only: rb_rd_slice slice_sectors)
qed

section \<open>Loading, geometry and content of the RAM disk\<close>

definition blk_good :: "kenv \<Rightarrow> bool" where
  "blk_good E \<longleftrightarrow> e_alloc_disk E 0 \<noteq> NULL \<and> e_blk_queue E 0 \<noteq> NULL \<and> 0 \<le> e_register_blkdev E 0
     \<and> e_kzalloc E RAMBLOCK_SIZE \<noteq> NULL"

interpretation ramblock_mod: module_contract ramblock_init ramblock_exit rb_initial ktrace blk_good
  by unfold_locales
    (auto simp: driver_defs blk_good_def rb_initial_def no_leak_def)

lemma ramblock_loaded:
  assumes "e_alloc_disk E 0 \<noteq> NULL" and "e_kzalloc E RAMBLOCK_SIZE \<noteq> NULL"
  shows "rb_ok (snd (run_state (ramblock_init E) rb_initial))"
    and "rb_data (snd (run_state (ramblock_init E) rb_initial)) = replicate RAMBLOCK_SIZE 0"
  using assms by (simp_all add: driver_defs rb_initial_def rb_ok_def)

lemma slice_replicate [simp]: "i + n \<le> k \<Longrightarrow> slice i n (replicate k x) = replicate n x"
  by (simp add: slice_def min_def)

lemma latest_cong:
  assumes "f j = g j"
  shows "latest ws f j = latest ws g j"
  using assms
proof (induction ws arbitrary: f g)
  case (Cons w ws)
  obtain i d where "w = (i, d)" by (cases w) auto
  have "sector_update i d f j = sector_update i d g j"
    using Cons.prems by (simp add: sector_update_def)
  then show ?case by (simp add: \<open>w = (i, d)\<close> Cons.IH [of "sector_update i d f" "sector_update i d g"])
qed simp

text \<open>
  C7: the RAM disk is a disk: after any sequence of write requests inside its 2048 sectors, a
  read of any range of sectors returns for each of them the bytes that were written to it last, and zeros
  where nothing was written since \<open>ramblock_init\<close>.
\<close>

theorem ramblock_history:
  assumes "e_alloc_disk E 0 \<noteq> NULL" and "e_kzalloc E RAMBLOCK_SIZE \<noteq> NULL"
    and "\<forall>w \<in> set ws. in_capacity 2048 w" and "i + n \<le> 2048"
  shows "rb_rd i n (fold (\<lambda>(i, d). rb_wr i d) ws (snd (run_state (ramblock_init E) rb_initial))) =
    concat (map (latest ws (\<lambda>j. replicate 512 0)) [i..<i + n])"
proof -
  let ?s = "snd (run_state (ramblock_init E) rb_initial)"
  note ok = ramblock_loaded [OF assms(1,2)]
  have "rb_rd j 1 ?s = replicate 512 0" if "j < 2048" for j
    using that ok by (simp add: rb_rd_slice RAMBLOCK_SIZE_def)
  then have "map (latest ws (\<lambda>j. rb_rd j 1 ?s)) [i..<i + n] =
      map (latest ws (\<lambda>j. replicate 512 0)) [i..<i + n]"
    using assms(4) by (intro map_cong refl latest_cong) simp
  with ramblock.read_back [OF ok(1) assms(3,4)] show ?thesis by (simp only:)
qed

theorem ramblock_history_witness:
  "rb_rd 2 3 (fold (\<lambda>(i, d). rb_wr i d) [(3, replicate 1024 7), (4, replicate 512 9)]
     (snd (run_state (ramblock_init sample_env) rb_initial))) =
   replicate 512 0 @ replicate 512 7 @ replicate 512 9"
proof -
  have "[2..<2 + 3] = [2, 3, 4 :: nat]" by (simp add: upt_rec)
  then show ?thesis
    by (subst ramblock_history) (simp_all add: sample_env_def in_capacity_def sector_update_def)
qed

text \<open>
  What the missing checks of \<open>ramblock_init\<close> mean. Without memory for the disk structure
  the load ends in a null dereference. Without memory for the content it still answers 0 and the disk
  is announced with its 2048 sectors, and the first request of at least one sector is an access
  outside of the buffer.
\<close>

theorem ramblock_unchecked:
  assumes "rq_nr req * 512 \<noteq> 0"
  shows "(e_alloc_disk E 0 = NULL \<longrightarrow> exec (ramblock_init E) rb_initial = Inl NullDeref) \<and>
    (e_alloc_disk E 0 \<noteq> NULL \<and> e_kzalloc E RAMBLOCK_SIZE = NULL \<longrightarrow>
      (\<exists>s. exec (ramblock_init E) rb_initial = Inr (Inr 0, s) \<and> rb_capacity s = 2048 \<and>
        KBlk (AddDisk (e_alloc_disk E 0)) \<in> set (ktrace s) \<and>
        kfault (do_ramblock_request (s\<lparr>rb_pending := req # rest\<rparr>)) = Some OutOfBounds))"
  using assms by (auto simp: exec_Inr_iff exec_Inl_iff driver_defs rb_initial_def RAMBLOCK_SIZE_def
      do_ramblock_request_Cons in_range_def unat_eq_0)

theorem ramblock_unchecked_witness:
  "\<exists>s. exec (ramblock_init (sample_env\<lparr>e_kzalloc := \<lambda>n. NULL\<rparr>)) rb_initial = Inr (Inr 0, s) \<and>
    rb_capacity s = 2048 \<and>
    kfault (do_ramblock_request (s\<lparr>rb_pending := [rb_request 0 1 False (replicate 512 0)]\<rparr>)) =
      Some OutOfBounds"
  using ramblock_unchecked [of "rb_request 0 1 False (replicate 512 0)"
    "sample_env\<lparr>e_kzalloc := \<lambda>n. NULL\<rparr>" "[]"]
  by (auto simp: sample_env_def rb_request_def)

end
