(* ===== verification/Ex_Blockdev.thy ===== *)
theory Ex_Blockdev
  imports Blockdev
begin

text \<open>
  The block driver example \<open>src/ex_source/ex_blockdev.c\<close>: \<open>xxx_transfer\<close> with its bounds check, the request
  loop \<open>xxx_request\<close>, the loop over whole requests \<open>xxx_full_request\<close> with \<open>xxx_xfer_request\<close> and
  \<open>xxx_xfer_bio\<close>, \<open>xxx_make_request\<close>, \<open>xxx_ioctl\<close>, the two ways to load and the unloading.

  Parameters are the raw device (\<open>R\<close> for \<open>read_dev\<close>, \<open>W\<close> for \<open>write_dev\<close>, which the file does not define;
  contract \<open>byte_device\<close>) and the kernel's \<open>end_that_request_first\<close> (\<open>K\<close>; contract \<open>request_end\<close>). A driver
  loop takes fuel and answers \<open>None\<close> when the fuel does not suffice.
\<close>

section \<open>Transfer\<close>

record 'd xxx_dev =
  dev_size :: u32
  dev_store :: 'd

type_synonym 'd reader = "u32 \<Rightarrow> u32 \<Rightarrow> 'd \<Rightarrow> u8 list"
type_synonym 'd writer = "u32 \<Rightarrow> u8 list \<Rightarrow> 'd \<Rightarrow> 'd"

text \<open>
  The products and the sum of \<open>xxx_transfer\<close> are of 32 bits and wrap. A transfer of more bytes than the
  buffer has is a fault; a transfer beyond the end is dropped.
\<close>

definition xxx_transfer ::
  "'d reader \<Rightarrow> 'd writer \<Rightarrow> 'd xxx_dev \<Rightarrow> u32 \<Rightarrow> u32 \<Rightarrow> u8 list \<Rightarrow> bool \<Rightarrow> fault + 'd xxx_dev \<times> u8 list"
  where
  "xxx_transfer R W dev sector nsect buffer write =
     (let offset = sector * 512; nbytes = nsect * 512 in
      if offset + nbytes > dev_size dev then Inr (dev, buffer)
      else if length buffer < unat nbytes then Inl OutOfBounds
      else if write then Inr (dev\<lparr>dev_store := W offset (take (unat nbytes) buffer) (dev_store dev)\<rparr>, buffer)
      else Inr (dev, overwrite buffer 0 (R offset nbytes (dev_store dev))))"

section \<open>Requests\<close>

text \<open>
  A request with the segments still to transfer: \<open>buffer\<close> is the first of them and
  \<open>current_nr_sectors\<close> = \<open>hard_cur_sectors\<close> its size. \<open>end_that_request_first (r, uptodate, n)\<close> completes
  \<open>n\<close> sectors; \<open>None\<close> is its answer 0, nothing left.
\<close>

record blk_request =
  br_sector :: u32
  br_write :: bool
  br_fs :: bool
  br_segs :: "u8 list list"

type_synonym end_first = "blk_request \<Rightarrow> bool \<Rightarrow> nat \<Rightarrow> blk_request option"

definition cur_nr :: "blk_request \<Rightarrow> nat" where
  "cur_nr r = (case br_segs r of [] \<Rightarrow> 0 | b # bs \<Rightarrow> length b div 512)"

definition cur_buffer :: "blk_request \<Rightarrow> u8 list" where
  "cur_buffer r = (case br_segs r of [] \<Rightarrow> [] | b # bs \<Rightarrow> b)"

text \<open>
  The queue has \<open>req\<close> at its head. The answer is the queue and the requests that were completed, with
  the state they were completed in.
\<close>

definition end_request ::
  "end_first \<Rightarrow> blk_request \<Rightarrow> bool \<Rightarrow> blk_request list \<Rightarrow> blk_request list \<times> (blk_request \<times> bool) list"
  where
  "end_request K req uptodate queue =
     (case K req uptodate (cur_nr req) of
        None \<Rightarrow> (queue, [(req, uptodate)])
      | Some req' \<Rightarrow> (req' # queue, []))"

fun xxx_request ::
  "end_first \<Rightarrow> 'd reader \<Rightarrow> 'd writer \<Rightarrow> nat \<Rightarrow> 'd xxx_dev \<Rightarrow> blk_request list \<Rightarrow>
   (fault + 'd xxx_dev \<times> (blk_request \<times> bool) list) option" where
  "xxx_request K R W fuel dev [] = Some (Inr (dev, []))"
| "xxx_request K R W 0 dev (req # queue) = None"
| "xxx_request K R W (Suc k) dev (req # queue) =
     (if \<not> br_fs req
      then (case end_request K req False queue of (queue', e) \<Rightarrow>
        map_option (map_sum id (apsnd ((@) e))) (xxx_request K R W k dev queue'))
      else (case xxx_transfer R W dev (br_sector req) (of_nat (cur_nr req)) (cur_buffer req)
          (br_write req) of
        Inl f \<Rightarrow> Some (Inl f)
      | Inr (dev', b) \<Rightarrow> (case end_request K (req\<lparr>br_segs := b # tl (br_segs req)\<rparr>) True queue of
          (queue', e) \<Rightarrow> map_option (map_sum id (apsnd ((@) e))) (xxx_request K R W k dev' queue'))))"

section \<open>Bios\<close>

text \<open>
  The buffers of the segments of a bio; \<open>bi_idx\<close> is the current one, \<open>bi_size\<close> the bytes from there on.
  Every segment is transferred with the size of the current one: \<open>bio_cur_sectors\<close> does not depend
  on the loop index.
\<close>

record bio =
  bi_sector :: u32
  bi_idx :: nat
  bi_vecs :: "u8 list list"
  bi_write :: bool

definition bi_size :: "bio \<Rightarrow> nat" where
  "bi_size b = sum_list (map length (drop (bi_idx b) (bi_vecs b)))"

definition bio_cur_sectors :: "bio \<Rightarrow> u32" where
  "bio_cur_sectors b =
     of_nat ((if bi_idx b < length (bi_vecs b) then length (bi_vecs b ! bi_idx b) else 0) div 512)"

fun xfer_segments ::
  "'d reader \<Rightarrow> 'd writer \<Rightarrow> u32 \<Rightarrow> bool \<Rightarrow> 'd xxx_dev \<Rightarrow> u32 \<Rightarrow> u8 list list \<Rightarrow>
   fault + 'd xxx_dev \<times> u8 list list" where
  "xfer_segments R W cur write dev sector [] = Inr (dev, [])"
| "xfer_segments R W cur write dev sector (buffer # vecs) =
     (case xxx_transfer R W dev sector cur buffer write of
        Inl f \<Rightarrow> Inl f
      | Inr (dev', b) \<Rightarrow> map_sum id (apsnd ((#) b))
          (xfer_segments R W cur write dev' (sector + cur) vecs))"

definition xxx_xfer_bio :: "'d reader \<Rightarrow> 'd writer \<Rightarrow> 'd xxx_dev \<Rightarrow> bio \<Rightarrow> fault + 'd xxx_dev \<times> bio" where
  "xxx_xfer_bio R W dev b =
     map_sum id (apsnd (\<lambda>vs. b\<lparr>bi_vecs := take (bi_idx b) (bi_vecs b) @ vs\<rparr>))
       (xfer_segments R W (bio_cur_sectors b) (bi_write b) dev (bi_sector b) (drop (bi_idx b) (bi_vecs b)))"

text \<open>\<open>nsect\<close> counts what the bios announce.\<close>

fun xxx_xfer_request ::
  "'d reader \<Rightarrow> 'd writer \<Rightarrow> 'd xxx_dev \<Rightarrow> bio list \<Rightarrow> fault + 'd xxx_dev \<times> bio list \<times> nat" where
  "xxx_xfer_request R W dev [] = Inr (dev, [], 0)"
| "xxx_xfer_request R W dev (b # bs) =
     (case xxx_xfer_bio R W dev b of
        Inl f \<Rightarrow> Inl f
      | Inr (dev', b') \<Rightarrow> map_sum id (\<lambda>(d, bs', n). (d, b' # bs', n + bi_size b div 512))
          (xxx_xfer_request R W dev' bs))"

text \<open>The answer of \<open>xxx_make_request\<close> is the device and the completed bio with its size and status.\<close>

definition xxx_make_request ::
  "'d reader \<Rightarrow> 'd writer \<Rightarrow> 'd xxx_dev \<Rightarrow> bio \<Rightarrow> fault + 'd xxx_dev \<times> (bio \<times> nat \<times> nat) \<times> nat" where
  "xxx_make_request R W dev b =
     map_sum id (\<lambda>(dev', b'). (dev', (b', bi_size b, 0), 0)) (xxx_xfer_bio R W dev b)"

text \<open>A whole request: its bios.\<close>

record full_request =
  fr_fs :: bool
  fr_bios :: "bio list"

type_synonym end_full = "full_request \<Rightarrow> bool \<Rightarrow> nat \<Rightarrow> full_request option"

text \<open>
  The answer of \<open>end_that_request_first\<close> depends on the sizes of the bios, not on the bytes in their
  buffers, so it is asked about \<open>req\<close> as it was. \<open>n\<close> of \<open>end_request\<close> is \<open>hard_cur_sectors\<close>, the size of the current segment
  of the first bio.
\<close>

definition full_cur :: "full_request \<Rightarrow> nat" where
  "full_cur r = (case fr_bios r of [] \<Rightarrow> 0 | b # bs \<Rightarrow> unat (bio_cur_sectors b))"

fun xxx_full_request ::
  "end_full \<Rightarrow> 'd reader \<Rightarrow> 'd writer \<Rightarrow> nat \<Rightarrow> 'd xxx_dev \<Rightarrow> full_request list \<Rightarrow>
   (fault + 'd xxx_dev \<times> (full_request \<times> bool) list) option" where
  "xxx_full_request K R W fuel dev [] = Some (Inr (dev, []))"
| "xxx_full_request K R W 0 dev (req # queue) = None"
| "xxx_full_request K R W (Suc k) dev (req # queue) =
     (if \<not> fr_fs req
      then (case K req False (full_cur req) of
          None \<Rightarrow> map_option (map_sum id (apsnd ((#) (req, False)))) (xxx_full_request K R W k dev queue)
        | Some req' \<Rightarrow> xxx_full_request K R W k dev (req' # queue))
      else (case xxx_xfer_request R W dev (fr_bios req) of
          Inl f \<Rightarrow> Some (Inl f)
        | Inr (dev', bs, n) \<Rightarrow> (case K req True n of
            None \<Rightarrow> map_option (map_sum id (apsnd ((#) (req\<lparr>fr_bios := bs\<rparr>, True))))
              (xxx_full_request K R W k dev' queue)
          | Some req' \<Rightarrow> xxx_full_request K R W k dev' (req' # queue))))"

section \<open>A transfer on a device of bytes\<close>

definition sound_dev :: "('d \<Rightarrow> u8 list) \<Rightarrow> 'd xxx_dev \<Rightarrow> bool" where
  "sound_dev content dev \<longleftrightarrow> unat (dev_size dev) = length (content (dev_store dev))"

definition fits :: "('d \<Rightarrow> u8 list) \<Rightarrow> 'd xxx_dev \<Rightarrow> u32 \<Rightarrow> nat \<Rightarrow> bool" where
  "fits content dev sector n \<longleftrightarrow> 512 * unat sector + n \<le> length (content (dev_store dev))"

lemma unat_u32_less: "unat (x :: u32) < 2 ^ 32"
  by (rule order_less_le_trans [OF unsigned_less]) simp

lemma bytes_no_wrap:
  assumes "512 * unat (a::u32) < 2 ^ 32"
  shows "unat (a * 512) = 512 * unat a"
  using assms by (simp add: unat_word_ariths)

text \<open>The offset wraps: sectors that differ by \<open>2 ^ 23\<close> are the same to \<open>xxx_transfer\<close>.\<close>

lemma transfer_alias:
  "xxx_transfer R W dev (sector + 0x800000) n b w = xxx_transfer R W dev sector n b w"
proof -
  have "(0x800000 :: u32) * 512 = 0" by simp
  then have "(sector + 0x800000) * 512 = sector * 512" by (simp only: distrib_right add_0_right)
  then show ?thesis by (simp only: xxx_transfer_def)
qed

context byte_device
begin

lemma transfer_beyond:
  assumes "sound_dev content dev" and "\<not> fits content dev sector (512 * unat n)"
    and "512 * unat sector + 512 * unat n < 2 ^ 32"
  shows "xxx_transfer R W dev sector n b w = Inr (dev, b)"
proof -
  have "unat (sector * 512 + n * 512) = 512 * unat sector + 512 * unat n"
    using assms(3) by (simp add: unat_word_ariths bytes_no_wrap)
  with assms(1,2) show ?thesis
    by (simp add: xxx_transfer_def Let_def word_less_nat_alt sound_dev_def fits_def)
qed

lemma transfer_inside:
  assumes "sound_dev content dev" and "fits content dev sector (length b)"
    and "length b = 512 * unat n"
  obtains d where "xxx_transfer R W dev sector n b True = Inr (dev\<lparr>dev_store := d\<rparr>, b)"
      "content d = overwrite (content (dev_store dev)) (512 * unat sector) b"
      "xxx_transfer R W dev sector n b False =
        Inr (dev, slice (512 * unat sector) (length b) (content (dev_store dev)))"
proof -
  have "512 * unat sector + 512 * unat n < 2 ^ 32"
    using assms unat_u32_less [of "dev_size dev"] by (simp add: sound_dev_def fits_def)
  then have u: "unat (sector * 512) = 512 * unat sector" "unat (n * 512) = 512 * unat n"
    "unat (sector * 512 + n * 512) = 512 * unat sector + 512 * unat n"
    by (simp_all add: unat_word_ariths bytes_no_wrap)
  have w: "\<not> sector * 512 + n * 512 > dev_size dev"
    using assms u(3) by (simp add: word_less_nat_alt sound_dev_def fits_def)
  show thesis
    by (rule that [of "W (sector * 512) b (dev_store dev)"])
      (use assms u w in \<open>simp_all add: xxx_transfer_def Let_def fits_def W_content R_content
        del: word_not_simps\<close>)
qed

lemma transfer_read:
  assumes "sound_dev content dev" and "fits content dev sector (length b)"
    and "length b = 512 * unat n"
  shows "xxx_transfer R W dev sector n b False =
    Inr (dev, slice (512 * unat sector) (length b) (content (dev_store dev)))"
  by (rule transfer_inside [OF assms])

lemma transfer_write:
  assumes "sound_dev content dev" and "fits content dev sector (length b)"
    and "length b = 512 * unat n"
  shows "\<exists>d. xxx_transfer R W dev sector n b True = Inr (dev\<lparr>dev_store := d\<rparr>, b) \<and>
    content d = overwrite (content (dev_store dev)) (512 * unat sector) b"
  by (rule transfer_inside [OF assms]) blast

end

section \<open>Bios\<close>

definition even_segments :: "nat \<Rightarrow> u8 list list \<Rightarrow> bool" where
  "even_segments k vs \<longleftrightarrow> (\<forall>v \<in> set vs. length v = 512 * k)"

lemma length_concat_even: "even_segments k vs \<Longrightarrow> length (concat vs) = 512 * k * length vs"
  by (induction vs) (simp_all add: even_segments_def)

context byte_device
begin

lemma segments_write:
  assumes "sound_dev content dev" and "even_segments (unat cur) vs"
    and "fits content dev sector (length (concat vs))"
  shows "\<exists>d. xfer_segments R W cur True dev sector vs = Inr (dev\<lparr>dev_store := d\<rparr>, vs) \<and>
    content d = overwrite (content (dev_store dev)) (512 * unat sector) (concat vs)"
  using assms
proof (induction vs arbitrary: dev sector)
  case Nil
  show ?case by (rule exI [of _ "dev_store dev"]) simp
next
  case (Cons v vs)
  have v: "length v = 512 * unat cur" using Cons.prems by (simp add: even_segments_def)
  have "fits content dev sector (length v)" using Cons.prems by (simp add: fits_def)
  from transfer_write [OF Cons.prems(1) this v] obtain d where
    d: "xxx_transfer R W dev sector cur v True = Inr (dev\<lparr>dev_store := d\<rparr>, v)"
      "content d = overwrite (content (dev_store dev)) (512 * unat sector) v"
    by blast
  have len: "length (content d) = length (content (dev_store dev))"
    using d(2) \<open>fits content dev sector (length v)\<close> by (simp add: fits_def)
  have "512 * (unat sector + unat cur) < 2 ^ 32"
    using Cons.prems unat_u32_less [of "dev_size dev"] v by (simp add: sound_dev_def fits_def)
  then have u: "vs \<noteq> [] \<Longrightarrow> unat (sector + cur) = unat sector + unat cur"
    by (simp add: unat_word_ariths)
  show ?case
  proof (cases "vs = []")
    case True
    with d show ?thesis by auto
  next
    case False
    from Cons.IH [of "dev\<lparr>dev_store := d\<rparr>" "sector + cur"] Cons.prems len v u [OF False]
    obtain e where "xfer_segments R W cur True (dev\<lparr>dev_store := d\<rparr>) (sector + cur) vs =
        Inr (dev\<lparr>dev_store := e\<rparr>, vs)"
      "content e = overwrite (content d) (512 * (unat sector + unat cur)) (concat vs)"
      by (auto simp: sound_dev_def fits_def even_segments_def algebra_simps)
    moreover have "overwrite (content d) (512 * (unat sector + unat cur)) (concat vs) =
        overwrite (content (dev_store dev)) (512 * unat sector) (concat (v # vs))"
      using Cons.prems(3) d(2) v
        overwrite_overwrite [of "512 * unat sector" v "concat vs" "content (dev_store dev)"]
      by (simp add: fits_def algebra_simps)
    ultimately show ?thesis using d(1) by auto
  qed
qed

lemma segments_read:
  assumes "sound_dev content dev" and "even_segments (unat cur) vs"
    and "fits content dev sector (length (concat vs))"
  shows "\<exists>vs'. xfer_segments R W cur False dev sector vs = Inr (dev, vs') \<and> length vs' = length vs \<and>
    concat vs' = slice (512 * unat sector) (length (concat vs)) (content (dev_store dev))"
  using assms
proof (induction vs arbitrary: sector)
  case Nil
  show ?case by (simp add: slice_def)
next
  case (Cons v vs)
  let ?C = "content (dev_store dev)"
  have v: "length v = 512 * unat cur" using Cons.prems by (simp add: even_segments_def)
  have "fits content dev sector (length v)" using Cons.prems by (simp add: fits_def)
  note r = transfer_read [OF Cons.prems(1) this v]
  show ?case
  proof (cases "vs = []")
    case True
    with r show ?thesis by simp
  next
    case False
    have "512 * (unat sector + unat cur) < 2 ^ 32"
      using Cons.prems unat_u32_less [of "dev_size dev"] v by (simp add: sound_dev_def fits_def)
    then have u: "unat (sector + cur) = unat sector + unat cur"
      by (simp add: unat_word_ariths)
    with Cons.IH [of "sector + cur"] Cons.prems v
    obtain ws where "xfer_segments R W cur False dev (sector + cur) vs = Inr (dev, ws)"
      "length ws = length vs" "concat ws = slice (512 * (unat sector + unat cur)) (length (concat vs)) ?C"
      by (auto simp: fits_def even_segments_def algebra_simps)
    with r v slice_append [of "512 * unat sector" "length v" ?C "length (concat vs)"] show ?thesis
      by (simp add: algebra_simps)
  qed
qed

lemma make_request:
  assumes "sound_dev content dev" and "even_segments k (drop (bi_idx b) (bi_vecs b))"
    and "fits content dev (bi_sector b) (bi_size b)"
  shows "\<exists>dev' b'. xxx_make_request R W dev b = Inr (dev', (b', bi_size b, 0), 0) \<and>
    (if bi_write b
     then b' = b \<and> dev_size dev' = dev_size dev \<and> content (dev_store dev') =
       overwrite (content (dev_store dev)) (512 * unat (bi_sector b)) (concat (drop (bi_idx b) (bi_vecs b)))
     else dev' = dev \<and> concat (drop (bi_idx b) (bi_vecs b')) =
       slice (512 * unat (bi_sector b)) (bi_size b) (content (dev_store dev)))"
proof (cases "drop (bi_idx b) (bi_vecs b)")
  case Nil
  moreover from Nil have "take (bi_idx b) (bi_vecs b) = bi_vecs b" by simp
  ultimately show ?thesis
    by (simp add: xxx_make_request_def xxx_xfer_bio_def bi_size_def slice_def del: drop_eq_Nil)
next
  case (Cons v vs)
  let ?vs = "drop (bi_idx b) (bi_vecs b)"
  have size: "bi_size b = length (concat ?vs)" by (simp add: bi_size_def length_concat)
  have idx: "bi_idx b < length (bi_vecs b)" using Cons by (metis drop_eq_Nil list.distinct(1) not_less)
  then have "bi_vecs b ! bi_idx b = v" using Cons by (metis nth_via_drop)
  moreover have v: "length v = 512 * k" using assms(2) Cons by (simp add: even_segments_def)
  moreover have "k < 2 ^ 32"
    using assms unat_u32_less [of "dev_size dev"] v Cons by (simp add: sound_dev_def fits_def size)
  ultimately have cur: "unat (bio_cur_sectors b) = k"
    using idx by (simp add: bio_cur_sectors_def unat_of_nat)
  have even: "even_segments (unat (bio_cur_sectors b)) ?vs" using assms(2) by (simp only: cur)
  have fits: "fits content dev (bi_sector b) (length (concat ?vs))" using assms(3) by (simp only: size)
  have same: "b\<lparr>bi_vecs := take (bi_idx b) (bi_vecs b) @ ?vs\<rparr> = b" by simp
  show ?thesis
  proof (cases "bi_write b")
    case True
    with segments_write [OF assms(1) even fits] same show ?thesis
      by (auto simp: xxx_make_request_def xxx_xfer_bio_def)
  next
    case False
    with segments_read [OF assms(1) even fits] size idx show ?thesis
      by (auto simp: xxx_make_request_def xxx_xfer_bio_def)
  qed
qed

end


definition sample_dev :: "u8 list xxx_dev" where
  "sample_dev = \<lparr>dev_size = 2048, dev_store = replicate 2048 0\<rparr>"

definition sample_bio :: "u8 list list \<Rightarrow> bio" where
  "sample_bio vs = \<lparr>bi_sector = 1, bi_idx = 0, bi_vecs = vs, bi_write = True\<rparr>"


text \<open>
  With segments of different sizes the size of the current one is used for all of them: of a second
  segment of two sectors only the first is written, and the bio is ended with its full size.
\<close>

lemma uneven_bio:
  "xxx_make_request ram_read ram_write sample_dev (sample_bio [replicate 512 1, replicate 1024 2]) =
    Inr (sample_dev\<lparr>dev_store := overwrite (replicate 2048 0) 512 (replicate 512 1 @ replicate 512 2)\<rparr>,
      (sample_bio [replicate 512 1, replicate 1024 2], 1536, 0), 0)"
  by (simp add: xxx_make_request_def xxx_xfer_bio_def sample_bio_def sample_dev_def bio_cur_sectors_def
      bi_size_def xxx_transfer_def ram_write_def overwrite_def)

section \<open>The request loops\<close>

text \<open>The documented answers of \<open>end_that_request_first\<close>: the rest of the request, or nothing left.\<close>

locale request_end =
  fixes K :: end_first
  assumes last_segment: "length (br_segs r) \<le> 1 \<Longrightarrow> K r up (cur_nr r) = None"
    and next_segment: "br_segs r = b # c # bs \<Longrightarrow> K r up (cur_nr r) =
      Some (r\<lparr>br_sector := br_sector r + of_nat (cur_nr r), br_segs := c # bs\<rparr>)"

definition advance :: end_first where
  "advance r up n = (if length (br_segs r) \<le> 1 then None
     else Some (r\<lparr>br_sector := br_sector r + of_nat n, br_segs := tl (br_segs r)\<rparr>))"

interpretation segments: request_end advance
  by unfold_locales (simp_all add: advance_def)

definition well_formed :: "nat \<Rightarrow> blk_request \<Rightarrow> bool" where
  "well_formed len r \<longleftrightarrow> br_segs r \<noteq> [] \<and> (\<forall>b \<in> set (br_segs r). 512 dvd length b) \<and>
     512 * unat (br_sector r) + length (concat (br_segs r)) \<le> len"

definition queue_size :: "blk_request list \<Rightarrow> nat" where
  "queue_size q = sum_list (map (\<lambda>r. length (br_segs r)) q)"

text \<open>What a request means for the bytes of the device: it is one write of all its segments.\<close>

definition written :: "u8 list \<Rightarrow> blk_request \<Rightarrow> u8 list" where
  "written D r = (if br_fs r \<and> br_write r
     then overwrite D (512 * unat (br_sector r)) (concat (br_segs r)) else D)"

lemma well_formed_segment:
  assumes "well_formed len r" and "br_segs r = b # bs" and "len < 2 ^ 32"
  shows "length b = 512 * unat (of_nat (cur_nr r) :: u32)"
proof -
  have "length b < 2 ^ 32" and "512 dvd length b" using assms by (auto simp: well_formed_def)
  then show ?thesis using assms(2) by (auto simp: cur_nr_def unat_of_nat)
qed

lemma well_formed_next:
  assumes "well_formed len r" and "br_segs r = b # c # bs" and "len < 2 ^ 32"
    and "length b' = length b"
  shows "well_formed len (r\<lparr>br_sector := br_sector r + of_nat (cur_nr r), br_segs := c # bs\<rparr>)"
    and "unat (br_sector r + of_nat (cur_nr r)) = unat (br_sector r) + length b div 512"
proof -
  have "512 * (unat (br_sector r) + length b div 512) \<le> len" and "512 dvd length b"
    using assms by (auto simp: well_formed_def algebra_simps)
  then show *: "unat (br_sector r + of_nat (cur_nr r)) = unat (br_sector r) + length b div 512"
    using assms(2,3) by (simp add: cur_nr_def unat_word_ariths unat_of_nat)
  show "well_formed len (r\<lparr>br_sector := br_sector r + of_nat (cur_nr r), br_segs := c # bs\<rparr>)"
    using assms \<open>512 dvd length b\<close> by (simp add: well_formed_def *)
qed

lemma written_next:
  assumes "well_formed (length D) r" and "br_segs r = b # c # bs" and "length D < 2 ^ 32"
    and "br_fs r" and "br_write r"
  shows "written (overwrite D (512 * unat (br_sector r)) b)
      (r\<lparr>br_sector := br_sector r + of_nat (cur_nr r), br_segs := c # bs\<rparr>) = written D r"
  using assms overwrite_overwrite [of "512 * unat (br_sector r)" b "concat (c # bs)" D]
    well_formed_next(2) [OF assms(1-3) refl]
  by (auto simp: written_def well_formed_def algebra_simps)

lemma length_written [simp]: "well_formed (length D) r \<Longrightarrow> length (written D r) = length D"
  by (simp add: written_def well_formed_def)

locale request_queue = byte_device R W content + request_end K
  for R :: "'d reader" and W :: "'d writer" and content :: "'d \<Rightarrow> u8 list" and K :: end_first
begin

lemma segment_served:
  assumes "sound_dev content dev" and "well_formed (length (content (dev_store dev))) r"
    and "br_segs r = b # bs"
  obtains d b' where "xxx_transfer R W dev (br_sector r) (of_nat (cur_nr r)) b (br_write r) =
      Inr (dev\<lparr>dev_store := d\<rparr>, b')" and "length b' = length b" and "br_write r \<Longrightarrow> b' = b"
    and "content d = (if br_write r then overwrite (content (dev_store dev)) (512 * unat (br_sector r)) b
      else content (dev_store dev))"
proof -
  have "length (content (dev_store dev)) < 2 ^ 32"
    using assms(1) unat_u32_less [of "dev_size dev"] by (simp add: sound_dev_def)
  note len = well_formed_segment [OF assms(2,3) this]
  have fits: "fits content dev (br_sector r) (length b)"
    using assms(2,3) by (simp add: well_formed_def fits_def)
  from transfer_write [OF assms(1) fits len] obtain d where
    d: "xxx_transfer R W dev (br_sector r) (of_nat (cur_nr r)) b True = Inr (dev\<lparr>dev_store := d\<rparr>, b)"
      "content d = overwrite (content (dev_store dev)) (512 * unat (br_sector r)) b"
    by blast
  show thesis
  proof (cases "br_write r")
    case True
    with d show thesis by (intro that [of d b]) simp_all
  next
    case False
    with transfer_read [OF assms(1) fits len] fits show thesis
      by (intro that [of "dev_store dev" "slice (512 * unat (br_sector r)) (length b) (content (dev_store dev))"])
        (simp_all add: fits_def)
  qed
qed

text \<open>One round of the loop: the first segment of the first request is served.\<close>

lemma round_served:
  assumes "sound_dev content dev" and "well_formed (length (content (dev_store dev))) r"
    and "br_segs r = b # bs"
  shows "\<exists>dev1 c. sound_dev content dev1 \<and> content (dev_store dev1) =
      (if br_fs r \<and> br_write r then overwrite (content (dev_store dev)) (512 * unat (br_sector r)) b
       else content (dev_store dev)) \<and>
    length (content (dev_store dev1)) = length (content (dev_store dev)) \<and> length c = length b \<and>
    (\<forall>k rest. xxx_request K R W (Suc k) dev (r # rest) =
      (case end_request K (r\<lparr>br_segs := c # bs\<rparr>) (br_fs r) rest of (queue', e) \<Rightarrow>
        map_option (map_sum id (apsnd ((@) e))) (xxx_request K R W k dev1 queue')))"
proof (cases "br_fs r")
  case True
  from segment_served [OF assms] obtain d c where
    d: "xxx_transfer R W dev (br_sector r) (of_nat (cur_nr r)) b (br_write r) = Inr (dev\<lparr>dev_store := d\<rparr>, c)"
    "length c = length b" "content d =
      (if br_write r then overwrite (content (dev_store dev)) (512 * unat (br_sector r)) b
       else content (dev_store dev))"
    by metis
  moreover from d(3) assms(2,3) have "length (content d) = length (content (dev_store dev))"
    by (simp add: well_formed_def)
  ultimately show ?thesis
    using True assms by (intro exI [of _ "dev\<lparr>dev_store := d\<rparr>"] exI [of _ c])
      (auto simp: sound_dev_def cur_buffer_def)
next
  case False
  then have "r\<lparr>br_segs := b # bs\<rparr> = r" using assms(3) by (cases r) simp
  with False assms(1) show ?thesis by (intro exI [of _ dev] exI [of _ b]) simp
qed

lemma queue_served:
  assumes "sound_dev content dev" and "\<forall>r \<in> set q. well_formed (length (content (dev_store dev))) r"
    and "queue_size q \<le> fuel"
  shows "\<exists>dev' e. xxx_request K R W fuel dev q = Some (Inr (dev', e)) \<and> map snd e = map br_fs q \<and>
    content (dev_store dev') = foldl written (content (dev_store dev)) q"
  using assms
proof (induction fuel arbitrary: dev q)
  case 0
  then have "q = []" by (cases q) (auto simp: queue_size_def well_formed_def)
  then show ?case by simp
next
  case (Suc k)
  show ?case
  proof (cases q)
    case (Cons r rest)
    let ?C = "content (dev_store dev)"
    have wf: "well_formed (length ?C) r" using Suc.prems(2) Cons by simp
    have small: "length ?C < 2 ^ 32"
      using Suc.prems(1) unat_u32_less [of "dev_size dev"] by (simp add: sound_dev_def)
    obtain b bs where segs: "br_segs r = b # bs"
      using wf by (cases "br_segs r") (auto simp: well_formed_def)
    from round_served [OF Suc.prems(1) wf segs] obtain dev1 c where dev1: "sound_dev content dev1"
      "content (dev_store dev1) = (if br_fs r \<and> br_write r then overwrite ?C (512 * unat (br_sector r)) b else ?C)"
      "length (content (dev_store dev1)) = length ?C" and c: "length c = length b"
      and run: "xxx_request K R W (Suc k) dev q =
        (case end_request K (r\<lparr>br_segs := c # bs\<rparr>) (br_fs r) rest of (queue', e) \<Rightarrow>
          map_option (map_sum id (apsnd ((@) e))) (xxx_request K R W k dev1 queue'))"
      unfolding Cons by blast
    let ?r1 = "r\<lparr>br_segs := c # bs\<rparr>"
    have cur: "cur_nr ?r1 = cur_nr r" by (simp add: cur_nr_def segs c)
    show ?thesis
    proof (cases bs)
      case Nil
      then have e: "end_request K ?r1 (br_fs r) rest = (rest, [(?r1, br_fs r)])"
        using last_segment [of ?r1] by (simp add: end_request_def)
      have "content (dev_store dev1) = written ?C r" using dev1(2) segs Nil by (simp add: written_def)
      with Suc.IH [OF dev1(1), of rest] Suc.prems Cons segs dev1(3) show ?thesis
        unfolding run e by (fastforce simp: queue_size_def)
    next
      case bs: (Cons d ds)
      let ?r = "r\<lparr>br_sector := br_sector r + of_nat (cur_nr r), br_segs := d # ds\<rparr>"
      have e: "end_request K ?r1 (br_fs r) rest = (?r # rest, [])"
        using next_segment [of ?r1 c d ds] cur bs by (simp add: end_request_def)
      have "well_formed (length ?C) ?r" using well_formed_next(1) [OF wf _ small refl] segs bs by simp
      moreover have "written (content (dev_store dev1)) ?r = written ?C r"
        using written_next [OF wf _ small] segs bs dev1(2) by (auto simp: written_def)
      ultimately show ?thesis
        using Suc.IH [OF dev1(1), of "?r # rest"] Suc.prems Cons bs segs dev1(3)
        unfolding run e by (fastforce simp: queue_size_def)
    qed
  qed simp
qed

end

interpretation ram_queue: request_queue ram_read ram_write "\<lambda>d. d" advance ..


definition sample_queue :: "blk_request list" where
  "sample_queue =
    [\<lparr>br_sector = 1, br_write = True, br_fs = True, br_segs = [replicate 512 1, replicate 512 2]\<rparr>,
     \<lparr>br_sector = 0, br_write = True, br_fs = False, br_segs = [replicate 512 3]\<rparr>,
     \<lparr>br_sector = 2, br_write = True, br_fs = True, br_segs = [replicate 512 4]\<rparr>]"


text \<open>
  A request beyond the end of the device is not carried out, and is ended with success all the same;
  one whose offset wraps around is carried out at the start of the device.
\<close>

lemma beyond_end_succeeds:
  "xxx_request advance ram_read ram_write 1 sample_dev
     [\<lparr>br_sector = 4, br_write = True, br_fs = True, br_segs = [replicate 512 1]\<rparr>] =
   Some (Inr (sample_dev, [(\<lparr>br_sector = 4, br_write = True, br_fs = True, br_segs = [replicate 512 1]\<rparr>, True)]))"
  by (simp add: end_request_def cur_nr_def cur_buffer_def advance_def sample_dev_def xxx_transfer_def)

text \<open>Requests made of bios.\<close>

definition full_sectors :: "full_request \<Rightarrow> nat" where
  "full_sectors r = sum_list (map (\<lambda>b. bi_size b div 512) (fr_bios r))"

locale full_end =
  fixes K :: end_full
  assumes completed: "full_sectors r \<le> n \<Longrightarrow> K r up n = None"

interpretation whole: full_end "\<lambda>r up n. if full_sectors r \<le> n then None else Some r"
  by unfold_locales simp

lemma xfer_request_append:
  "xxx_xfer_request R W dev (xs @ ys) = (case xxx_xfer_request R W dev xs of
     Inl f \<Rightarrow> Inl f
   | Inr (d, bs, n) \<Rightarrow> map_sum id (\<lambda>(d', bs', m). (d', bs @ bs', n + m)) (xxx_xfer_request R W d ys))"
proof (induction xs arbitrary: dev)
  case Nil
  show ?case by (cases "xxx_xfer_request R W dev ys") auto
next
  case (Cons x xs)
  then show ?case
    by (auto split: sum.split simp: sum.map_comp comp_def map_sum_def[abs_def])
qed

lemma xfer_request_count:
  "xxx_xfer_request R W dev bs = Inr (d, bs', n) \<Longrightarrow> n = sum_list (map (\<lambda>b. bi_size b div 512) bs)"
  by (induction bs arbitrary: dev d bs' n) (auto split: sum.splits prod.splits simp: map_sum_def)

text \<open>The device, or the fault, that a run ends with.\<close>

abbreviation device :: "fault + 'd \<times> 'e \<Rightarrow> fault + 'd" where
  "device x \<equiv> map_sum id fst x"

lemma device_apsnd [simp]: "map_sum h fst (map_sum id (apsnd f) x) = map_sum h fst x"
  by (cases x) auto

lemma full_request_serves:
  assumes "full_end K" and "\<forall>r \<in> set q. fr_fs r" and "length q \<le> fuel"
  shows "map_option device (xxx_full_request K R W fuel dev q) =
    Some (device (xxx_xfer_request R W dev (concat (map fr_bios q))))"
  using assms(2,3)
proof (induction fuel arbitrary: dev q)
  case (Suc k)
  show ?case
  proof (cases q)
    case (Cons r rest)
    show ?thesis
    proof (cases "xxx_xfer_request R W dev (fr_bios r)")
      case (Inr x)
      obtain d bs n where x: "x = (d, bs, n)" by (cases x)
      have "K r True n = None"
        by (rule full_end.completed [OF assms(1)])
          (use xfer_request_count [OF Inr [unfolded x]] in \<open>simp add: full_sectors_def\<close>)
      with Suc.IH [of rest d] Suc.prems Cons Inr x show ?thesis
        by (cases "xxx_full_request K R W k d rest"; cases "xxx_xfer_request R W d (concat (map fr_bios rest))")
          (auto simp: xfer_request_append)
    qed (use Suc.prems Cons in \<open>simp add: xfer_request_append\<close>)
  qed simp
qed simp

section \<open>The example as a disk\<close>

text \<open>Reading and writing sectors through \<open>xxx_transfer\<close>.\<close>

definition xfer_rd :: "'d reader \<Rightarrow> 'd writer \<Rightarrow> nat \<Rightarrow> nat \<Rightarrow> 'd xxx_dev \<Rightarrow> u8 list" where
  "xfer_rd R W i n dev =
     (case xxx_transfer R W dev (of_nat i) (of_nat n) (replicate (512 * n) 0) False of
        Inl f \<Rightarrow> [] | Inr (dev', b) \<Rightarrow> b)"

definition xfer_wr :: "'d reader \<Rightarrow> 'd writer \<Rightarrow> nat \<Rightarrow> u8 list \<Rightarrow> 'd xxx_dev \<Rightarrow> 'd xxx_dev" where
  "xfer_wr R W i d dev =
     (case xxx_transfer R W dev (of_nat i) (of_nat (length d div 512)) d True of
        Inl f \<Rightarrow> dev | Inr (dev', b) \<Rightarrow> dev')"

definition disk_of :: "('d \<Rightarrow> u8 list) \<Rightarrow> nat \<Rightarrow> 'd xxx_dev \<Rightarrow> bool" where
  "disk_of content cap dev \<longleftrightarrow> sound_dev content dev \<and> length (content (dev_store dev)) = 512 * cap"

context byte_device
begin

lemma sector_bounds:
  assumes "disk_of content cap dev" and "i \<le> cap"
  shows "unat (of_nat i :: u32) = i"
proof -
  have "512 * cap < 2 ^ 32"
    using assms unat_u32_less [of "dev_size dev"] by (simp add: disk_of_def sound_dev_def)
  with assms(2) show ?thesis by (simp add: unat_of_nat)
qed

lemma xfer_rd_slice:
  assumes "disk_of content cap dev" and "i + n \<le> cap"
  shows "xfer_rd R W i n dev = slice (512 * i) (512 * n) (content (dev_store dev))"
proof -
  let ?b = "replicate (512 * n) (0 :: u8)"
  have u: "unat (of_nat i :: u32) = i" "unat (of_nat n :: u32) = n"
    using sector_bounds [OF assms(1)] assms(2) by simp_all
  have "sound_dev content dev" and "fits content dev (of_nat i) (length ?b)"
    using assms by (simp_all add: fits_def disk_of_def u)
  moreover have "length ?b = 512 * unat (of_nat n :: u32)" by (simp only: u length_replicate)
  ultimately have "xxx_transfer R W dev (of_nat i) (of_nat n) ?b False =
      Inr (dev, slice (512 * unat (of_nat i :: u32)) (length ?b) (content (dev_store dev)))"
    by (rule transfer_read)
  then show ?thesis by (simp only: xfer_rd_def u length_replicate sum.case prod.case)
qed

lemma xfer_wr_overwrite:
  assumes "disk_of content cap dev" and "in_capacity cap (i, d)"
  shows "disk_of content cap (xfer_wr R W i d dev) \<and>
    content (dev_store (xfer_wr R W i d dev)) = overwrite (content (dev_store dev)) (512 * i) d"
proof -
  have u: "unat (of_nat i :: u32) = i" "length d = 512 * unat (of_nat (length d div 512) :: u32)"
    using sector_bounds [OF assms(1)] assms(2) by (auto simp: in_capacity_def)
  have fits: "fits content dev (of_nat i) (length d)"
    using assms by (auto simp: fits_def disk_of_def u(1) in_capacity_def)
  have "sound_dev content dev" using assms(1) by (simp add: disk_of_def)
  from transfer_write [OF this fits u(2)] obtain e where
    e: "xxx_transfer R W dev (of_nat i) (of_nat (length d div 512)) d True = Inr (dev\<lparr>dev_store := e\<rparr>, d)"
    and c: "content e = overwrite (content (dev_store dev)) (512 * i) d"
    unfolding u(1) by blast
  have "xfer_wr R W i d dev = dev\<lparr>dev_store := e\<rparr>" by (simp only: xfer_wr_def e sum.case prod.case)
  then show ?thesis
    using assms(1) fits c by (simp add: disk_of_def sound_dev_def fits_def u(1))
qed

end

locale sized_device = byte_device R W content
  for R :: "'d reader" and W :: "'d writer" and content :: "'d \<Rightarrow> u8 list" +
  fixes cap :: nat
begin

lemma sectors_of_transfer:
  assumes "disk_of content cap dev" and "in_capacity cap (i, d)" and "j < cap"
  shows "xfer_rd R W j 1 (xfer_wr R W i d dev) = sector_update i d (\<lambda>j. xfer_rd R W j 1 dev) j"
proof -
  let ?C = "content (dev_store dev)"
  note w = xfer_wr_overwrite [OF assms(1,2)]
  have rd: "xfer_rd R W j 1 dev' = slice (512 * j) 512 (content (dev_store dev'))"
    if "disk_of content cap dev'" for dev'
    using xfer_rd_slice [OF that, of j 1] assms(3) by simp
  have "512 * i + length d \<le> length ?C" "512 dvd length d" "512 * (j + 1) \<le> length ?C"
    using assms by (auto simp: in_capacity_def disk_of_def)
  then have "slice (512 * j) 512 (overwrite ?C (512 * i) d) =
      sector_update i d (\<lambda>j. slice (512 * j) 512 ?C) j"
    by (rule slice_sector_update)
  also have "\<dots> = sector_update i d (\<lambda>j. xfer_rd R W j 1 dev) j"
    unfolding sector_update_def rd [OF assms(1)] ..
  finally show ?thesis using w by (simp only: rd)
qed

end

sublocale sized_device \<subseteq> disk: block_store "xfer_rd R W" "xfer_wr R W" "disk_of content cap" cap
proof
  show "disk_of content cap (xfer_wr R W i d s)"
    if "disk_of content cap s" "in_capacity cap (i, d)" for s i d
    using xfer_wr_overwrite [OF that] ..
  show "xfer_rd R W j 1 (xfer_wr R W i d s) = sector_update i d (\<lambda>j. xfer_rd R W j 1 s) j"
    if "disk_of content cap s" "in_capacity cap (i, d)" "j < cap" for s i d j
    by (rule sectors_of_transfer [OF that])
  show "xfer_rd R W i n s = concat (map (\<lambda>j. xfer_rd R W j 1 s) [i..<i + n])"
    if a: "disk_of content cap s" "i + n \<le> cap" for s i n
  proof -
    have "map (\<lambda>j. xfer_rd R W j 1 s) [i..<i + n] =
        map (\<lambda>j. slice (512 * j) 512 (content (dev_store s))) [i..<i + n]"
      using xfer_rd_slice [OF a(1), where n = 1] a(2) by (intro map_cong) auto
    moreover have "512 * (i + n) \<le> length (content (dev_store s))"
      using a by (simp add: disk_of_def)
    ultimately show ?thesis using xfer_rd_slice [OF a] by (simp only: slice_sectors)
  qed
qed

context sized_device
begin

lemma history:
  "disk_of content cap dev \<Longrightarrow> \<forall>w \<in> set ws. in_capacity cap w \<Longrightarrow> i + n \<le> cap \<Longrightarrow>
   xfer_rd R W i n (fold (\<lambda>(i, d). xfer_wr R W i d) ws dev) =
     concat (map (latest ws (\<lambda>j. xfer_rd R W j 1 dev)) [i..<i + n])"
  by (rule disk.read_back)

lemma is_disk: "block_store (xfer_rd R W) (xfer_wr R W) (disk_of content cap) cap"
  by (rule disk.block_store_axioms)

end

interpretation ram_disk: sized_device ram_read ram_write "\<lambda>d. d" 4
  ..

text \<open>
  over any device of bytes whose size is a whole number of sectors, \<open>xxx_transfer\<close> makes a
  disk: a read of a range of sectors returns for each the bytes written to it last.
\<close>

theorem xxx_transfer_history:
  assumes "byte_device R W content" and "disk_of content cap dev"
    and "\<forall>w \<in> set ws. in_capacity cap w" and "i + n \<le> cap"
  shows "xfer_rd R W i n (fold (\<lambda>(i, d). xfer_wr R W i d) ws dev) =
    concat (map (latest ws (\<lambda>j. xfer_rd R W j 1 dev)) [i..<i + n])"
  by (rule sized_device.history [OF sized_device.intro [OF assms(1)] assms(2-4)])

theorem xxx_transfer_history_witness:
  "xfer_rd ram_read ram_write 1 2 (fold (\<lambda>(i, d). xfer_wr ram_read ram_write i d)
     [(1, replicate 1024 7), (2, replicate 512 9)] sample_dev) = replicate 512 7 @ replicate 512 9"
proof -
  have "[1..<1 + 2] = [1, 2 :: nat]" by (simp add: upt_rec)
  then show ?thesis
    by (subst xxx_transfer_history [where content = "\<lambda>d. d" and cap = 4])
      (simp_all add: ram.byte_device_axioms sample_dev_def disk_of_def sound_dev_def in_capacity_def
        sector_update_def)
qed

section \<open>Geometry\<close>

definition HDIO_GETGEO :: u32 where
  "HDIO_GETGEO = 0x301"

text \<open>
  \<open>size\<close> is the device's size times the number of kernel sectors per hardware sector; \<open>cylinders\<close> keeps
  16 bits of it. \<open>copy_fails\<close> is what \<open>copy_to_user\<close> answers.
\<close>

definition xxx_ioctl ::
  "u32 \<Rightarrow> bool \<Rightarrow> 'd xxx_dev \<Rightarrow> hd_geometry \<Rightarrow> u32 \<Rightarrow> c_int \<times> hd_geometry option" where
  "xxx_ioctl hardsect_size copy_fails dev geo cmd =
     (if cmd = HDIO_GETGEO
      then let size = dev_size dev * (hardsect_size div 512);
               geo' = geo\<lparr>geo_cylinders := ucast (drop_bit 6 (size AND NOT 0x3f)), geo_heads := 4,
                 geo_sectors := 16, geo_start := 4\<rparr>
           in if copy_fails then (Inl EFAULT, None) else (Inr 0, Some geo')
      else (Inl ENOTTY, None))"

lemma drop_low_bits: "drop_bit 6 (w AND NOT 0x3f) = drop_bit 6 (w :: u32)"
proof -
  have m: "(0x3f :: u32) = mask 6" by (simp add: mask_eq_exp_minus_1)
  show ?thesis
    unfolding m by (rule bit_word_eqI) (auto simp: bit_drop_bit_eq bit_and_iff bit_not_iff bit_mask_iff dest: bit_imp_le_length)
qed

text \<open>The geometry covers whole cylinders of 64 sectors, at most those of the device.\<close>

lemma ioctl_geometry:
  assumes "xxx_ioctl h False dev geo HDIO_GETGEO = (Inr 0, Some g)"
    and "dev_size dev * (h div 512) < 2 ^ 22"
  shows "unat (geo_cylinders g) * unat (geo_heads g) * unat (geo_sectors g) =
    64 * (unat (dev_size dev * (h div 512)) div 64)"
proof -
  let ?n = "dev_size dev * (h div 512)"
  have "unat ?n < 2 ^ 22" using assms(2) by (simp add: word_less_nat_alt)
  moreover have *: "unat (drop_bit 6 ?n) = unat ?n div 64"
    by (simp add: drop_bit_eq_div unat_div_distrib)
  ultimately have "unat (ucast (drop_bit 6 ?n) :: u16) = unat ?n div 64"
    by (simp add: unsigned_ucast_eq take_bit_nat_eq_self *)
  with assms(1) show ?thesis unfolding xxx_ioctl_def Let_def drop_low_bits by auto
qed

section \<open>Loading and unloading\<close>

record xxx_state = kstate +
  xxx_disks :: ptr
  xxx_queue :: ptr
  xxx_bdev :: ptr

definition xxx_initial :: xxx_state where
  "xxx_initial = \<lparr>ktrace = [], kmem = (\<lambda>_. 0), kfault = None,
     xxx_disks = NULL, xxx_queue = NULL, xxx_bdev = NULL\<rparr>"

text \<open>
  \<open>M\<close> is \<open>XXX_MAJOR\<close>, which the file does not define. The labels \<open>out\<close> and \<open>out_queue\<close>. The value of
  \<open>err\<close> is never returned.
\<close>

definition xxx_out :: "(xxx_state, c_int) state" where
  "xxx_out = do {
     s \<leftarrow> State_Monad.get;
     call (KBlk (PutDisk (xxx_disks s)));
     call (KBlk (BlkCleanupQueue (xxx_queue s)));
     State_Monad.return (Inl ENOMEM) }"

definition xxx_out_queue :: "int \<Rightarrow> (xxx_state, c_int) state" where
  "xxx_out_queue M = do { call (KBlk (UnregisterBlkdev M)); xxx_out }"

text \<open>The first \<open>xxx_init\<close>, with \<open>blk_alloc_queue\<close> and \<open>blk_queue_make_request\<close>.\<close>

definition xxx_init_bio :: "int \<Rightarrow> kenv \<Rightarrow> (xxx_state, c_int) state" where
  "xxx_init_bio M E = do {
     d \<leftarrow> ask (e_alloc_disk E 0) (KBlk (AllocDisk (e_alloc_disk E 0)));
     upd (\<lambda>s. s\<lparr>xxx_disks := d\<rparr>);
     (if d = NULL then xxx_out
      else do {
        r \<leftarrow> ask (e_register_blkdev E M)
          (KBlk (RegisterBlkdev M (e_register_blkdev E M)));
        (if r \<noteq> 0 then xxx_out
         else do {
           q \<leftarrow> ask (e_blk_queue E 0) (KBlk (BlkQueue (e_blk_queue E 0)));
           upd (\<lambda>s. s\<lparr>xxx_queue := q\<rparr>);
           (if q = NULL then xxx_out_queue M
            else do {
              call (KBlk (AddDisk d));
              State_Monad.return (Inr 0) }) }) }) }"

text \<open>
  The second \<open>xxx_init\<close>, with \<open>blk_init_queue\<close> and \<open>xxx_request\<close>: the calls that count for the
  resources are the same.
\<close>

definition xxx_init_request :: "int \<Rightarrow> kenv \<Rightarrow> (xxx_state, c_int) state" where
  "xxx_init_request M E = do {
     d \<leftarrow> ask (e_alloc_disk E 0) (KBlk (AllocDisk (e_alloc_disk E 0)));
     upd (\<lambda>s. s\<lparr>xxx_disks := d\<rparr>);
     (if d = NULL then xxx_out
      else do {
        r \<leftarrow> ask (e_register_blkdev E M)
          (KBlk (RegisterBlkdev M (e_register_blkdev E M)));
        (if r \<noteq> 0 then xxx_out
         else do {
           q \<leftarrow> ask (e_blk_queue E 1) (KBlk (BlkQueue (e_blk_queue E 1)));
           upd (\<lambda>s. s\<lparr>xxx_queue := q\<rparr>);
           (if q = NULL then xxx_out_queue M
            else do {
              call (KBlk (AddDisk d));
              State_Monad.return (Inr 0) }) }) }) }"

definition xxx_exit :: "int \<Rightarrow> (xxx_state, unit) state" where
  "xxx_exit M = do {
     s \<leftarrow> State_Monad.get;
     (if xxx_bdev s \<noteq> NULL then do {
        call (KBlk (InvalidateBdev (xxx_bdev s)));
        call (KBlk (BlkdevPut (xxx_bdev s))) } else State_Monad.return ());
     call (KBlk (DelGendisk (xxx_disks s)));
     call (KBlk (PutDisk (xxx_disks s)));
     call (KBlk (BlkCleanupQueue (xxx_queue s)));
     call (KBlk (UnregisterBlkdev M)) }"

lemmas xxx_defs [driver_defs] = xxx_out_def xxx_out_queue_def xxx_init_bio_def xxx_init_request_def
  xxx_exit_def

definition blk_answers :: "int \<Rightarrow> nat \<Rightarrow> kenv \<Rightarrow> bool" where
  "blk_answers M n E \<longleftrightarrow> e_alloc_disk E 0 \<noteq> NULL \<and> e_register_blkdev E M = 0 \<and> e_blk_queue E n \<noteq> NULL"

interpretation xxx_bio_mod: module_contract "xxx_init_bio M" "xxx_exit M" xxx_initial ktrace "blk_answers M 0" for M
  by unfold_locales
    (auto simp: driver_defs blk_answers_def xxx_initial_def no_leak_def)

interpretation xxx_request_mod:
  module_contract "xxx_init_request M" "xxx_exit M" xxx_initial ktrace "blk_answers M 1" for M
  by unfold_locales
    (auto simp: driver_defs blk_answers_def xxx_initial_def no_leak_def)

text \<open>
  Both ways to load the block example unwind too far: a load fails exactly if one of the
  three requests to the kernel fails; it then always answers \<open>-ENOMEM\<close>, although the code sets \<open>-EIO\<close>, and
  it always ends in \<open>blk_cleanup_queue\<close> of a queue that was never created, which the accounting of
  resources refuses.
\<close>

theorem xxx_init_errors:
  "(\<forall>i s. run_state (xxx_init_bio M E) xxx_initial = (i, s) \<longrightarrow>
     (if blk_answers M 0 E then i = Inr 0 else i = Inl ENOMEM \<and> account [] (ktrace s) = None \<and>
        last (ktrace s) = KBlk (BlkCleanupQueue NULL))) \<and>
   (\<forall>i s. run_state (xxx_init_request M E) xxx_initial = (i, s) \<longrightarrow>
     (if blk_answers M 1 E then i = Inr 0 else i = Inl ENOMEM \<and> account [] (ktrace s) = None \<and>
        last (ktrace s) = KBlk (BlkCleanupQueue NULL)))"
  by (auto simp: driver_defs blk_answers_def xxx_initial_def)

theorem xxx_init_errors_witness:
  "fst (run_state (xxx_init_bio 240 (sample_env\<lparr>e_register_blkdev := \<lambda>m. -16\<rparr>)) xxx_initial) = Inl ENOMEM"
  using xxx_init_errors [of 240 "sample_env\<lparr>e_register_blkdev := \<lambda>m. -16\<rparr>"]
  by (cases "run_state (xxx_init_bio 240 (sample_env\<lparr>e_register_blkdev := \<lambda>m. -16\<rparr>)) xxx_initial")
    (simp add: blk_answers_def)

end
