(* ===== verification/Ramdisk.thy ===== *)
theory Ramdisk
  imports Blockdev
begin

text \<open>
  The RAM disk of \<open>src/ex_source/ramdisk_ym.c\<close>, which keeps its content in the page cache of the block
  device: the address space operations, the copying between bio segments and pages, the request function,
  \<open>rd_ioctl\<close> and \<open>rd_open\<close>. Loading and unloading are in \<open>Ramdisk_Init\<close>.

  The page cache \<open>m\<close> maps page indices to pages. \<open>G\<close> is \<open>grab_cache_page\<close> (contract \<open>page_cache\<close>): the
  page of an index, newly made where the cache has none, or \<open>None\<close> without memory. What the disk contains
  is the function \<open>rd_content\<close>; the theorems relate the page by page copying to it.
\<close>

section \<open>Pages\<close>

definition PAGE_CACHE_SIZE :: nat where
  "PAGE_CACHE_SIZE = 4096"

record buffer_head =
  bh_off :: nat
  bh_size :: nat
  bh_uptodate :: bool

record page =
  pg_data :: "u8 list"
  pg_uptodate :: bool
  pg_dirty :: bool
  pg_locked :: bool
  pg_buffers :: "buffer_head list option"

type_synonym page_map = "u32 \<Rightarrow> page option"
type_synonym grabber = "page_map \<Rightarrow> u32 \<Rightarrow> page option"

text \<open>The walk around the circular list of buffer heads.\<close>

fun clear_buffers :: "buffer_head list \<Rightarrow> u8 list \<Rightarrow> buffer_head list \<times> u8 list" where
  "clear_buffers [] d = ([], d)"
| "clear_buffers (bh # bhs) d =
     (let (bh', d') = (if bh_uptodate bh then (bh, d)
        else (bh\<lparr>bh_uptodate := True\<rparr>, overwrite d (bh_off bh) (replicate (bh_size bh) 0)))
      in apfst ((#) bh') (clear_buffers bhs d'))"

definition make_page_uptodate :: "page \<Rightarrow> page" where
  "make_page_uptodate page =
     (case pg_buffers page of
        Some bhs \<Rightarrow> (let (bhs', d) = clear_buffers bhs (pg_data page)
          in page\<lparr>pg_buffers := Some bhs', pg_data := d, pg_uptodate := True\<rparr>)
      | None \<Rightarrow> page\<lparr>pg_data := replicate PAGE_CACHE_SIZE 0, pg_uptodate := True\<rparr>)"

definition ramdisk_readpage :: "page \<Rightarrow> c_int \<times> page" where
  "ramdisk_readpage page =
     (Inr 0, (if pg_uptodate page then page else make_page_uptodate page)\<lparr>pg_locked := False\<rparr>)"

definition ramdisk_prepare_write :: "page \<Rightarrow> nat \<Rightarrow> nat \<Rightarrow> c_int \<times> page" where
  "ramdisk_prepare_write page offset to =
     (Inr 0, if pg_uptodate page then page else make_page_uptodate page)"

text \<open>The answer says whether the page became dirty.\<close>

definition ramdisk_set_page_dirty :: "page \<Rightarrow> nat \<times> page" where
  "ramdisk_set_page_dirty page = (if pg_dirty page then 0 else 1, page\<lparr>pg_dirty := True\<rparr>)"

definition ramdisk_commit_write :: "page \<Rightarrow> nat \<Rightarrow> nat \<Rightarrow> c_int \<times> page" where
  "ramdisk_commit_write page offset to = (Inr 0, snd (ramdisk_set_page_dirty page))"

datatype writepage_answer = WP_ACTIVATE | WP_DONE

definition ramdisk_writepage :: "page \<Rightarrow> bool \<Rightarrow> writepage_answer \<times> page" where
  "ramdisk_writepage page for_reclaim =
     (let page1 = (if pg_uptodate page then page else make_page_uptodate page)\<lparr>pg_dirty := True\<rparr>
      in if for_reclaim then (WP_ACTIVATE, page1) else (WP_DONE, page1\<lparr>pg_locked := False\<rparr>))"

definition ramdisk_writepages :: "page_map \<Rightarrow> c_int \<times> page_map" where
  "ramdisk_writepages mapping = (Inr 0, mapping)"

section \<open>Input and output\<close>

datatype direction = READ | WRITE | READA

record bio_vec =
  bv_page :: "u8 list"
  bv_offset :: nat
  bv_len :: nat

text \<open>
  The loop of \<open>rd_blkdev_pagecache_IO\<close>, with \<open>vo\<close> for \<open>vec_offset\<close> and \<open>sz\<close> for \<open>size\<close>. It ends for every offset: from the
  second round on the offset is 0 and a round makes \<open>size\<close> smaller. A copy that leaves the page of the
  segment or the page of the cache is a fault. \<open>bv_len\<close> is below \<open>2 ^ 31\<close>, so the C ints do not wrap.
\<close>

function rd_copy :: "grabber \<Rightarrow> direction \<Rightarrow> u32 \<Rightarrow> nat \<Rightarrow> nat \<Rightarrow> nat \<Rightarrow> page_map \<Rightarrow> bio_vec \<Rightarrow>
    fault + c_int \<times> page_map \<times> bio_vec" where
  "rd_copy G rw index offset sz vo m vec =
     (let count = min (PAGE_CACHE_SIZE - offset) sz in
      case G m index of
        None \<Rightarrow> Inr (Inl ENOMEM, m, vec)
      | Some page \<Rightarrow>
          (let page1 = (if pg_uptodate page then page else make_page_uptodate page) in
           if length (bv_page vec) < vo + count \<or> length (pg_data page1) < offset + count
           then Inl OutOfBounds
           else
             (let vec' = (if rw = READ
                  then vec\<lparr>bv_page := overwrite (bv_page vec) vo (slice offset count (pg_data page1))\<rparr>
                  else vec);
                page2 = (if rw = READ then page1
                  else snd (ramdisk_set_page_dirty
                    (page1\<lparr>pg_data := overwrite (pg_data page1) offset (slice vo count (bv_page vec))\<rparr>)));
                m' = m(index \<mapsto> page2\<lparr>pg_locked := False\<rparr>)
              in if sz - count = 0 then Inr (Inr 0, m', vec')
                 else rd_copy G rw (index + 1) 0 (sz - count) (vo + count) m' vec')))"
  by pat_completeness auto

termination
  by (relation "measure (\<lambda>(G, rw, index, offset, sz, vo, m, vec). sz + (if offset = 0 then 0 else 1))")
    (auto simp: PAGE_CACHE_SIZE_def)

declare rd_copy.simps [simp del]

definition rd_blkdev_pagecache_IO ::
  "grabber \<Rightarrow> direction \<Rightarrow> bio_vec \<Rightarrow> u32 \<Rightarrow> page_map \<Rightarrow> fault + c_int \<times> page_map \<times> bio_vec" where
  "rd_blkdev_pagecache_IO G rw vec sector mapping =
     rd_copy G rw (drop_bit 3 sector) (unat (push_bit 9 sector AND 0xfff)) (bv_len vec) (bv_offset vec)
       mapping vec"

record rd_bio =
  bi_sector :: u32
  bi_size :: u32
  bi_vecs :: "bio_vec list"
  bi_rw :: direction

text \<open>\<open>ret\<close> collects the errors of all segments; a segment that fails does not stop the loop.\<close>

fun rd_segments :: "grabber \<Rightarrow> direction \<Rightarrow> u32 \<Rightarrow> page_map \<Rightarrow> bio_vec list \<Rightarrow>
    fault + bool \<times> page_map \<times> bio_vec list" where
  "rd_segments G rw sector m [] = Inr (True, m, [])"
| "rd_segments G rw sector m (vec # vecs) =
     (case rd_blkdev_pagecache_IO G rw vec sector m of
        Inl f \<Rightarrow> Inl f
      | Inr (r, m', vec') \<Rightarrow>
          map_sum id (\<lambda>(ok, m'', vecs'). (r = Inr 0 \<and> ok, m'', vec' # vecs'))
            (rd_segments G rw (sector + of_nat (bv_len vec div 512)) m' vecs))"

text \<open>
  The answer of \<open>rd_make_request\<close> is always 0; modelled is the status the bio is ended with, the page
  cache and the segments. The sum of the check has 32 bits.
\<close>

definition rd_make_request ::
  "grabber \<Rightarrow> u32 \<Rightarrow> rd_bio \<Rightarrow> page_map \<Rightarrow> fault + c_int \<times> page_map \<times> bio_vec list" where
  "rd_make_request G capacity bio mapping =
     (let sector = bi_sector bio; len = drop_bit 9 (bi_size bio);
          rw = (if bi_rw bio = READA then READ else bi_rw bio) in
      if sector + len > capacity then Inr (Inl EIO, mapping, bi_vecs bio)
      else map_sum id (apfst (\<lambda>ok. if ok then Inr 0 else Inl EIO))
        (rd_segments G rw sector mapping (bi_vecs bio)))"

section \<open>Control and opening\<close>

definition BLKFLSBUF :: u32 where
  "BLKFLSBUF = 0x1261"

text \<open>
  \<open>rd_ioctl\<close> assigns \<open>-EBUSY\<close> to a name it does not declare; its local \<open>error\<close> has the value \<open>junk\<close> when
  the device has more than two openers.
\<close>

definition rd_ioctl :: "c_int \<Rightarrow> nat \<Rightarrow> u32 \<Rightarrow> page_map \<Rightarrow> c_int \<times> page_map" where
  "rd_ioctl junk bd_openers cmd mapping =
     (if cmd \<noteq> BLKFLSBUF then (Inl ENOTTY, mapping)
      else if bd_openers \<le> 2 then (Inr 0, (\<lambda>_. None))
      else (junk, mapping))"

datatype backing = BDI_DEFAULT | BDI_RD | BDI_RD_FILE

text \<open>What \<open>rd_open\<close> sets up of the block device with its inode and address space.\<close>

record rd_node =
  bd_openers :: nat
  bd_block_size :: u32
  i_blkbits :: u32
  i_size :: nat
  i_grabs :: nat
  a_ops_ramdisk :: bool
  mapping_bdi :: backing
  inode_bdi :: backing
  mapping_gfp :: u32

text \<open>\<open>rd_bdev\<close> is an array of the \<open>N\<close> units; \<open>bits\<close> stands for the kernel's \<open>blksize_bits\<close>.\<close>

definition rd_open :: "u32 \<times> u32 \<times> u32 \<Rightarrow> (u32 \<Rightarrow> u32) \<Rightarrow> u32 \<Rightarrow> u32 \<Rightarrow> ptr \<Rightarrow> nat \<Rightarrow>
    ptr list \<times> rd_node \<Rightarrow> fault + c_int \<times> ptr list \<times> rd_node" where
  "rd_open flags bits hardsect capacity bdev unit s =
     (case s of (rd_bdev, n) \<Rightarrow> case flags of (gfp_fs, gfp_io, gfp_high) \<Rightarrow>
      if length rd_bdev \<le> unit then Inl OutOfBounds
      else if rd_bdev ! unit = NULL then
        Inr (Inr 0, rd_bdev[unit := bdev],
          n\<lparr>i_grabs := i_grabs n + 1, bd_openers := bd_openers n + 1, bd_block_size := hardsect,
            i_blkbits := bits hardsect, i_size := unat (push_bit 9 capacity), a_ops_ramdisk := True,
            mapping_bdi := BDI_RD, inode_bdi := BDI_RD_FILE,
            mapping_gfp := (mapping_gfp n AND NOT (gfp_fs OR gfp_io)) OR gfp_high\<rparr>)
      else Inr (Inr 0, rd_bdev, n))"

section \<open>The content of the disk\<close>

definition page_bytes :: "page \<Rightarrow> u8 list" where
  "page_bytes p = pg_data (if pg_uptodate p then p else make_page_uptodate p)"

text \<open>A page that the cache does not have reads as zeros. The cache holds at most \<open>2 ^ 44\<close> bytes.\<close>

definition rd_content :: "page_map \<Rightarrow> nat \<Rightarrow> u8" where
  "rd_content m k = (case m (of_nat (k div 4096)) of None \<Rightarrow> 0 | Some p \<Rightarrow> page_bytes p ! (k mod 4096))"

definition page_ok :: "page \<Rightarrow> bool" where
  "page_ok p \<longleftrightarrow> length (pg_data p) = 4096 \<and>
     (\<forall>bhs. pg_buffers p = Some bhs \<longrightarrow> (\<forall>bh \<in> set bhs. bh_off bh + bh_size bh \<le> 4096))"

definition cache_ok :: "page_map \<Rightarrow> bool" where
  "cache_ok m \<longleftrightarrow> (\<forall>i p. m i = Some p \<longrightarrow> page_ok p)"

lemma clear_buffers_ok:
  assumes "\<forall>bh \<in> set bhs. bh_off bh + bh_size bh \<le> length d"
  shows "length (snd (clear_buffers bhs d)) = length d \<and>
    map bh_off (fst (clear_buffers bhs d)) = map bh_off bhs \<and>
    map bh_size (fst (clear_buffers bhs d)) = map bh_size bhs \<and>
    (\<forall>bh \<in> set (fst (clear_buffers bhs d)). bh_uptodate bh \<and> bh_off bh + bh_size bh \<le> length d)"
  using assms
proof (induction bhs arbitrary: d)
  case (Cons bh bhs)
  let ?d = "if bh_uptodate bh then d else overwrite d (bh_off bh) (replicate (bh_size bh) 0)"
  have len: "length ?d = length d" using Cons.prems by simp
  have step: "clear_buffers (bh # bhs) d = apfst ((#) (bh\<lparr>bh_uptodate := True\<rparr>)) (clear_buffers bhs ?d)"
    by (cases bh) simp
  from Cons.IH [of ?d] Cons.prems show ?case
    unfolding step len by (cases "clear_buffers bhs ?d") simp
qed simp

lemma page_ok_uptodate [simp]: "page_ok p \<Longrightarrow> page_ok (make_page_uptodate p)"
  using clear_buffers_ok [of "the (pg_buffers p)" "pg_data p"]
  by (auto simp: page_ok_def make_page_uptodate_def PAGE_CACHE_SIZE_def split: option.split prod.split)

lemma uptodate_makes [simp]: "pg_uptodate (make_page_uptodate p)"
  by (simp add: make_page_uptodate_def split: option.split prod.split)

lemma length_page_bytes [simp]: "page_ok p \<Longrightarrow> length (page_bytes p) = 4096"
  using page_ok_uptodate [of p] by (simp add: page_bytes_def page_ok_def)

text \<open>
  The address space operations do not change what a page contains: bringing a page up to date only
  makes explicit what reads of it return.
\<close>

lemma page_bytes_uptodate [simp]: "page_bytes (make_page_uptodate p) = page_bytes p \<longleftrightarrow>
    (pg_uptodate p \<longrightarrow> pg_data (make_page_uptodate p) = pg_data p)"
  by (simp add: page_bytes_def)

lemma operations_keep_bytes:
  "page_bytes (snd (ramdisk_readpage p)) = page_bytes p"
  "page_bytes (snd (ramdisk_prepare_write p a b)) = page_bytes p"
  "page_bytes (snd (ramdisk_commit_write p a b)) = page_bytes p"
  "page_bytes (snd (ramdisk_writepage p r)) = page_bytes p"
  by (auto simp: ramdisk_readpage_def ramdisk_prepare_write_def ramdisk_commit_write_def
      ramdisk_set_page_dirty_def ramdisk_writepage_def page_bytes_def Let_def
      make_page_uptodate_def split: option.split prod.split)

text \<open>The documented answers of \<open>grab_cache_page\<close>: the page that is there, or a new one.\<close>

locale page_cache =
  fixes G :: grabber
  assumes present: "m i = Some p \<Longrightarrow> G m i = Some p"
    and fresh: "m i = None \<Longrightarrow> G m i = Some p \<Longrightarrow> page_ok p \<and> \<not> pg_uptodate p \<and> pg_buffers p = None"
begin

lemma grabbed_ok: "cache_ok m \<Longrightarrow> G m i = Some p \<Longrightarrow> page_ok p"
  using present [of m i] fresh [of m i p] by (cases "m i") (auto simp: cache_ok_def)

lemma grabbed_content:
  assumes "G m i = Some p" and "j < 4096"
  shows "page_bytes p ! j = rd_content m (4096 * unat i + j)"
proof (cases "m i")
  case None
  with fresh [OF None assms(1)] assms(2) show ?thesis
    by (simp add: rd_content_def page_bytes_def make_page_uptodate_def PAGE_CACHE_SIZE_def)
next
  case (Some q)
  with present [of m i q] assms show ?thesis by (simp add: rd_content_def)
qed

end

lemma page_index:
  assumes "k < 4096 * 2 ^ 32"
  shows "(of_nat (k div 4096) :: u32) = i \<longleftrightarrow> k div 4096 = unat i"
  using assms by (auto simp: unat_of_nat)

lemma content_update:
  assumes "pg_uptodate q" and "k < 4096 * 2 ^ 32"
  shows "rd_content (m(i \<mapsto> q)) k = (if k div 4096 = unat i then pg_data q ! (k mod 4096) else rd_content m k)"
  using page_index [OF assms(2), of i] assms(1) by (simp add: rd_content_def page_bytes_def)

lemma cache_ok_update [simp]: "cache_ok m \<Longrightarrow> page_ok q \<Longrightarrow> cache_ok (m(i \<mapsto> q))"
  by (simp add: cache_ok_def)

text \<open>One round of the loop.\<close>

definition uptodate :: "page \<Rightarrow> page" where
  "uptodate p = (if pg_uptodate p then p else make_page_uptodate p)"

lemma uptodate_ok [simp]:
  "page_ok p \<Longrightarrow> page_ok (uptodate p)" "pg_uptodate (uptodate p)" "pg_data (uptodate p) = page_bytes p"
  by (simp_all add: uptodate_def page_bytes_def)

definition put_bytes :: "nat \<Rightarrow> u8 list \<Rightarrow> page \<Rightarrow> page" where
  "put_bytes off d p = (uptodate p)\<lparr>pg_data := overwrite (page_bytes p) off d, pg_dirty := True, pg_locked := False\<rparr>"

lemma put_bytes_ok [simp]:
  "page_ok p \<Longrightarrow> off + length d \<le> 4096 \<Longrightarrow> page_ok (put_bytes off d p)"
  "pg_uptodate (put_bytes off d p)" "pg_data (put_bytes off d p) = overwrite (page_bytes p) off d"
  using uptodate_ok(1) [of p] by (simp_all add: put_bytes_def page_ok_def)

lemma copy_round_write:
  assumes "G m index = Some p" and "page_ok p" and "vo + sz \<le> length (bv_page vec)" and "offset < 4096"
  shows "rd_copy G WRITE index offset sz vo m vec =
    (let count = min (4096 - offset) sz; m' = m(index \<mapsto> put_bytes offset (slice vo count (bv_page vec)) p) in
     if sz \<le> 4096 - offset then Inr (Inr 0, m', vec)
     else rd_copy G WRITE (index + 1) 0 (sz - count) (vo + count) m' vec)"
proof -
  define c where "c = min (4096 - offset) sz"
  have "length (page_bytes p) = 4096" using assms(2) by simp
  moreover have "\<not> length (bv_page vec) < vo + c" "\<not> 4096 < offset + c"
    "sz \<le> c \<longleftrightarrow> sz \<le> 4096 - offset"
    using assms by (auto simp: c_def)
  ultimately show ?thesis
    by (subst rd_copy.simps) (simp add: Let_def assms(1) PAGE_CACHE_SIZE_def uptodate_def [symmetric]
        put_bytes_def ramdisk_set_page_dirty_def c_def [symmetric])
qed

lemma copy_round_read:
  assumes "G m index = Some p" and "page_ok p" and "vo + sz \<le> length (bv_page vec)" and "offset < 4096"
  shows "rd_copy G READ index offset sz vo m vec =
    (let count = min (4096 - offset) sz; m' = m(index \<mapsto> (uptodate p)\<lparr>pg_locked := False\<rparr>);
         vec' = vec\<lparr>bv_page := overwrite (bv_page vec) vo (slice offset count (page_bytes p))\<rparr> in
     if sz \<le> 4096 - offset then Inr (Inr 0, m', vec')
     else rd_copy G READ (index + 1) 0 (sz - count) (vo + count) m' vec')"
proof -
  define c where "c = min (4096 - offset) sz"
  have "length (page_bytes p) = 4096" using assms(2) by simp
  moreover have "\<not> length (bv_page vec) < vo + c" "\<not> 4096 < offset + c"
    "sz \<le> c \<longleftrightarrow> sz \<le> 4096 - offset"
    using assms by (auto simp: c_def)
  ultimately show ?thesis
    by (subst rd_copy.simps) (simp add: Let_def assms(1) PAGE_CACHE_SIZE_def uptodate_def [symmetric]
        c_def [symmetric])
qed

lemma copy_no_page:
  "G m index = None \<Longrightarrow> rd_copy G rw index offset sz vo m vec = Inr (Inl ENOMEM, m, vec)"
  by (subst rd_copy.simps) simp

context page_cache
begin

lemma put_content:
  assumes "cache_ok m" and "G m i = Some p" and "off + length d \<le> 4096" and "k < 4096 * 2 ^ 32"
  shows "rd_content (m(i \<mapsto> put_bytes off d p)) k =
    (if 4096 * unat i + off \<le> k \<and> k < 4096 * unat i + off + length d
     then d ! (k - (4096 * unat i + off)) else rd_content m k)"
proof (cases "k div 4096 = unat i")
  case True
  then have k: "k = 4096 * unat i + k mod 4096" by (metis mult_div_mod_eq)
  have ok: "page_ok p" using grabbed_ok [OF assms(1,2)] .
  have "page_bytes p ! (k mod 4096) = rd_content m k"
    using grabbed_content [OF assms(2), of "k mod 4096"] k by simp
  moreover have "overwrite (page_bytes p) off d ! (k mod 4096) =
      (if off \<le> k mod 4096 \<and> k mod 4096 < off + length d then d ! (k mod 4096 - off)
       else page_bytes p ! (k mod 4096))"
    by (rule nth_overwrite) (use ok assms(3) in simp_all)
  moreover have "rd_content (m(i \<mapsto> put_bytes off d p)) k = overwrite (page_bytes p) off d ! (k mod 4096)"
    using True assms(4) by (simp add: content_update)
  moreover have "4096 * unat i + off \<le> k \<longleftrightarrow> off \<le> k mod 4096"
    "k < 4096 * unat i + off + length d \<longleftrightarrow> k mod 4096 < off + length d"
    "k - (4096 * unat i + off) = k mod 4096 - off"
    using k by linarith+
  ultimately show ?thesis by simp
next
  case False
  then have "\<not> (4096 * unat i + off \<le> k \<and> k < 4096 * unat i + off + length d)"
    using assms(3) by (auto simp: div_nat_eqI)
  with False assms(4) show ?thesis by (auto simp: content_update)
qed

lemma touch_content:
  assumes "G m i = Some p" and "k < 4096 * 2 ^ 32"
  shows "rd_content (m(i \<mapsto> (uptodate p)\<lparr>pg_locked := False\<rparr>)) k = rd_content m k"
proof (cases "k div 4096 = unat i")
  case True
  then have "k = 4096 * unat i + k mod 4096" by (metis mult_div_mod_eq)
  with grabbed_content [OF assms(1), of "k mod 4096"] True assms(2) show ?thesis
    by (simp add: content_update)
qed (use assms(2) in \<open>simp add: content_update\<close>)

end

text \<open>The content with the bytes \<open>d\<close> put at \<open>base\<close>.\<close>

definition patched :: "(nat \<Rightarrow> u8) \<Rightarrow> nat \<Rightarrow> u8 list \<Rightarrow> nat \<Rightarrow> u8" where
  "patched f base d k = (if base \<le> k \<and> k < base + length d then d ! (k - base) else f k)"

lemma patched_append:
  "patched (patched f base d) (base + length d) e k = patched f base (d @ e) k"
  by (auto simp: patched_def nth_append)

lemma patched_Nil [simp]: "patched f base [] = f"
  by (rule ext) (auto simp: patched_def)

lemma patched_cong: "f k = g k \<Longrightarrow> patched f base d k = patched g base d k"
  by (simp add: patched_def)

lemma next_index:
  assumes "4096 * unat (i :: u32) + off + sz \<le> 4096 * 2 ^ 32" and "4096 < off + sz"
  shows "unat (i + 1) = unat i + 1"
proof -
  have "unat i + 1 < 2 ^ 32" using assms by simp
  then show ?thesis by (simp add: unat_word_ariths)
qed

abbreviation answer_ok :: "grabber \<Rightarrow> c_int \<Rightarrow> bool \<Rightarrow> bool" where
  "answer_ok G r complete \<equiv>
     (if r = Inr 0 then complete else r = Inl ENOMEM \<and> (\<exists>m i. G m i = None))"

context page_cache
begin

text \<open>One round from a page on: it copies \<open>c\<close> bytes and ends, or goes on at the next page.\<close>

lemma round_write:
  assumes "cache_ok m" and "vo + sz \<le> length (bv_page vec)" and "offset < 4096"
    and "4096 * unat index + offset + sz \<le> 4096 * 2 ^ 32" and "G m index = Some p"
  shows "\<exists>c m1. c \<le> sz \<and> cache_ok m1 \<and>
    (\<forall>k < 4096 * 2 ^ 32. rd_content m1 k =
      patched (rd_content m) (4096 * unat index + offset) (slice vo c (bv_page vec)) k) \<and>
    (if c = sz then rd_copy G WRITE index offset sz vo m vec = Inr (Inr 0, m1, vec)
     else 0 < c \<and> 4096 * unat (index + 1) = 4096 * unat index + offset + c \<and>
       rd_copy G WRITE index offset sz vo m vec = rd_copy G WRITE (index + 1) 0 (sz - c) (vo + c) m1 vec)"
proof -
  define c where "c = min (4096 - offset) sz"
  define d where "d = slice vo c (bv_page vec)"
  define m1 where "m1 = m(index \<mapsto> put_bytes offset d p)"
  have ok: "page_ok p" by (rule grabbed_ok [OF assms(1,5)])
  have d: "length d = c" "offset + length d \<le> 4096" using assms by (auto simp: d_def c_def)
  have "cache_ok m1" using assms(1) ok d(2) by (simp add: m1_def)
  moreover have "rd_content m1 k = patched (rd_content m) (4096 * unat index + offset) d k"
    if "k < 4096 * 2 ^ 32" for k
    using put_content [OF assms(1,5) d(2) that] by (simp add: patched_def m1_def)
  moreover have "4096 * unat (index + 1) = 4096 * unat index + offset + c" if "c \<noteq> sz"
    using next_index [OF assms(4)] that assms(3) by (simp add: c_def split: if_splits)
  moreover note copy_round_write [of G m index p vo sz vec offset, OF assms(5) ok assms(2,3), unfolded Let_def,
      folded c_def, folded d_def, folded m1_def]
  ultimately show ?thesis
    using assms(3) by (intro exI [of _ c] exI [of _ m1]) (auto simp: d_def c_def)
qed

lemma copy_write:
  assumes "cache_ok m" and "vo + sz \<le> length (bv_page vec)" and "offset < 4096"
    and "4096 * unat index + offset + sz \<le> 4096 * 2 ^ 32"
  shows "\<exists>r m' n. rd_copy G WRITE index offset sz vo m vec = Inr (r, m', vec) \<and> cache_ok m' \<and> n \<le> sz \<and>
    answer_ok G r (n = sz) \<and>
    (\<forall>k < 4096 * 2 ^ 32. rd_content m' k =
      patched (rd_content m) (4096 * unat index + offset) (slice vo n (bv_page vec)) k)"
  using assms
proof (induction sz arbitrary: m vo offset index rule: less_induct)
  case (less sz)
  show ?case
  proof (cases "G m index")
    case None
    then show ?thesis
      using less.prems(1) by (intro exI [of _ "Inl ENOMEM"] exI [of _ m] exI [of _ 0])
        (auto simp: copy_no_page slice_def)
  next
    case (Some p)
    let ?base = "4096 * unat index + offset"
    from round_write [OF less.prems Some] obtain c m1 where c: "c \<le> sz" "cache_ok m1"
      "\<forall>k < 4096 * 2 ^ 32. rd_content m1 k = patched (rd_content m) ?base (slice vo c (bv_page vec)) k"
      "if c = sz then rd_copy G WRITE index offset sz vo m vec = Inr (Inr 0, m1, vec)
       else 0 < c \<and> 4096 * unat (index + 1) = ?base + c \<and>
         rd_copy G WRITE index offset sz vo m vec = rd_copy G WRITE (index + 1) 0 (sz - c) (vo + c) m1 vec"
      by blast
    show ?thesis
    proof (cases "c = sz")
      case True
      with c show ?thesis by (intro exI [of _ "Inr 0"] exI [of _ m1] exI [of _ sz]) simp
    next
      case False
      with c(1,4) have next_round: "sz - c < sz" "4096 * unat (index + 1) + 0 = ?base + c"
        "rd_copy G WRITE index offset sz vo m vec = rd_copy G WRITE (index + 1) 0 (sz - c) (vo + c) m1 vec"
        by simp_all
      have "vo + c + (sz - c) \<le> length (bv_page vec)" "(0::nat) < 4096"
        "4096 * unat (index + 1) + 0 + (sz - c) \<le> 4096 * 2 ^ 32"
        unfolding next_round(2) using c(1) less.prems by simp_all
      from less.IH [OF next_round(1) c(2) this] obtain r m' n where
        IH: "rd_copy G WRITE (index + 1) 0 (sz - c) (vo + c) m1 vec = Inr (r, m', vec)"
          "cache_ok m'" "n \<le> sz - c" "answer_ok G r (n = sz - c)"
          "\<forall>k < 4096 * 2 ^ 32. rd_content m' k =
            patched (rd_content m1) (?base + c) (slice (vo + c) n (bv_page vec)) k"
        unfolding next_round(2) by blast
      have len: "length (slice vo c (bv_page vec)) = c" using c(1) less.prems(2) by simp
      have "rd_content m' k = patched (rd_content m) ?base (slice vo (c + n) (bv_page vec)) k"
        if k: "k < 4096 * 2 ^ 32" for k
        using IH(5) c(3) k patched_cong [of "rd_content m1" k "patched (rd_content m) ?base (slice vo c (bv_page vec))"]
          patched_append [of "rd_content m" ?base "slice vo c (bv_page vec)" "slice (vo + c) n (bv_page vec)" k]
        by (simp add: len slice_append)
      with IH(1-4) c(1) show ?thesis
        by (intro exI [of _ r] exI [of _ m'] exI [of _ "c + n"]) (auto simp: next_round(3))
    qed
  qed
qed

lemma page_slice:
  assumes "cache_ok m" and "G m i = Some p" and "off + n \<le> 4096"
  shows "slice off n (page_bytes p) = map (rd_content m) [4096 * unat i + off..<4096 * unat i + off + n]"
proof (rule nth_equalityI)
  have "length (page_bytes p) = 4096" using grabbed_ok [OF assms(1,2)] by simp
  with assms(3) show "length (slice off n (page_bytes p)) =
      length (map (rd_content m) [4096 * unat i + off..<4096 * unat i + off + n])"
    by simp
  fix j
  assume "j < length (slice off n (page_bytes p))"
  then have "j < n" by (simp add: slice_def)
  with \<open>length (page_bytes p) = 4096\<close> assms(3) grabbed_content [OF assms(2), of "off + j"]
  show "slice off n (page_bytes p) ! j =
      map (rd_content m) [4096 * unat i + off..<4096 * unat i + off + n] ! j"
    by (simp add: nth_slice add.assoc)
qed

lemma round_read:
  assumes "cache_ok m" and "vo + sz \<le> length (bv_page vec)" and "offset < 4096"
    and "4096 * unat index + offset + sz \<le> 4096 * 2 ^ 32" and "G m index = Some p"
  defines "base \<equiv> 4096 * unat index + offset"
  shows "\<exists>c m1. c \<le> sz \<and> cache_ok m1 \<and> (\<forall>k < 4096 * 2 ^ 32. rd_content m1 k = rd_content m k) \<and>
    (let vec1 = vec\<lparr>bv_page := overwrite (bv_page vec) vo (map (rd_content m) [base..<base + c])\<rparr> in
     if c = sz then rd_copy G READ index offset sz vo m vec = Inr (Inr 0, m1, vec1)
     else 0 < c \<and> 4096 * unat (index + 1) = base + c \<and>
       rd_copy G READ index offset sz vo m vec = rd_copy G READ (index + 1) 0 (sz - c) (vo + c) m1 vec1)"
proof -
  define c where "c = min (4096 - offset) sz"
  define m1 where "m1 = m(index \<mapsto> (uptodate p)\<lparr>pg_locked := False\<rparr>)"
  have ok: "page_ok p" by (rule grabbed_ok [OF assms(1,5)])
  have "page_ok ((uptodate p)\<lparr>pg_locked := False\<rparr>)" using uptodate_ok(1) [OF ok] by (simp add: page_ok_def)
  then have "cache_ok m1" using assms(1) by (simp add: m1_def)
  moreover have "rd_content m1 k = rd_content m k" if "k < 4096 * 2 ^ 32" for k
    using touch_content [OF assms(5) that] by (simp add: m1_def)
  moreover have "4096 * unat (index + 1) = base + c" if "c \<noteq> sz"
    using next_index [OF assms(4)] that assms(3) by (simp add: c_def base_def split: if_splits)
  moreover have "slice offset c (page_bytes p) = map (rd_content m) [base..<base + c]"
    using page_slice [OF assms(1,5), of offset c] assms(3) by (simp add: base_def c_def)
  moreover note copy_round_read [of G m index p vo sz vec offset, OF assms(5) ok assms(2,3), unfolded Let_def,
      folded c_def, folded m1_def]
  ultimately show ?thesis
    using assms(3) by (intro exI [of _ c] exI [of _ m1]) (auto simp: c_def Let_def)
qed

lemma copy_read:
  assumes "cache_ok m" and "vo + sz \<le> length (bv_page vec)" and "offset < 4096"
    and "4096 * unat index + offset + sz \<le> 4096 * 2 ^ 32"
  shows "\<exists>r m' n. rd_copy G READ index offset sz vo m vec = Inr (r, m',
      vec\<lparr>bv_page := overwrite (bv_page vec) vo
        (map (rd_content m) [4096 * unat index + offset..<4096 * unat index + offset + n])\<rparr>) \<and>
    cache_ok m' \<and> n \<le> sz \<and> answer_ok G r (n = sz) \<and>
    (\<forall>k < 4096 * 2 ^ 32. rd_content m' k = rd_content m k)"
  using assms
proof (induction sz arbitrary: m vo offset index vec rule: less_induct)
  case (less sz)
  show ?case
  proof (cases "G m index")
    case None
    then show ?thesis
      using less.prems(1) by (intro exI [of _ "Inl ENOMEM"] exI [of _ m] exI [of _ 0])
        (auto simp: copy_no_page)
  next
    case (Some p)
    define base where "base = 4096 * unat index + offset"
    let ?v = "\<lambda>n. vec\<lparr>bv_page := overwrite (bv_page vec) vo (map (rd_content m) [base..<base + n])\<rparr>"
    from round_read [OF less.prems Some, unfolded Let_def, folded base_def] obtain c m1 where c: "c \<le> sz" "cache_ok m1"
      "\<forall>k < 4096 * 2 ^ 32. rd_content m1 k = rd_content m k"
      "if c = sz then rd_copy G READ index offset sz vo m vec = Inr (Inr 0, m1, ?v c)
       else 0 < c \<and> 4096 * unat (index + 1) = base + c \<and>
         rd_copy G READ index offset sz vo m vec = rd_copy G READ (index + 1) 0 (sz - c) (vo + c) m1 (?v c)"
      by blast
    show ?thesis unfolding base_def [symmetric]
    proof (cases "c = sz")
      case True
      with c show "\<exists>r m' n. rd_copy G READ index offset sz vo m vec = Inr (r, m', ?v n) \<and> cache_ok m' \<and>
          n \<le> sz \<and> answer_ok G r (n = sz) \<and> (\<forall>k < 4096 * 2 ^ 32. rd_content m' k = rd_content m k)"
        by (intro exI [of _ "Inr 0"] exI [of _ m1] exI [of _ sz]) simp
    next
      case False
      with c(1,4) have next_round: "sz - c < sz" "4096 * unat (index + 1) + 0 = base + c"
        "rd_copy G READ index offset sz vo m vec = rd_copy G READ (index + 1) 0 (sz - c) (vo + c) m1 (?v c)"
        by simp_all
      have "vo + c + (sz - c) \<le> length (bv_page (?v c))" "(0::nat) < 4096"
        "4096 * unat (index + 1) + 0 + (sz - c) \<le> 4096 * 2 ^ 32"
        unfolding next_round(2) using c(1) less.prems by (simp_all add: base_def)
      from less.IH [OF next_round(1) c(2) this] obtain r m' n where
        IH: "rd_copy G READ (index + 1) 0 (sz - c) (vo + c) m1 (?v c) = Inr (r, m', (?v c)
            \<lparr>bv_page := overwrite (bv_page (?v c)) (vo + c) (map (rd_content m1) [base + c..<base + c + n])\<rparr>)"
          "cache_ok m'" "n \<le> sz - c" "answer_ok G r (n = sz - c)"
          "\<forall>k < 4096 * 2 ^ 32. rd_content m' k = rd_content m1 k"
        unfolding next_round(2) by blast
      have same: "map (rd_content m1) [base + c..<base + c + n] = map (rd_content m) [base + c..<base + c + n]"
        using less.prems(4) IH(3) c(1,3) by (intro map_cong refl) (auto simp: base_def)
      have "overwrite (bv_page (?v c)) (vo + c) (map (rd_content m) [base + c..<base + c + n]) = bv_page (?v (c + n))"
        using overwrite_overwrite [of vo "map (rd_content m) [base..<base + c]"
            "map (rd_content m) [base + c..<base + c + n]" "bv_page vec"] less.prems(2) IH(3) c(1)
          upt_add_eq_append [of base "base + c" n]
        by (simp add: add.assoc flip: map_append)
      then have "(?v c)\<lparr>bv_page := overwrite (bv_page (?v c)) (vo + c)
          (map (rd_content m1) [base + c..<base + c + n])\<rparr> = ?v (c + n)" unfolding same by simp
      from IH(1) [folded next_round(3), unfolded this] IH(2-5) c(1,3)
      show "\<exists>r m' n. rd_copy G READ index offset sz vo m vec = Inr (r, m', ?v n) \<and> cache_ok m' \<and>
          n \<le> sz \<and> answer_ok G r (n = sz) \<and> (\<forall>k < 4096 * 2 ^ 32. rd_content m' k = rd_content m k)"
        by (intro exI [of _ r] exI [of _ m'] exI [of _ "c + n"]) auto
    qed
  qed
qed

end

section \<open>Requests\<close>

lemma sector_position:
  "4096 * unat (drop_bit 3 s) + unat (push_bit 9 s AND 0xfff :: u32) = 512 * unat s"
  "unat (push_bit 9 s AND 0xfff :: u32) < 4096"
proof -
  have scale: "8 * d + r = x \<Longrightarrow> 4096 * d + 512 * r = 512 * x" for d r x :: nat by simp
  have m: "(0xfff :: u32) = mask 12" by (simp add: mask_eq_exp_minus_1)
  have "unat (push_bit 9 s) = unat s * 512 mod 2 ^ 32"
    by (simp add: push_bit_eq_mult unat_word_ariths mult.commute)
  moreover have "push_bit 9 s AND 0xfff = take_bit 12 (push_bit 9 s)"
    unfolding m by (simp only: take_bit_eq_mask)
  then have "unat (push_bit 9 s AND 0xfff) = unat (push_bit 9 s) mod 2 ^ 12"
    by (simp only: unsigned_take_bit_eq) (simp only: take_bit_eq_mod)
  ultimately have "unat (push_bit 9 s AND 0xfff) = unat s * 512 mod 2 ^ 32 mod 2 ^ 12" by simp
  also have "\<dots> = unat s * 512 mod 2 ^ 12"
    by (rule mod_mod_cancel) (simp add: le_imp_power_dvd)
  also have "\<dots> = 512 * (unat s mod 8)" using mult_mod_right [of 512 "unat s" 8] by (simp add: mult.commute)
  finally have off: "unat (push_bit 9 s AND 0xfff) = 512 * (unat s mod 8)" .
  moreover have "unat (drop_bit 3 s) = unat s div 8"
    by (simp add: drop_bit_eq_div unat_div_distrib)
  ultimately show "4096 * unat (drop_bit 3 s) + unat (push_bit 9 s AND 0xfff) = 512 * unat s"
    by (simp only: off scale [OF mult_div_mod_eq])
  from off show "unat (push_bit 9 s AND 0xfff) < 4096" by simp
qed

definition seg_ok :: "bio_vec \<Rightarrow> bool" where
  "seg_ok v \<longleftrightarrow> bv_offset v + bv_len v \<le> length (bv_page v) \<and> 512 dvd bv_len v"

definition seg_data :: "bio_vec \<Rightarrow> u8 list" where
  "seg_data v = slice (bv_offset v) (bv_len v) (bv_page v)"

lemma length_seg_data [simp]: "seg_ok v \<Longrightarrow> length (seg_data v) = bv_len v"
  by (simp add: seg_data_def seg_ok_def)

definition seg_total :: "bio_vec list \<Rightarrow> nat" where
  "seg_total vs = sum_list (map bv_len vs)"

lemma length_seg_concat: "\<forall>v \<in> set vs. seg_ok v \<Longrightarrow> length (concat (map seg_data vs)) = seg_total vs"
  by (induction vs) (simp_all add: seg_total_def)

lemma seg_total_dvd: "\<forall>v \<in> set vs. seg_ok v \<Longrightarrow> 512 dvd seg_total vs"
  by (induction vs) (simp_all add: seg_total_def seg_ok_def)

text \<open>
  What carrying out a direction from the sector at \<open>base\<close> on means: the answer \<open>ok\<close> is complete success
  or some page could not be had.
\<close>

definition io_done :: "grabber \<Rightarrow> direction \<Rightarrow> nat \<Rightarrow> page_map \<Rightarrow> bio_vec list \<Rightarrow> bool \<Rightarrow> page_map \<Rightarrow>
    bio_vec list \<Rightarrow> bool" where
  "io_done G rw base m vs ok m' vs' \<longleftrightarrow> cache_ok m' \<and> (ok \<or> (\<exists>m i. G m i = None)) \<and>
     (\<forall>k < 4096 * 2 ^ 32. rw = READ \<or> k < base \<or> base + seg_total vs \<le> k \<longrightarrow>
        rd_content m' k = rd_content m k) \<and>
     (rw = WRITE \<longrightarrow> vs' = vs) \<and>
     (ok \<longrightarrow> (if rw = WRITE
        then \<forall>k < 4096 * 2 ^ 32. rd_content m' k = patched (rd_content m) base (concat (map seg_data vs)) k
        else concat (map seg_data vs') = map (rd_content m) [base..<base + seg_total vs]))"

context page_cache
begin

lemma io_segment:
  assumes "cache_ok m" and "seg_ok v" and "512 * unat sector + bv_len v \<le> 512 * 2 ^ 32" and "rw \<noteq> READA"
  shows "\<exists>r m' v'. rd_blkdev_pagecache_IO G rw v sector m = Inr (r, m', v') \<and>
    io_done G rw (512 * unat sector) m [v] (r = Inr 0) m' [v']"
proof -
  let ?i = "drop_bit 3 sector" and ?o = "unat (push_bit 9 sector AND 0xfff)"
  have bound: "4096 * unat ?i + ?o + bv_len v \<le> 4096 * 2 ^ 32"
    unfolding sector_position using assms(3) by simp
  have len: "bv_offset v + bv_len v \<le> length (bv_page v)" using assms(2) by (simp add: seg_ok_def)
  show ?thesis
  proof (cases rw)
    case READ
    from copy_read [OF assms(1) len sector_position(2) bound, unfolded sector_position]
    obtain r m' n where r: "rd_copy G READ ?i ?o (bv_len v) (bv_offset v) m v = Inr (r, m',
        v\<lparr>bv_page := overwrite (bv_page v) (bv_offset v)
          (map (rd_content m) [512 * unat sector..<512 * unat sector + n])\<rparr>)"
      "cache_ok m'" "n \<le> bv_len v" "answer_ok G r (n = bv_len v)"
      "\<forall>k < 4096 * 2 ^ 32. rd_content m' k = rd_content m k"
      by blast
    let ?d = "map (rd_content m) [512 * unat sector..<512 * unat sector + n]"
    have "seg_data (v\<lparr>bv_page := overwrite (bv_page v) (bv_offset v) ?d\<rparr>) = ?d" if "n = bv_len v"
      using that len by (simp add: seg_data_def slice_overwrite_inside) (simp add: slice_def)
    with r show ?thesis
      by (auto simp: READ rd_blkdev_pagecache_IO_def io_done_def seg_total_def split: if_splits)
  next
    case WRITE
    from copy_write [OF assms(1) len sector_position(2) bound, unfolded sector_position]
    obtain r m' n where r: "rd_copy G WRITE ?i ?o (bv_len v) (bv_offset v) m v = Inr (r, m', v)"
      "cache_ok m'" "n \<le> bv_len v" "answer_ok G r (n = bv_len v)"
      "\<forall>k < 4096 * 2 ^ 32. rd_content m' k =
        patched (rd_content m) (512 * unat sector) (slice (bv_offset v) n (bv_page v)) k"
      by blast
    have "length (slice (bv_offset v) n (bv_page v)) = n" using r(3) len by simp
    with r show ?thesis
      by (auto simp: WRITE rd_blkdev_pagecache_IO_def io_done_def seg_total_def seg_data_def patched_def
          split: if_splits)
  qed (use assms(4) in simp)
qed

lemma io_done_Cons:
  assumes one: "io_done G rw base m [v] ok m1 [v1]"
    and more: "io_done G rw (base + bv_len v) m1 vs ok' m' vs'"
    and "seg_ok v" and "base + bv_len v + seg_total vs \<le> 4096 * 2 ^ 32" and "rw \<noteq> READA"
  shows "io_done G rw base m (v # vs) (ok \<and> ok') m' (v1 # vs')"
proof (cases rw)
  case READ
  have same: "rd_content m1 k = rd_content m k" if "k < 4096 * 2 ^ 32" for k
    using one that by (simp add: io_done_def READ)
  have "map (rd_content m1) [base + bv_len v..<base + bv_len v + seg_total vs] =
      map (rd_content m) [base + bv_len v..<base + bv_len v + seg_total vs]"
    using assms(4) by (intro map_cong refl same) auto
  then have "concat (map seg_data (v1 # vs')) = map (rd_content m) [base..<base + seg_total (v # vs)]"
    if "ok" "ok'"
    using one more that upt_add_eq_append [of base "base + bv_len v" "seg_total vs"]
    by (simp add: io_done_def READ seg_total_def add.assoc)
  moreover have "\<forall>k < 4096 * 2 ^ 32. rd_content m' k = rd_content m k"
    using more same by (simp add: io_done_def READ)
  ultimately show ?thesis
    using one more by (simp add: io_done_def READ) blast
next
  case WRITE
  have "rd_content m' k = patched (rd_content m) base (concat (map seg_data (v # vs))) k"
    if "k < 4096 * 2 ^ 32" and "ok" "ok'" for k
  proof -
    have "rd_content m' k =
        patched (rd_content m1) (base + length (seg_data v)) (concat (map seg_data vs)) k"
      using more that assms(3) by (simp add: io_done_def WRITE)
    also have "\<dots> = patched (patched (rd_content m) base (seg_data v)) (base + length (seg_data v))
        (concat (map seg_data vs)) k"
      using one that by (intro patched_cong) (simp add: io_done_def WRITE)
    finally show ?thesis by (simp add: patched_append)
  qed
  with one more show ?thesis
    by (auto simp: io_done_def WRITE seg_total_def)
qed (use assms(5) in simp)

lemma io_segments:
  assumes "cache_ok m" and "\<forall>v \<in> set vs. seg_ok v" and "512 * unat sector + seg_total vs < 512 * 2 ^ 32"
    and "rw \<noteq> READA"
  shows "\<exists>ok m' vs'. rd_segments G rw sector m vs = Inr (ok, m', vs') \<and>
    io_done G rw (512 * unat sector) m vs ok m' vs'"
  using assms(1-3)
proof (induction vs arbitrary: sector m)
  case Nil
  then show ?case by (intro exI [of _ True]) (simp add: io_done_def seg_total_def)
next
  case (Cons v vs)
  have v: "seg_ok v" using Cons.prems by simp
  have bound: "512 * unat sector + bv_len v + seg_total vs < 512 * 2 ^ 32"
    using Cons.prems by (simp add: seg_total_def)
  then have "512 * unat sector + bv_len v \<le> 512 * 2 ^ 32" by simp
  from io_segment [OF Cons.prems(1) v this assms(4)]
  obtain r m1 v1 where one: "rd_blkdev_pagecache_IO G rw v sector m = Inr (r, m1, v1)"
    "io_done G rw (512 * unat sector) m [v] (r = Inr 0) m1 [v1]"
    by blast
  let ?s = "sector + of_nat (bv_len v div 512)"
  have "512 * (bv_len v div 512) = bv_len v" using v by (auto simp: seg_ok_def)
  moreover from this bound have "unat ?s = unat sector + bv_len v div 512"
    by (simp add: unat_word_ariths unat_of_nat)
  ultimately have s: "512 * unat ?s = 512 * unat sector + bv_len v" by simp
  have "cache_ok m1" using one(2) by (simp add: io_done_def)
  moreover have "\<forall>v \<in> set vs. seg_ok v" using Cons.prems by simp
  moreover have "512 * unat ?s + seg_total vs < 512 * 2 ^ 32" unfolding s using bound .
  ultimately obtain ok m' vs' where rest: "rd_segments G rw ?s m1 vs = Inr (ok, m', vs')"
    "io_done G rw (512 * unat sector + bv_len v) m1 vs ok m' vs'"
    using Cons.IH [of m1 ?s] unfolding s by blast
  have "io_done G rw (512 * unat sector) m (v # vs) (r = Inr 0 \<and> ok) m' (v1 # vs')"
    using bound by (intro io_done_Cons [OF one(2) rest(2) v _ assms(4)]) simp
  with one(1) rest(1) show ?case by simp
qed

lemma request_done:
  assumes "cache_ok m" and "\<forall>v \<in> set (bi_vecs b). seg_ok v" and "unat (bi_size b) = seg_total (bi_vecs b)"
    and "512 * unat (bi_sector b) + seg_total (bi_vecs b) \<le> 512 * unat capacity"
  shows "\<exists>r m' vs'. rd_make_request G capacity b m = Inr (r, m', vs') \<and> (r = Inr 0 \<or> r = Inl EIO) \<and>
    io_done G (if bi_rw b = READA then READ else bi_rw b) (512 * unat (bi_sector b)) m (bi_vecs b)
      (r = Inr 0) m' vs'"
proof -
  let ?rw = "if bi_rw b = READA then READ else bi_rw b"
  have len: "unat (drop_bit 9 (bi_size b)) = seg_total (bi_vecs b) div 512"
    by (simp add: drop_bit_eq_div unat_div_distrib assms(3))
  have cap: "unat capacity < 2 ^ 32" by (rule order_less_le_trans [OF unsigned_less]) simp
  have "unat (bi_sector b) + seg_total (bi_vecs b) div 512 \<le> unat capacity" using assms(4) by linarith
  with cap have "unat (bi_sector b + drop_bit 9 (bi_size b)) \<le> unat capacity"
    by (simp add: unat_word_ariths len)
  then have check: "\<not> bi_sector b + drop_bit 9 (bi_size b) > capacity"
    by (simp add: word_less_nat_alt)
  have "512 * unat (bi_sector b) + seg_total (bi_vecs b) < 512 * 2 ^ 32" using assms(4) cap by simp
  from io_segments [OF assms(1,2) this, of ?rw] show ?thesis
    using check by (force simp: rd_make_request_def Let_def)
qed

lemma request_beyond:
  assumes "unat (bi_size b) = seg_total (bi_vecs b)"
    and "unat (bi_sector b) + seg_total (bi_vecs b) div 512 < 2 ^ 32"
    and "unat capacity < unat (bi_sector b) + seg_total (bi_vecs b) div 512"
  shows "rd_make_request G capacity b m = Inr (Inl EIO, m, bi_vecs b)"
proof -
  have len: "unat (drop_bit 9 (bi_size b)) = seg_total (bi_vecs b) div 512"
    by (simp add: drop_bit_eq_div unat_div_distrib assms(1))
  then have "unat (bi_sector b + drop_bit 9 (bi_size b)) =
      unat (bi_sector b) + seg_total (bi_vecs b) div 512"
    using assms(2) by (simp add: unat_word_ariths)
  with assms(3) have "bi_sector b + drop_bit 9 (bi_size b) > capacity"
    by (simp add: word_less_nat_alt)
  then show ?thesis by (simp add: rd_make_request_def)
qed

end


text \<open>A page cache that makes pages as they are needed, and one without any memory.\<close>

definition new_page :: page where
  "new_page = \<lparr>pg_data = replicate 4096 0xcc, pg_uptodate = False, pg_dirty = False, pg_locked = True,
     pg_buffers = None\<rparr>"

definition grab :: grabber where
  "grab m i = (case m i of None \<Rightarrow> Some new_page | Some p \<Rightarrow> Some p)"

definition grab_old :: grabber where
  "grab_old m i = m i"

interpretation ample: page_cache grab
  by unfold_locales (auto simp: grab_def new_page_def page_ok_def)

interpretation exhausted: page_cache grab_old
  by unfold_locales (simp_all add: grab_old_def)

lemma grab_room [simp]: "grab m i \<noteq> None"
  by (simp add: grab_def split: option.split)

lemma empty_disk [simp]: "cache_ok (\<lambda>_. None)" "rd_content (\<lambda>_. None) = (\<lambda>_. 0)"
  by (simp_all add: cache_ok_def rd_content_def fun_eq_iff)

definition sector_bio :: "nat \<Rightarrow> direction \<Rightarrow> u8 list \<Rightarrow> rd_bio" where
  "sector_bio i rw d = \<lparr>bi_sector = of_nat i, bi_size = of_nat (length d),
     bi_vecs = [\<lparr>bv_page = d, bv_offset = 0, bv_len = length d\<rparr>], bi_rw = rw\<rparr>"


section \<open>The RAM disk as a disk\<close>

definition rd_read :: "grabber \<Rightarrow> nat \<Rightarrow> nat \<Rightarrow> nat \<Rightarrow> page_map \<Rightarrow> u8 list" where
  "rd_read G cap i n m =
     (case rd_make_request G (of_nat cap) (sector_bio i READ (replicate (512 * n) 0)) m of
        Inr (r, m', vs) \<Rightarrow> concat (map seg_data vs) | Inl f \<Rightarrow> [])"

definition rd_write :: "grabber \<Rightarrow> nat \<Rightarrow> nat \<Rightarrow> u8 list \<Rightarrow> page_map \<Rightarrow> page_map" where
  "rd_write G cap i d m =
     (case rd_make_request G (of_nat cap) (sector_bio i WRITE d) m of
        Inr (r, m', vs) \<Rightarrow> m' | Inl f \<Rightarrow> m)"

lemma slice_map_upt: "off + n \<le> k \<Longrightarrow> slice off n (map f [0..<k]) = map f [off..<off + n]"
  by (simp add: slice_def drop_map take_map)

lemma map_patched:
  assumes "base + length d \<le> n"
  shows "map (patched f base d) [0..<n] = overwrite (map f [0..<n]) base d"
  by (rule nth_equalityI) (use assms in \<open>auto simp: nth_overwrite patched_def\<close>)

locale roomy_cache = page_cache +
  fixes cap :: nat
  assumes room: "G m i \<noteq> None" and small: "cap < 2 ^ 23"
begin

lemma sector_request:
  assumes "cache_ok m" and "i + k \<le> cap" and "length d = 512 * k" and "rw \<noteq> READA"
  shows "\<exists>m' vs'. rd_make_request G (of_nat cap) (sector_bio i rw d) m = Inr (Inr 0, m', vs') \<and>
    io_done G rw (512 * i) m [\<lparr>bv_page = d, bv_offset = 0, bv_len = length d\<rparr>] True m' vs'"
proof -
  let ?b = "sector_bio i rw d"
  have u: "unat (bi_sector ?b) = i" "unat (of_nat cap :: u32) = cap" "unat (bi_size ?b) = length d"
    using assms(2,3) small by (simp_all add: sector_bio_def unat_of_nat del: of_nat_mult)
  have s: "seg_total (bi_vecs ?b) = length d" "\<forall>v \<in> set (bi_vecs ?b). seg_ok v"
    using assms(3) by (simp_all add: sector_bio_def seg_total_def seg_ok_def)
  have "512 * unat (bi_sector ?b) + seg_total (bi_vecs ?b) \<le> 512 * unat (of_nat cap :: u32)"
    unfolding u s using assms(2,3) by simp
  from request_done [OF assms(1) s(2) _ this] obtain r m' vs' where
    "rd_make_request G (of_nat cap) ?b m = Inr (r, m', vs')" "r = Inr 0 \<or> r = Inl EIO"
    "io_done G (if bi_rw ?b = READA then READ else bi_rw ?b) (512 * i) m (bi_vecs ?b) (r = Inr 0) m' vs'"
    unfolding u s by blast
  moreover from this(3) have "r = Inr 0" using room by (simp add: io_done_def)
  ultimately show ?thesis using assms(4) by (simp add: sector_bio_def)
qed

lemma read_content:
  assumes "cache_ok m" and "i + n \<le> cap"
  shows "rd_read G cap i n m = map (rd_content m) [512 * i..<512 * i + 512 * n]"
  using sector_request [OF assms, of "replicate (512 * n) 0" READ]
  by (auto simp: rd_read_def io_done_def seg_total_def)

lemma write_content:
  assumes "cache_ok m" and "in_capacity cap (i, d)"
  shows "cache_ok (rd_write G cap i d m) \<and>
    (\<forall>k < 512 * cap. rd_content (rd_write G cap i d m) k = patched (rd_content m) (512 * i) d k)"
proof -
  have "i + length d div 512 \<le> cap" "length d = 512 * (length d div 512)"
    using assms(2) by (auto simp: in_capacity_def)
  from sector_request [OF assms(1) this, of WRITE] small show ?thesis
    by (auto simp: rd_write_def io_done_def seg_data_def slice_def)
qed

lemma disk_bytes:
  "j < cap \<Longrightarrow> map (rd_content m) [512 * j..<512 * j + 512] =
     slice (512 * j) 512 (map (rd_content m) [0..<512 * cap])"
  by (simp add: slice_map_upt)

lemma sector_written:
  assumes "cache_ok m" and "in_capacity cap (i, d)" and "j < cap"
  shows "rd_read G cap j 1 (rd_write G cap i d m) = sector_update i d (\<lambda>j. rd_read G cap j 1 m) j"
proof -
  let ?m = "rd_write G cap i d m" and ?D = "map (rd_content m) [0..<512 * cap]"
  note w = write_content [OF assms(1,2)]
  have d: "512 * i + length d \<le> 512 * cap" "512 dvd length d" using assms(2) by (auto simp: in_capacity_def)
  have "rd_read G cap j 1 ?m = slice (512 * j) 512 (map (rd_content ?m) [0..<512 * cap])"
    using read_content [of ?m j 1] w assms(3) by (simp add: disk_bytes)
  also have "map (rd_content ?m) [0..<512 * cap] = map (patched (rd_content m) (512 * i) d) [0..<512 * cap]"
    using w by (intro map_cong) auto
  also have "\<dots> = overwrite ?D (512 * i) d" by (rule map_patched [OF d(1)])
  also have "slice (512 * j) 512 \<dots> = sector_update i d (\<lambda>j. slice (512 * j) 512 ?D) j"
    by (rule slice_sector_update) (use d assms(3) in simp_all)
  also have "\<dots> = sector_update i d (\<lambda>j. rd_read G cap j 1 m) j"
    using read_content [of m j 1] assms by (simp add: sector_update_def disk_bytes)
  finally show ?thesis .
qed

end

sublocale roomy_cache \<subseteq> disk: block_store "rd_read G cap" "rd_write G cap" cache_ok cap
proof
  show "cache_ok (rd_write G cap i d s)" if "cache_ok s" "in_capacity cap (i, d)" for s i d
    using write_content [OF that] ..
  show "rd_read G cap j 1 (rd_write G cap i d s) = sector_update i d (\<lambda>j. rd_read G cap j 1 s) j"
    if "cache_ok s" "in_capacity cap (i, d)" "j < cap" for s i d j
    by (rule sector_written [OF that])
  show "rd_read G cap i n s = concat (map (\<lambda>j. rd_read G cap j 1 s) [i..<i + n])"
    if a: "cache_ok s" "i + n \<le> cap" for s i n
  proof -
    let ?D = "map (rd_content s) [0..<512 * cap]"
    have "map (\<lambda>j. rd_read G cap j 1 s) [i..<i + n] = map (\<lambda>j. slice (512 * j) 512 ?D) [i..<i + n]"
      using read_content [OF a(1), where n = 1] a(2) by (intro map_cong) (auto simp: disk_bytes)
    moreover have "rd_read G cap i n s = slice (512 * i) (512 * n) ?D"
      using read_content [OF a] a(2) by (simp add: slice_map_upt)
    moreover have "512 * (i + n) \<le> length ?D" using a(2) by simp
    ultimately show ?thesis by (simp only: slice_sectors)
  qed
qed

context roomy_cache
begin

lemma is_disk: "block_store (rd_read G cap) (rd_write G cap) cache_ok cap"
  by (rule disk.block_store_axioms)

lemma empty_sector: "j < cap \<Longrightarrow> rd_read G cap j 1 (\<lambda>_. None) = replicate 512 0"
  using read_content [of "\<lambda>_. None" j 1] by (simp add: map_replicate_const)

lemma history:
  assumes "\<forall>w \<in> set ws. in_capacity cap w" and "i + n \<le> cap"
  shows "rd_read G cap i n (fold (\<lambda>(i, d). rd_write G cap i d) ws (\<lambda>_. None)) =
    concat (map (latest ws (\<lambda>j. replicate 512 0)) [i..<i + n])"
proof -
  have "map (latest ws (\<lambda>j. rd_read G cap j 1 (\<lambda>_. None))) [i..<i + n] =
      map (latest ws (\<lambda>j. replicate 512 0)) [i..<i + n]"
    using assms(2) by (intro map_cong refl latest_cong empty_sector) simp
  with disk.read_back [OF empty_disk(1) assms] show ?thesis by (simp only:)
qed

end

interpretation ample_disk: roomy_cache grab 8192
  by unfold_locales simp_all

text \<open>
  C5: over a page cache that always finds a page, the RAM disk is a disk: after \<open>BLKFLSBUF\<close>
  with at most two openers and any sequence of writes inside its capacity, a read of any range of sectors
  returns for each the bytes written to it last since then, and zeros where there are none.
\<close>

theorem ramdisk_history:
  assumes "roomy_cache G cap" and "openers \<le> 2"
    and "\<forall>w \<in> set ws. in_capacity cap w" and "i + n \<le> cap"
  shows "rd_read G cap i n
      (fold (\<lambda>(i, d). rd_write G cap i d) ws (snd (rd_ioctl junk openers BLKFLSBUF m))) =
    concat (map (latest ws (\<lambda>j. replicate 512 0)) [i..<i + n])"
  using roomy_cache.history [OF assms(1,3,4)] assms(2) by (simp add: rd_ioctl_def)

theorem ramdisk_history_witness:
  "rd_read grab 8192 2 3 (fold (\<lambda>(i, d). rd_write grab 8192 i d) [(3, replicate 1024 7), (4, replicate 512 9)]
     (snd (rd_ioctl (Inl EBUSY) 1 BLKFLSBUF (\<lambda>_. Some new_page)))) =
   replicate 512 0 @ replicate 512 7 @ replicate 512 9"
proof -
  have "[2..<2 + 3] = [2, 3, 4 :: nat]" by (simp add: upt_rec)
  then show ?thesis
    by (subst ramdisk_history [OF ample_disk.roomy_cache_axioms])
      (simp_all add: in_capacity_def sector_update_def)
qed

text \<open>With more openers \<open>rd_ioctl\<close> answers whatever is in its uninitialised local.\<close>

lemma ioctl_uninitialised: "2 < openers \<Longrightarrow> rd_ioctl junk openers BLKFLSBUF m = (junk, m)"
  by (simp add: rd_ioctl_def)

text \<open>\<open>rd_open\<close> sets a unit up once and leaves it alone on every later open.\<close>

lemma open_once:
  assumes "unit < length bdevs" and "bdevs ! unit = NULL" and "bdev \<noteq> NULL"
    and "rd_open f bits h cap bdev unit (bdevs, n) = Inr (r, s)"
  shows "rd_open f bits h cap b' unit s = Inr (Inr 0, s) \<and> fst s = bdevs[unit := bdev] \<and>
    bd_openers (snd s) = bd_openers n + 1 \<and> a_ops_ramdisk (snd s)"
  using assms by (auto simp: rd_open_def split: prod.splits if_splits)

end
