(* ===== verification/Ramdisk_Init.thy ===== *)
theory Ramdisk_Init
  imports Ramdisk
begin

text \<open>
  Loading and unloading of the RAM disk, \<open>rd_init\<close> and \<open>rd_cleanup\<close> of \<open>src/ex_source/ramdisk_ym.c\<close>:
  loops over the \<open>N\<close> = \<open>CONFIG_BLK_DEV_RAM_COUNT\<close> disks with an unwinding \<open>out\<close> path. \<open>N\<close>, the major number
  \<open>M\<close> and the sizes come from the kernel configuration and are arguments.
\<close>

record rd_state = kstate +
  rd_disks :: "nat \<Rightarrow> ptr"
  rd_queues :: "nat \<Rightarrow> ptr"
  rd_bdevs :: "nat \<Rightarrow> ptr"
  rd_blocksize :: int
  rd_capacity :: "nat \<Rightarrow> nat"

definition rd_initial :: "int \<Rightarrow> rd_state" where
  "rd_initial bs = \<lparr>ktrace = [], kmem = (\<lambda>_. 0), kfault = None, rd_disks = (\<lambda>_. NULL),
     rd_queues = (\<lambda>_. NULL), rd_bdevs = (\<lambda>_. NULL), rd_blocksize = bs, rd_capacity = (\<lambda>_. 0)\<rparr>"

definition PAGE_SIZE :: int where
  "PAGE_SIZE = 4096"

definition BLOCK_SIZE :: int where
  "BLOCK_SIZE = 1024"

text \<open>The check of the block size; a power of two has no bit in common with its predecessor.\<close>

definition rd_check_blocksize :: "int \<Rightarrow> int" where
  "rd_check_blocksize bs =
     (if bs > PAGE_SIZE \<or> bs < 512 \<or> bs AND (bs - 1) \<noteq> 0 then BLOCK_SIZE else bs)"

text \<open>The first loop, with \<open>i\<close> disks made and \<open>n\<close> to come. \<open>None\<close> is its end, \<open>Some i\<close> the jump to \<open>out\<close>.\<close>

fun rd_alloc :: "kenv \<Rightarrow> nat \<Rightarrow> nat \<Rightarrow> (rd_state, nat option) state" where
  "rd_alloc E i 0 = State_Monad.return None"
| "rd_alloc E i (Suc n) = do {
     d \<leftarrow> ask (e_alloc_disk E i) (KBlk (AllocDisk (e_alloc_disk E i)));
     upd (\<lambda>s. s\<lparr>rd_disks := (rd_disks s)(i := d)\<rparr>);
     (if d = NULL then State_Monad.return (Some i)
      else do {
        q \<leftarrow> ask (e_blk_queue E i) (KBlk (BlkQueue (e_blk_queue E i)));
        upd (\<lambda>s. s\<lparr>rd_queues := (rd_queues s)(i := q)\<rparr>);
        (if q = NULL then do { call (KBlk (PutDisk d)); State_Monad.return (Some i) }
         else rd_alloc E (Suc i) n) }) }"

text \<open>The loop \<open>while (i--)\<close> at \<open>out\<close>.\<close>

fun rd_out :: "nat \<Rightarrow> (rd_state, unit) state" where
  "rd_out 0 = State_Monad.return ()"
| "rd_out (Suc i) = do {
     s \<leftarrow> State_Monad.get;
     call (KBlk (PutDisk (rd_disks s i)));
     call (KBlk (BlkCleanupQueue (rd_queues s i)));
     rd_out i }"

fun rd_add :: "nat \<Rightarrow> nat \<Rightarrow> nat \<Rightarrow> (rd_state, unit) state" where
  "rd_add rd_size i 0 = State_Monad.return ()"
| "rd_add rd_size i (Suc n) = do {
     s \<leftarrow> State_Monad.get;
     upd (\<lambda>s. s\<lparr>rd_capacity := (rd_capacity s)(i := rd_size * 2)\<rparr>);
     call (KBlk (AddDisk (rd_disks s i)));
     rd_add rd_size (Suc i) n }"

definition rd_init :: "nat \<Rightarrow> int \<Rightarrow> nat \<Rightarrow> kenv \<Rightarrow> (rd_state, c_int) state" where
  "rd_init N M rd_size E = do {
     upd (\<lambda>s. s\<lparr>rd_blocksize := rd_check_blocksize (rd_blocksize s)\<rparr>);
     failed \<leftarrow> rd_alloc E 0 N;
     (case failed of
        Some i \<Rightarrow> do { rd_out i; State_Monad.return (Inl ENOMEM) }
      | None \<Rightarrow> do {
          r \<leftarrow> ask (e_register_blkdev E M) (KBlk (RegisterBlkdev M (e_register_blkdev E M)));
          (if r \<noteq> 0 then do { rd_out N; State_Monad.return (Inl EIO) }
           else do { rd_add rd_size 0 N; State_Monad.return (Inr 0) }) }) }"

fun rd_remove :: "nat \<Rightarrow> nat \<Rightarrow> (rd_state, unit) state" where
  "rd_remove i 0 = State_Monad.return ()"
| "rd_remove i (Suc n) = do {
     s \<leftarrow> State_Monad.get;
     upd (\<lambda>s. s\<lparr>rd_bdevs := (rd_bdevs s)(i := NULL)\<rparr>);
     (if rd_bdevs s i \<noteq> NULL then do {
        call (KBlk (InvalidateBdev (rd_bdevs s i)));
        call (KBlk (BlkdevPut (rd_bdevs s i))) } else State_Monad.return ());
     call (KBlk (DelGendisk (rd_disks s i)));
     call (KBlk (PutDisk (rd_disks s i)));
     call (KBlk (BlkCleanupQueue (rd_queues s i)));
     rd_remove (Suc i) n }"

definition rd_cleanup :: "nat \<Rightarrow> int \<Rightarrow> (rd_state, unit) state" where
  "rd_cleanup N M = do { rd_remove 0 N; call (KBlk (UnregisterBlkdev M)) }"

section \<open>Accounting of the loops\<close>

definition held :: "(nat \<Rightarrow> ptr) \<Rightarrow> (nat \<Rightarrow> ptr) \<Rightarrow> nat \<Rightarrow> resource list" where
  "held d q i = concat (map (\<lambda>j. [RQueue (q j), RDisk (d j)]) (rev [0..<i]))"

lemma held_simps [simp]: "held d q 0 = []" "held d q (Suc i) = RQueue (q i) # RDisk (d i) # held d q i"
  by (simp_all add: held_def)

lemma held_update [simp]:
  "i \<le> j \<Longrightarrow> held (d(j := x)) q i = held d q i" "i \<le> j \<Longrightarrow> held d (q(j := x)) i = held d q i"
  by (auto simp: held_def intro!: arg_cong [where f = concat])

text \<open>Where the first loop stops, exactly the disks before that place are held.\<close>

lemma alloc_holds:
  assumes "kfault s = None" and "account [] (ktrace s) = Some (held (rd_disks s) (rd_queues s) i)"
    and "run_state (rd_alloc E i n) s = (f, s')"
  shows "kfault s' = None \<and> account [] (ktrace s') =
    Some (held (rd_disks s') (rd_queues s') (case f of None \<Rightarrow> i + n | Some k \<Rightarrow> k))"
  using assms
proof (induction n arbitrary: i s)
  case (Suc n)
  let ?d = "e_alloc_disk E i" and ?q = "e_blk_queue E i"
  show ?case
  proof (cases "?d = NULL"; cases "?q = NULL")
    assume False: "?d \<noteq> NULL" "?q \<noteq> NULL"
    let ?s = "s\<lparr>rd_disks := (rd_disks s)(i := ?d),
      ktrace := ktrace s @ [KBlk (AllocDisk ?d), KBlk (BlkQueue ?q)],
      rd_queues := (rd_queues s)(i := ?q)\<rparr>"
    from False Suc.prems have run: "run_state (rd_alloc E (Suc i) n) ?s = (f, s')" by simp
    have "held ((rd_disks s)(i := ?d)) ((rd_queues s)(i := ?q)) i = held (rd_disks s) (rd_queues s) i"
      by simp
    then have acct: "account [] (ktrace ?s) = Some (held (rd_disks ?s) (rd_queues ?s) (Suc i))"
      using Suc.prems(2) False by (simp add: account_append del: fun_upd_apply) simp
    have "kfault ?s = None" using Suc.prems(1) by simp
    from Suc.IH [OF this acct run] show ?thesis by (cases f) simp_all
  qed (use Suc.prems in \<open>auto simp: account_append simp del: fun_upd_apply\<close>)
qed simp

lemma out_releases:
  assumes "kfault s = None" and "account [] (ktrace s) = Some (held (rd_disks s) (rd_queues s) i)"
  shows "no_leak (ktrace (snd (run_state (rd_out i) s)))"
  using assms by (induction i arbitrary: s) (simp_all add: no_leak_def account_append)

definition disk_resources :: "(nat \<Rightarrow> ptr) \<Rightarrow> (nat \<Rightarrow> ptr) \<Rightarrow> nat \<Rightarrow> resource multiset" where
  "disk_resources d q j = {#RDiskAdded (d j), RDisk (d j), RQueue (q j)#}"

lemma held_mset:
  "mset (held d q n) + image_mset (\<lambda>j. RDiskAdded (d j)) (mset [0..<n]) =
     sum_list (map (disk_resources d q) [0..<n])"
  by (induction n) (simp_all add: disk_resources_def)

lemma add_holds:
  assumes "kfault s = None" and "account [] (ktrace s) = Some R"
  shows "\<exists>R' s'. run_state (rd_add sz i n) s = ((), s') \<and> kfault s' = None \<and>
    rd_disks s' = rd_disks s \<and> rd_queues s' = rd_queues s \<and> account [] (ktrace s') = Some R' \<and>
    mset R' = mset R + image_mset (\<lambda>j. RDiskAdded (rd_disks s j)) (mset [i..<i + n])"
  using assms
proof (induction n arbitrary: i s R)
  case (Suc n)
  let ?s = "s\<lparr>rd_capacity := (rd_capacity s)(i := sz * 2),
    ktrace := ktrace s @ [KBlk (AddDisk (rd_disks s i))]\<rparr>"
  have "account [] (ktrace ?s) = Some (RDiskAdded (rd_disks s i) # R)"
    using Suc.prems by (simp add: account_append)
  with Suc.IH [of ?s _ "Suc i"] Suc.prems show ?case
    by (auto simp: upt_conv_Cons simp del: upt_Suc)
qed simp

lemma remove_releases:
  assumes "kfault s = None"
    and "holds (ktrace s) (sum_list (map (disk_resources (rd_disks s) (rd_queues s)) [i..<i + n]) + M)"
  shows "\<exists>s'. run_state (rd_remove i n) s = ((), s') \<and> kfault s' = None \<and> holds (ktrace s') M"
  using assms
proof (induction n arbitrary: i s)
  case (Suc n)
  let ?d = "rd_disks s i" and ?q = "rd_queues s i" and ?b = "rd_bdevs s i"
  let ?t = "ktrace s @ (if ?b = NULL then [] else [KBlk (InvalidateBdev ?b), KBlk (BlkdevPut ?b)])"
  let ?s = "s\<lparr>rd_bdevs := (rd_bdevs s)(i := NULL),
    ktrace := ?t @ [KBlk (DelGendisk ?d), KBlk (PutDisk ?d), KBlk (BlkCleanupQueue ?q)]\<rparr>"
  let ?rest = "sum_list (map (disk_resources (rd_disks s) (rd_queues s)) [Suc i..<Suc i + n]) + M"
  have "holds ?t (add_mset (RDiskAdded ?d) (add_mset (RDisk ?d) (add_mset (RQueue ?q) ?rest)))"
    using Suc.prems(2) holds_neutral [of "KBlk (BlkdevPut ?b)" "ktrace s @ [KBlk (InvalidateBdev ?b)]"]
    by (simp add: upt_conv_Cons disk_resources_def [of _ _ i] del: upt_Suc)
  then have "holds (?t @ [KBlk (DelGendisk ?d)]) (add_mset (RDisk ?d) (add_mset (RQueue ?q) ?rest))"
    by (rule holds_release) simp_all
  then have "holds ((?t @ [KBlk (DelGendisk ?d)]) @ [KBlk (PutDisk ?d)]) (add_mset (RQueue ?q) ?rest)"
    by (rule holds_release) simp_all
  then have "holds (((?t @ [KBlk (DelGendisk ?d)]) @ [KBlk (PutDisk ?d)]) @ [KBlk (BlkCleanupQueue ?q)]) ?rest"
    by (rule holds_release) simp_all
  then have "holds (ktrace ?s) (sum_list (map (disk_resources (rd_disks ?s) (rd_queues ?s)) [Suc i..<Suc i + n]) + M)"
    by (simp del: upt_Suc)
  moreover have "kfault ?s = None" using Suc.prems(1) by simp
  moreover have "run_state (rd_remove i (Suc n)) s = run_state (rd_remove (Suc i) n) ?s"
    using Suc.prems(1) by simp
  ultimately show ?case using Suc.IH [of ?s "Suc i"] by (simp only:)
qed simp

section \<open>Loading and unloading\<close>

lemma block_size_checked:
  "512 \<le> rd_check_blocksize bs \<and> rd_check_blocksize bs \<le> PAGE_SIZE \<and>
   rd_check_blocksize bs AND (rd_check_blocksize bs - 1) = 0"
  by (simp add: rd_check_blocksize_def PAGE_SIZE_def BLOCK_SIZE_def)

lemma init_fails_balanced:
  assumes "run_state (rd_init N M sz E) (rd_initial bs) = (Inl e, s)"
    and "e_register_blkdev E M \<le> 0"
  shows "no_leak (ktrace s)"
proof -
  let ?s = "(rd_initial bs)\<lparr>rd_blocksize := rd_check_blocksize bs\<rparr>"
  obtain f s1 where run: "run_state (rd_alloc E 0 N) ?s = (f, s1)" by fastforce
  have "kfault ?s = None" "account [] (ktrace ?s) = Some (held (rd_disks ?s) (rd_queues ?s) 0)"
    by (simp_all add: rd_initial_def)
  note a = alloc_holds [OF this run]
  show ?thesis
  proof (cases f)
    case (Some k)
    with assms(1) run have "s = snd (run_state (rd_out k) s1)"
      by (auto simp: rd_init_def rd_initial_def split: prod.splits)
    with out_releases [of s1 k] a Some show ?thesis by simp
  next
    case None
    let ?r = "e_register_blkdev E M"
    let ?s1 = "s1\<lparr>ktrace := ktrace s1 @ [KBlk (RegisterBlkdev M ?r)]\<rparr>"
    have "?r \<noteq> 0"
      using assms(1) run a None by (auto simp: rd_init_def rd_initial_def split: prod.splits)
    moreover from this assms(1) run a None have "s = snd (run_state (rd_out N) ?s1)"
      by (auto simp: rd_init_def rd_initial_def split: prod.splits)
    ultimately show ?thesis
      using out_releases [of ?s1 N] a None assms(2) by (simp add: account_append)
  qed
qed

lemma init_cleanup_balanced:
  assumes "run_state (rd_init N M sz E) (rd_initial bs) = (Inr r, s)" and "M \<noteq> 0"
  shows "no_leak (ktrace (snd (run_state (rd_cleanup N M) s)))"
proof -
  let ?s = "(rd_initial bs)\<lparr>rd_blocksize := rd_check_blocksize bs\<rparr>"
  obtain f s1 where run: "run_state (rd_alloc E 0 N) ?s = (f, s1)" by fastforce
  have "kfault ?s = None" "account [] (ktrace ?s) = Some (held (rd_disks ?s) (rd_queues ?s) 0)"
    by (simp_all add: rd_initial_def)
  note a = alloc_holds [OF this run]
  let ?s1 = "s1\<lparr>ktrace := ktrace s1 @ [KBlk (RegisterBlkdev M 0)]\<rparr>"
  let ?R = "RBlkdev M # held (rd_disks s1) (rd_queues s1) N"
  have f: "f = None" and s: "s = snd (run_state (rd_add sz 0 N) ?s1)"
    using assms(1) run a by (auto simp: rd_init_def rd_initial_def split: prod.splits option.splits if_splits)
  have "account [] (ktrace ?s1) = Some ?R" using a f assms(2) by (simp add: account_append)
  from add_holds [OF _ this, of sz 0 N] a s obtain R' where R': "kfault s = None"
    "rd_disks s = rd_disks s1" "rd_queues s = rd_queues s1" "account [] (ktrace s) = Some R'"
    "mset R' = mset ?R + image_mset (\<lambda>j. RDiskAdded (rd_disks s1 j)) (mset [0..<N])"
    by auto
  have "mset R' = sum_list (map (disk_resources (rd_disks s) (rd_queues s)) [0..<0 + N]) + {#RBlkdev M#}"
    unfolding R'(2,3,5) using held_mset [of "rd_disks s1" "rd_queues s1" N] by (simp add: ac_simps)
  with R'(4) have "holds (ktrace s)
      (sum_list (map (disk_resources (rd_disks s) (rd_queues s)) [0..<0 + N]) + {#RBlkdev M#})"
    unfolding holds_def by blast
  from remove_releases [OF R'(1) this] show ?thesis
    by (auto simp: rd_cleanup_def simp flip: holds_no_leak) (erule holds_release; simp)
qed

definition rd_good :: "int \<Rightarrow> kenv \<Rightarrow> bool" where
  "rd_good M E \<longleftrightarrow> M \<noteq> 0 \<and> e_register_blkdev E M \<le> 0"

interpretation ramdisk_mod:
  module_contract "rd_init N M sz" "rd_cleanup N M" "rd_initial bs" ktrace "rd_good M" for N M sz bs
  by unfold_locales (auto simp: rd_good_def intro: init_fails_balanced init_cleanup_balanced)

text \<open>
  C17: for every number of disks, a load of the RAM disk driver that fails anywhere (no memory for
  the disk structure or the queue of any unit, no major number) gives back all disks and queues made so
  far, and a load followed by \<open>rd_cleanup\<close> gives back everything, whatever addresses the kernel hands out.
  A failed load answers \<open>-ENOMEM\<close> or, without the major number, \<open>-EIO\<close>.
\<close>

theorem ramdisk_life:
  assumes "rd_good M E"
  shows "no_leak (ktrace (module_life (rd_init N M sz E) (rd_cleanup N M) (rd_initial bs))) \<and>
    (fst (run_state (rd_init N M sz E) (rd_initial bs)) = Inr 0 \<or>
     fst (run_state (rd_init N M sz E) (rd_initial bs)) = Inl ENOMEM \<or>
     fst (run_state (rd_init N M sz E) (rd_initial bs)) = Inl EIO \<and> e_register_blkdev E M \<noteq> 0)"
proof
  show "no_leak (ktrace (module_life (rd_init N M sz E) (rd_cleanup N M) (rd_initial bs)))"
    by (rule ramdisk_mod.life_balanced [OF assms])
  let ?s = "(rd_initial bs)\<lparr>rd_blocksize := rd_check_blocksize bs\<rparr>"
  obtain f s1 where run: "run_state (rd_alloc E 0 N) ?s = (f, s1)" by fastforce
  have "kfault ?s = None" "account [] (ktrace ?s) = Some (held (rd_disks ?s) (rd_queues ?s) 0)"
    by (simp_all add: rd_initial_def)
  from alloc_holds [OF this run] run
  show "fst (run_state (rd_init N M sz E) (rd_initial bs)) = Inr 0 \<or>
     fst (run_state (rd_init N M sz E) (rd_initial bs)) = Inl ENOMEM \<or>
     fst (run_state (rd_init N M sz E) (rd_initial bs)) = Inl EIO \<and> e_register_blkdev E M \<noteq> 0"
    by (auto simp: rd_init_def rd_initial_def split: option.split prod.split)
qed

theorem ramdisk_life_witness:
  "no_leak (ktrace (module_life (rd_init 16 1 4096 sample_env) (rd_cleanup 16 1) (rd_initial 1024)))"
  by (rule conjunct1 [OF ramdisk_life]) (simp add: rd_good_def sample_env_def)

end
