(* ===== verification/Ramdisk_File.thy ===== *)
theory Ramdisk_File
  imports Ramdisk_Init
begin

text \<open>
  The tables of \<open>src/ex_source/ramdisk_ym.c\<close> and what the memory management does through them. A program reads
  and writes the device file through the page cache and \<open>ramdisk_aops\<close>, a file system sends bios to
  \<open>rd_make_request\<close>, and under memory pressure the kernel gives pages back: clean ones it drops, dirty ones it
  offers to \<open>writepage\<close>. There is no other copy of the data, so the driver lives from the invariant \<open>clean_cache\<close>: a
  page that is not dirty contains zeros. \<open>ram_step\<close> has one rule per event; the kernel's part of it is what
  \<open>Documentation/filesystems/vfs.txt\<close> says of the operations.
\<close>

section \<open>The tables\<close>

record page_ops =
  ao_readpage :: "page \<Rightarrow> c_int \<times> page"
  ao_prepare_write :: "page \<Rightarrow> nat \<Rightarrow> nat \<Rightarrow> c_int \<times> page"
  ao_commit_write :: "page \<Rightarrow> nat \<Rightarrow> nat \<Rightarrow> c_int \<times> page"
  ao_writepage :: "page \<Rightarrow> bool \<Rightarrow> writepage_answer \<times> page"
  ao_set_page_dirty :: "page \<Rightarrow> nat \<times> page"
  ao_writepages :: "page_map \<Rightarrow> c_int \<times> page_map"

definition ramdisk_aops :: page_ops where
  "ramdisk_aops = \<lparr>ao_readpage = ramdisk_readpage, ao_prepare_write = ramdisk_prepare_write,
     ao_commit_write = ramdisk_commit_write, ao_writepage = ramdisk_writepage,
     ao_set_page_dirty = ramdisk_set_page_dirty, ao_writepages = ramdisk_writepages\<rparr>"

datatype bdi_cap = BDI_CAP_NO_ACCT_DIRTY | BDI_CAP_NO_WRITEBACK | BDI_CAP_MAP_COPY

record backing_dev_info =
  ra_pages :: nat
  capabilities :: "bdi_cap list"

definition rd_backing_dev_info :: backing_dev_info where
  "rd_backing_dev_info = \<lparr>ra_pages = 0,
     capabilities = [BDI_CAP_NO_ACCT_DIRTY, BDI_CAP_NO_WRITEBACK, BDI_CAP_MAP_COPY]\<rparr>"

definition rd_file_backing_dev_info :: backing_dev_info where
  "rd_file_backing_dev_info = \<lparr>ra_pages = 0, capabilities = [BDI_CAP_MAP_COPY]\<rparr>"

record block_ops =
  bo_open :: "u32 \<times> u32 \<times> u32 \<Rightarrow> (u32 \<Rightarrow> u32) \<Rightarrow> u32 \<Rightarrow> u32 \<Rightarrow> ptr \<Rightarrow> nat \<Rightarrow> ptr list \<times> rd_node \<Rightarrow>
    fault + c_int \<times> ptr list \<times> rd_node"
  bo_ioctl :: "c_int \<Rightarrow> nat \<Rightarrow> u32 \<Rightarrow> page_map \<Rightarrow> c_int \<times> page_map"

definition rd_bd_op :: block_ops where
  "rd_bd_op = \<lparr>bo_open = rd_open, bo_ioctl = rd_ioctl\<rparr>"

fun bdi_of :: "backing \<Rightarrow> backing_dev_info option" where
  "bdi_of BDI_RD = Some rd_backing_dev_info"
| "bdi_of BDI_RD_FILE = Some rd_file_backing_dev_info"
| "bdi_of BDI_DEFAULT = None"

text \<open>
  A unit that was opened is not written back and not counted as dirty; the files on it are.
\<close>

lemma opened_not_written_back:
  assumes "unit < length bdevs" and "bdevs ! unit = NULL"
    and "bo_open rd_bd_op f bits h cap bdev unit (bdevs, n) = Inr (r, s)"
  shows "\<exists>b c. bdi_of (mapping_bdi (snd s)) = Some b \<and> bdi_of (inode_bdi (snd s)) = Some c \<and>
    {BDI_CAP_NO_WRITEBACK, BDI_CAP_NO_ACCT_DIRTY} \<subseteq> set (capabilities b) \<and>
    {BDI_CAP_NO_WRITEBACK, BDI_CAP_NO_ACCT_DIRTY} \<inter> set (capabilities c) = {}"
  using assms by (auto simp: rd_bd_op_def rd_open_def rd_backing_dev_info_def rd_file_backing_dev_info_def
      split: prod.splits if_splits)

section \<open>Events\<close>

text \<open>
  \<open>FileWrite i off d\<close>: \<open>write(2)\<close> of bytes inside page \<open>i\<close>; \<open>FileRead i d\<close>: page \<open>i\<close> is read, with answer \<open>d\<close>;
  \<open>BioWrite\<close>, \<open>BioRead\<close>: the same in sectors, as bios; \<open>Drop i\<close>: a clean page is given back; \<open>Clean i for_reclaim\<close>:
  a dirty page is offered to \<open>writepage\<close>; \<open>Sync\<close>: the mapping is written back.
\<close>

datatype ram_event = FileWrite u32 nat "u8 list" | FileRead u32 "u8 list" | BioWrite nat "u8 list"
  | BioRead nat nat "u8 list" | Drop u32 | Clean u32 bool | Sync

abbreviation unlocked :: "page \<Rightarrow> page" where
  "unlocked p \<equiv> p\<lparr>pg_locked := False\<rparr>"

inductive ram_step :: "grabber \<Rightarrow> nat \<Rightarrow> page_map \<Rightarrow> ram_event \<Rightarrow> page_map \<Rightarrow> bool"
  for G :: grabber and cap :: nat where
  file_write: "off + length d \<le> 4096 \<Longrightarrow> G m i = Some p \<Longrightarrow>
    ao_prepare_write ramdisk_aops p off (off + length d) = (Inr r, p1) \<Longrightarrow>
    ao_commit_write ramdisk_aops (p1\<lparr>pg_data := overwrite (pg_data p1) off d\<rparr>) off (off + length d) = (Inr r', p2) \<Longrightarrow>
    ram_step G cap m (FileWrite i off d) (m(i \<mapsto> unlocked p2))"
| file_read: "G m i = Some p \<Longrightarrow> p1 = (if pg_uptodate p then p else snd (ao_readpage ramdisk_aops p)) \<Longrightarrow>
    ram_step G cap m (FileRead i (pg_data p1)) (m(i \<mapsto> unlocked p1))"
| bio_write: "in_capacity cap (i, d) \<Longrightarrow>
    rd_make_request G (of_nat cap) (sector_bio i WRITE d) m = Inr (r, m', vs) \<Longrightarrow>
    ram_step G cap m (BioWrite i d) m'"
| bio_read: "i + n \<le> cap \<Longrightarrow>
    rd_make_request G (of_nat cap) (sector_bio i READ (replicate (512 * n) 0)) m = Inr (r, m', vs) \<Longrightarrow>
    ram_step G cap m (BioRead i n (concat (map seg_data vs))) m'"
| drop_page: "m i = Some p \<Longrightarrow> \<not> pg_dirty p \<Longrightarrow> ram_step G cap m (Drop i) (m(i := None))"
| clean_page: "m i = Some p \<Longrightarrow> pg_dirty p \<Longrightarrow>
    ao_writepage ramdisk_aops (p\<lparr>pg_dirty := False, pg_locked := True\<rparr>) for_reclaim = (a, p') \<Longrightarrow>
    ram_step G cap m (Clean i for_reclaim) (m(i \<mapsto> unlocked p'))"
| sync: "ao_writepages ramdisk_aops m = (r, m') \<Longrightarrow> ram_step G cap m Sync m'"

inductive ram_run :: "grabber \<Rightarrow> nat \<Rightarrow> page_map \<Rightarrow> ram_event list \<Rightarrow> page_map \<Rightarrow> bool"
  for G :: grabber and cap :: nat where
  no_event: "ram_run G cap m [] m"
| event: "ram_step G cap m e m' \<Longrightarrow> ram_run G cap m' es m'' \<Longrightarrow> ram_run G cap m (e # es) m''"

text \<open>The device as an array of bytes.\<close>

fun array_step :: "(nat \<Rightarrow> u8) \<Rightarrow> ram_event \<Rightarrow> nat \<Rightarrow> u8" where
  "array_step f (FileWrite i off d) = patched f (4096 * unat i + off) d"
| "array_step f (BioWrite i d) = patched f (512 * i) d"
| "array_step f e = f"

fun answer_right :: "(nat \<Rightarrow> u8) \<Rightarrow> ram_event \<Rightarrow> bool" where
  "answer_right f (FileRead i d) \<longleftrightarrow> d = map f [4096 * unat i..<4096 * unat i + 4096]"
| "answer_right f (BioRead i n d) \<longleftrightarrow> d = map f [512 * i..<512 * i + 512 * n]"
| "answer_right f e \<longleftrightarrow> True"

fun answers_right :: "(nat \<Rightarrow> u8) \<Rightarrow> ram_event list \<Rightarrow> bool" where
  "answers_right f [] \<longleftrightarrow> True"
| "answers_right f (e # es) \<longleftrightarrow> answer_right f e \<and> answers_right (array_step f e) es"

section \<open>Clean pages are empty\<close>

definition page_clean :: "page \<Rightarrow> bool" where
  "page_clean p \<longleftrightarrow> (\<not> pg_dirty p \<longrightarrow> page_bytes p = replicate 4096 0)"

definition clean_cache :: "page_map \<Rightarrow> bool" where
  "clean_cache m \<longleftrightarrow> (\<forall>i p. m i = Some p \<longrightarrow> page_clean p)"

lemma page_bytes_unlocked [simp]: "page_bytes (unlocked p) = page_bytes p"
  by (auto simp: page_bytes_def make_page_uptodate_def split: option.split prod.split)

lemma page_bytes_uptodate_eq [simp]: "page_bytes (uptodate p) = page_bytes p"
  by (simp add: uptodate_def page_bytes_def)

lemma dirty_uptodate [simp]: "pg_dirty (uptodate p) = pg_dirty p"
  by (simp add: uptodate_def make_page_uptodate_def split: option.split prod.split)

lemma page_clean_simps [simp]:
  "page_clean (unlocked p) = page_clean p" "page_clean (uptodate p) = page_clean p"
  "pg_dirty p \<Longrightarrow> page_clean p"
  by (simp_all add: page_clean_def)

lemma clean_cache_update [simp]: "clean_cache m \<Longrightarrow> page_clean p \<Longrightarrow> clean_cache (m(i \<mapsto> p))"
  by (simp add: clean_cache_def)

lemma grabbed_clean:
  assumes "page_cache G" and "clean_cache m" and "G m i = Some p"
  shows "page_clean p"
  using page_cache.present [OF assms(1), of m i] page_cache.fresh [OF assms(1), of m i p] assms(2,3)
  by (cases "m i") (auto simp: clean_cache_def page_clean_def page_bytes_def make_page_uptodate_def PAGE_CACHE_SIZE_def)

lemma copy_clean:
  assumes "page_cache G" and "rd_copy G rw index offset sz vo m vec = Inr (r, m', vec')" and "clean_cache m"
    and "offset < 4096"
  shows "clean_cache m'"
  using assms(2-)
proof (induction sz arbitrary: index offset vo m vec rule: less_induct)
  case (less sz)
  show ?case
  proof (cases "G m index")
    case None
    with less.prems show ?thesis by (simp add: copy_no_page)
  next
    case (Some p)
    define c where "c = min (4096 - offset) sz"
    define q where "q = (if rw = READ then unlocked (uptodate p) else unlocked ((uptodate p)
      \<lparr>pg_data := overwrite (page_bytes p) offset (slice vo c (bv_page vec)), pg_dirty := True\<rparr>))"
    define v where "v = (if rw = READ then vec\<lparr>bv_page := overwrite (bv_page vec) vo (slice offset c (page_bytes p))\<rparr>
      else vec)"
    have "page_clean q"
      using grabbed_clean [OF assms(1) less.prems(2) Some] by (simp add: q_def)
    then have m: "clean_cache (m(index \<mapsto> q))" using less.prems(2) by simp
    have "(if sz - c = 0 then Inr (Inr 0, m(index \<mapsto> q), v)
        else rd_copy G rw (index + 1) 0 (sz - c) (vo + c) (m(index \<mapsto> q)) v) = Inr (r, m', vec')"
      using less.prems(1) Some
      by (subst (asm) rd_copy.simps) (auto simp: Let_def ramdisk_set_page_dirty_def uptodate_def [symmetric]
          PAGE_CACHE_SIZE_def c_def [symmetric] q_def v_def split: if_split_asm)
    then consider "m(index \<mapsto> q) = m'" | "c < sz"
      "rd_copy G rw (index + 1) 0 (sz - c) (vo + c) (m(index \<mapsto> q)) v = Inr (r, m', vec')"
      by (auto split: if_split_asm)
    then show ?thesis
    proof cases
      case 2
      moreover have "sz - c < sz" using 2(1) less.prems(3) by (simp add: c_def)
      ultimately show ?thesis using less.IH [OF _ 2(2) m] by simp
    qed (use m in simp)
  qed
qed

lemma map_sum_Inr: "map_sum id f x = Inr y \<longleftrightarrow> (\<exists>z. x = Inr z \<and> y = f z)"
  by (cases x) auto

lemma segments_clean:
  assumes "page_cache G" and "rd_segments G rw sector m vs = Inr (ok, m', vs')" and "clean_cache m"
  shows "clean_cache m'"
  using assms(2,3)
proof (induction vs arbitrary: sector m ok vs')
  case (Cons v vs)
  from Cons.prems(1) obtain r m1 v1 ok1 vs1 where one: "rd_blkdev_pagecache_IO G rw v sector m = Inr (r, m1, v1)"
    and rest: "rd_segments G rw (sector + of_nat (bv_len v div 512)) m1 vs = Inr (ok1, m', vs1)"
    by (force simp: map_sum_Inr split: sum.splits)
  from copy_clean [OF assms(1) one [unfolded rd_blkdev_pagecache_IO_def] Cons.prems(2) sector_position(2)]
  show ?case by (rule Cons.IH [OF rest])
qed simp

lemma request_clean:
  assumes "page_cache G" and "rd_make_request G capacity b m = Inr (r, m', vs)" and "clean_cache m"
  shows "clean_cache m'"
  using assms(2,3) segments_clean [OF assms(1), of _ _ m]
  by (auto simp: rd_make_request_def Let_def map_sum_Inr split: if_splits)

section \<open>The device is an array of bytes\<close>

definition ram_inv :: "(nat \<Rightarrow> u8) \<Rightarrow> page_map \<Rightarrow> bool" where
  "ram_inv f m \<longleftrightarrow> cache_ok m \<and> clean_cache m \<and> (\<forall>k < 4096 * 2 ^ 32. rd_content m k = f k)"

lemma page_ok_unlocked [simp]: "page_ok (p\<lparr>pg_dirty := d, pg_locked := l\<rparr>) = page_ok p"
  "page_ok (unlocked p) = page_ok p"
  by (simp_all add: page_ok_def)

lemma same_bytes: "m i = Some p \<Longrightarrow> page_bytes q = page_bytes p \<Longrightarrow> rd_content (m(i \<mapsto> q)) = rd_content m"
  by (simp add: rd_content_def fun_eq_iff)

lemma aops_run:
  "ramdisk_prepare_write p a b = (Inr 0, uptodate p)"
  "ramdisk_commit_write p a b = (Inr 0, p\<lparr>pg_dirty := True\<rparr>)"
  "snd (ramdisk_readpage p) = unlocked (uptodate p)"
  "unlocked (snd (ramdisk_writepage p r)) = unlocked ((uptodate p)\<lparr>pg_dirty := True\<rparr>)"
  by (simp_all add: ramdisk_prepare_write_def ramdisk_commit_write_def ramdisk_set_page_dirty_def
      ramdisk_readpage_def ramdisk_writepage_def uptodate_def Let_def)

context roomy_cache
begin

lemma written_page:
  assumes "ram_inv f m" and "G m i = Some p" and "off + length d \<le> 4096"
  shows "ram_inv (patched f (4096 * unat i + off) d) (m(i \<mapsto> put_bytes off d p))"
proof -
  have m: "cache_ok m" "clean_cache m" "\<forall>k < 4096 * 2 ^ 32. rd_content m k = f k"
    using assms(1) by (simp_all add: ram_inv_def)
  have "page_clean (put_bytes off d p)" by (simp add: put_bytes_def)
  with m grabbed_ok [OF m(1) assms(2)] put_content [OF m(1) assms(2,3)] assms(3) show ?thesis
    by (simp add: ram_inv_def patched_def)
qed

lemma read_page:
  assumes "ram_inv f m" and "G m i = Some p"
  shows "page_bytes p = map f [4096 * unat i..<4096 * unat i + 4096]"
    and "ram_inv f (m(i \<mapsto> unlocked (uptodate p)))"
proof -
  have m: "cache_ok m" "clean_cache m" "\<forall>k < 4096 * 2 ^ 32. rd_content m k = f k"
    using assms(1) by (simp_all add: ram_inv_def)
  have p: "page_ok p" "page_clean p"
    using grabbed_ok [OF m(1) assms(2)] grabbed_clean [OF page_cache_axioms m(2) assms(2)] .
  have "unat i < 2 ^ 32" by (rule order_less_le_trans [OF unsigned_less]) simp
  then have "map (rd_content m) [4096 * unat i..<4096 * unat i + 4096] = map f [4096 * unat i..<4096 * unat i + 4096]"
    using m(3) by (intro map_cong) auto
  with page_slice [OF m(1) assms(2), of 0 4096] p(1) show
    "page_bytes p = map f [4096 * unat i..<4096 * unat i + 4096]" by (simp add: slice_def)
  show "ram_inv f (m(i \<mapsto> unlocked (uptodate p)))"
    using m p touch_content [OF assms(2)] by (simp add: ram_inv_def)
qed

lemma sim_file:
  assumes "ram_inv f m" and "ram_step G cap m e m'" and "e = FileWrite i off d \<or> e = FileRead i d"
  shows "answer_right f e \<and> ram_inv (array_step f e) m'"
  using assms(2)
proof cases
  case (file_write off d i p r p1 r' p2)
  from file_write(5,6) have "unlocked p2 = put_bytes off d p"
    by (auto simp: ramdisk_aops_def aops_run put_bytes_def)
  with written_page [OF assms(1) file_write(4,3)] show ?thesis by (simp add: file_write(1,2))
next
  case (file_read i p p1)
  have "unlocked p1 = unlocked (uptodate p)" "pg_data p1 = page_bytes p"
    by (simp_all add: file_read(4) ramdisk_aops_def aops_run uptodate_def page_bytes_def)
  with read_page [OF assms(1) file_read(3)] show ?thesis by (simp add: file_read(1,2))
qed (use assms(3) in simp_all)

lemma sim_bio:
  assumes "ram_inv f m" and "ram_step G cap m e m'" and "e = BioWrite i d \<or> e = BioRead i n d"
  shows "answer_right f e \<and> ram_inv (array_step f e) m'"
  using assms(2)
proof cases
  case (bio_write i d r vs)
  have m: "cache_ok m" "clean_cache m" "\<forall>k < 4096 * 2 ^ 32. rd_content m k = f k"
    using assms(1) by (simp_all add: ram_inv_def)
  have "i + length d div 512 \<le> cap" "length d = 512 * (length d div 512)"
    using bio_write(2) by (auto simp: in_capacity_def)
  from sector_request [OF m(1) this, of WRITE] bio_write(3) have
    "io_done G WRITE (512 * i) m [\<lparr>bv_page = d, bv_offset = 0, bv_len = length d\<rparr>] True m' vs" by auto
  moreover have "clean_cache m'" by (rule request_clean [OF page_cache_axioms bio_write(3) m(2)])
  ultimately show ?thesis
    using m(3) by (auto simp: bio_write(1) ram_inv_def io_done_def seg_data_def slice_def intro: patched_cong)
next
  case (bio_read i n r vs)
  have m: "cache_ok m" "clean_cache m" "\<forall>k < 4096 * 2 ^ 32. rd_content m k = f k"
    using assms(1) by (simp_all add: ram_inv_def)
  from sector_request [OF m(1) bio_read(2), of "replicate (512 * n) 0" READ] bio_read(3) have
    "io_done G READ (512 * i) m [\<lparr>bv_page = replicate (512 * n) 0, bv_offset = 0, bv_len = 512 * n\<rparr>] True m' vs"
    by auto
  moreover have "clean_cache m'" by (rule request_clean [OF page_cache_axioms bio_read(3) m(2)])
  moreover have "map (rd_content m) [512 * i..<512 * i + 512 * n] = map f [512 * i..<512 * i + 512 * n]"
    using m(3) bio_read(2) small by (intro map_cong) auto
  ultimately show ?thesis
    using m(3) by (simp add: bio_read(1) ram_inv_def io_done_def seg_total_def)
qed (use assms(3) in simp_all)

lemma sim_vm:
  assumes "ram_inv f m" and "ram_step G cap m e m'" and "e = Drop i \<or> e = Clean i w \<or> e = Sync"
  shows "answer_right f e \<and> ram_inv (array_step f e) m'"
  using assms(2)
proof cases
  case (drop_page i p)
  with assms(1) have "page_bytes p = replicate 4096 0"
    by (auto simp: ram_inv_def clean_cache_def page_clean_def)
  then have "rd_content (m(i := None)) = rd_content m"
    using drop_page(3) by (auto simp: rd_content_def fun_eq_iff)
  with assms(1) show ?thesis by (auto simp: drop_page(1,2) ram_inv_def cache_ok_def clean_cache_def)
next
  case (clean_page i p w a p')
  let ?q = "p\<lparr>pg_dirty := False, pg_locked := True\<rparr>"
  have q: "unlocked p' = unlocked ((uptodate ?q)\<lparr>pg_dirty := True\<rparr>)"
    using clean_page(5) aops_run(4) [of ?q w] by (simp add: ramdisk_aops_def)
  have "page_bytes ?q = page_bytes p"
    by (auto simp: page_bytes_def make_page_uptodate_def split: option.split prod.split)
  then have "page_bytes (unlocked p') = page_bytes p" "pg_dirty (unlocked p')"
    unfolding q by (simp_all add: page_bytes_def)
  moreover have "page_ok (unlocked p')"
    using assms(1) clean_page(3) uptodate_ok(1) [of ?q] by (auto simp: q ram_inv_def cache_ok_def page_ok_def)
  ultimately show ?thesis
    using assms(1) same_bytes [of m i p "unlocked p'"] clean_page(3) by (simp add: clean_page(1,2) ram_inv_def)
next
  case (sync r)
  with assms(1) show ?thesis by (simp add: ramdisk_aops_def ramdisk_writepages_def)
qed (use assms(3) in simp_all)

lemma ram_step_sim:
  assumes "ram_inv f m" and "ram_step G cap m e m'"
  shows "answer_right f e \<and> ram_inv (array_step f e) m'"
  by (cases e) (use sim_file [OF assms] sim_bio [OF assms] sim_vm [OF assms] in auto)

lemma ram_run_sim: "ram_run G cap m es m' \<Longrightarrow> ram_inv f m \<Longrightarrow> answers_right f es \<and> (\<exists>g. ram_inv g m')"
proof (induction arbitrary: f rule: ram_run.induct)
  case (event m e m' es m'')
  from ram_step_sim [OF event.prems event.hyps(1)] event.IH show ?case by auto
qed auto

lemma enabled:
  assumes "cache_ok m"
  shows "off + length d \<le> 4096 \<Longrightarrow> \<exists>m'. ram_step G cap m (FileWrite i off d) m'"
    and "\<exists>b m'. ram_step G cap m (FileRead i b) m'"
    and "in_capacity cap (j, d) \<Longrightarrow> \<exists>m'. ram_step G cap m (BioWrite j d) m'"
    and "j + n \<le> cap \<Longrightarrow> \<exists>b m'. ram_step G cap m (BioRead j n b) m'"
proof -
  obtain p where p: "G m i = Some p" using room [of m i] by blast
  show "off + length d \<le> 4096 \<Longrightarrow> \<exists>m'. ram_step G cap m (FileWrite i off d) m'"
    by (rule exI, rule file_write [where G = G and m = m and i = i, OF _ p])
      (simp_all add: ramdisk_aops_def aops_run)
  show "\<exists>b m'. ram_step G cap m (FileRead i b) m'" using file_read [where G = G and m = m and i = i, OF p refl] by blast
  show "\<exists>m'. ram_step G cap m (BioWrite j d) m'" if d: "in_capacity cap (j, d)"
  proof -
    have "j + length d div 512 \<le> cap" "length d = 512 * (length d div 512)"
      using d by (auto simp: in_capacity_def)
    from sector_request [OF assms this, of WRITE] bio_write [OF d] show ?thesis by blast
  qed
  show "\<exists>b m'. ram_step G cap m (BioRead j n b) m'" if n: "j + n \<le> cap"
    using sector_request [OF assms n length_replicate, of READ] bio_read [OF n] by blast
qed

end

text \<open>
  C6: The RAM disk keeps its data under memory pressure. Over a page cache that finds a page when asked
  for one, start with an empty cache and take any run in which programs read and write the device file through
  \<open>ramdisk_aops\<close>, bios read and write sectors, the kernel drops clean pages, offers dirty ones to
  \<open>ramdisk_writepage\<close> (for reclaim or not) and writes the mapping back. Every answer is that of one array of
  bytes that starts with zeros and that both kinds of writes change; and after the run every read and write
  inside the device can go on.
\<close>

theorem ramdisk_keeps_data:
  assumes "roomy_cache G cap" and "ram_run G cap (\<lambda>_. None) es m"
  shows "answers_right (\<lambda>_. 0) es \<and>
    (\<forall>i off d. off + length d \<le> 4096 \<longrightarrow> (\<exists>m'. ram_step G cap m (FileWrite i off d) m')) \<and>
    (\<forall>i. \<exists>b m'. ram_step G cap m (FileRead i b) m') \<and>
    (\<forall>j d. in_capacity cap (j, d) \<longrightarrow> (\<exists>m'. ram_step G cap m (BioWrite j d) m')) \<and>
    (\<forall>j n. j + n \<le> cap \<longrightarrow> (\<exists>b m'. ram_step G cap m (BioRead j n b) m'))"
proof -
  have "ram_inv (\<lambda>_. 0) (\<lambda>_. None)" by (simp add: ram_inv_def clean_cache_def)
  from roomy_cache.ram_run_sim [OF assms this] roomy_cache.enabled [OF assms(1), of m]
  show ?thesis by (auto simp: ram_inv_def)
qed

lemma map_patched_same: "map (patched f base d) [base..<base + length d] = d"
  by (rule nth_equalityI) (simp_all add: patched_def)

text \<open>A page is written through the file, reclaimed, and read back as a sector.\<close>

theorem ramdisk_keeps_data_witness:
  "\<exists>m. ram_run grab 8192 (\<lambda>_. None)
     [FileWrite 1 0 (replicate 512 7), Clean 1 True, BioRead 8 1 (replicate 512 7)] m"
proof -
  define d where "d = (replicate 512 7 :: u8 list)"
  have d: "length d = 512" by (simp add: d_def)
  define p where "p = put_bytes 0 (d) new_page"
  define q where "q = unlocked (snd (ramdisk_writepage (p\<lparr>pg_dirty := False, pg_locked := True\<rparr>) True))"
  have grabbed: "grab (\<lambda>_. None) 1 = Some new_page" by (simp add: grab_def)
  have wrote: "ram_step grab 8192 (\<lambda>_. None) (FileWrite 1 0 (d)) (Map.empty(1 \<mapsto> p))"
    using file_write [where G = grab and m = Map.empty and i = 1 and off = 0 and d = d and cap = 8192
        and r = 0 and r' = 0, OF _ grabbed]
    by (simp add: ramdisk_aops_def aops_run p_def put_bytes_def d)
  have clean: "ram_step grab 8192 (Map.empty(1 \<mapsto> p)) (Clean 1 True) (Map.empty(1 \<mapsto> q))"
    using clean_page [of "Map.empty(1 \<mapsto> p)" 1 p True "fst (ramdisk_writepage (p\<lparr>pg_dirty := False, pg_locked := True\<rparr>) True)"
        "snd (ramdisk_writepage (p\<lparr>pg_dirty := False, pg_locked := True\<rparr>) True)" grab 8192]
    by (simp add: ramdisk_aops_def q_def p_def put_bytes_def)
  note keeps = ramdisk_keeps_data [OF ample_disk.roomy_cache_axioms]
  have run: "ram_run grab 8192 (\<lambda>_. None) ([FileWrite 1 0 (d), Clean 1 True] @ es) m"
    if "ram_run grab 8192 (Map.empty(1 \<mapsto> q)) es m" for es m
    unfolding append.simps by (rule event [OF wrote event [OF clean that]])
  have "\<forall>j n. j + n \<le> 8192 \<longrightarrow> (\<exists>b m'. ram_step grab 8192 (Map.empty(1 \<mapsto> q)) (BioRead j n b) m')"
    using keeps [OF run [OF no_event]] by blast
  from this [rule_format, of 8 1] obtain b m where
    read: "ram_step grab 8192 (Map.empty(1 \<mapsto> q)) (BioRead 8 1 b) m" by auto
  have whole: "ram_run grab 8192 (\<lambda>_. None) ([FileWrite 1 0 (d), Clean 1 True] @ [BioRead 8 1 b]) m"
    by (rule run, rule event [OF read no_event])
  from keeps [OF this] have "b = map (patched (\<lambda>_. 0) 4096 d) [4096..<4096 + length d]" by (simp add: d)
  then have "b = d" by (simp only: map_patched_same)
  with whole show ?thesis unfolding d_def [symmetric] append.simps by blast
qed

end
