(* ===== verification/S3cfb.thy ===== *)
theory S3cfb
  imports Kernel
begin

text \<open>
  The frame buffer platform driver \<open>src/ex_source/s3c2410fb_ym.c\<close>: the video memory, the palette that the
  interrupt handler writes, and \<open>s3c2410fb_probe\<close> with its chain of \<open>goto\<close>s.

  The file uses register addresses and field macros of a header that is not in the repository (record
  \<open>lcd_regs\<close>) and three functions it does not define (record \<open>fb_ext\<close>): they are parameters. \<open>fb_ext_ok\<close>
  states of the functions that \<open>s3c2410fb_unmap_video_memory\<close> frees what \<open>s3c2410fb_map_video_memory\<close>
  allocated and that the other two neither acquire nor release anything.
\<close>

section \<open>State\<close>

record lcd_regs =
  r_lcdintpnd :: ptr
  r_lcdsrcpnd :: ptr
  r_frsync :: u32
  r_tftpal :: "nat \<Rightarrow> ptr"
  r_palette_clear :: u32
  g_vbpd :: "u32 \<Rightarrow> u32"
  g_vfpd :: "u32 \<Rightarrow> u32"
  g_vspw :: "u32 \<Rightarrow> u32"
  g_hbpd :: "u32 \<Rightarrow> u32"
  g_hfpd :: "u32 \<Rightarrow> u32"
  g_hspw :: "u32 \<Rightarrow> u32"

record range =
  rg_defval :: u32
  rg_max :: u32

record mach_info =
  mi_width :: u32
  mi_height :: u32
  mi_xres :: range
  mi_yres :: range
  mi_bpp :: range
  mi_lcdcon2 :: u32
  mi_lcdcon3 :: u32
  mi_lcdcon4 :: u32

record bitfield =
  bf_offset :: nat
  bf_length :: nat

record fb_var =
  v_height :: u32
  v_width :: u32
  v_xres :: u32
  v_xres_virtual :: u32
  v_yres :: u32
  v_yres_virtual :: u32
  v_bpp :: u32
  v_upper_margin :: u32
  v_lower_margin :: u32
  v_vsync_len :: u32
  v_left_margin :: u32
  v_right_margin :: u32
  v_hsync_len :: u32
  v_red :: bitfield
  v_green :: bitfield
  v_blue :: bitfield
  v_transp :: bitfield

record fb_state = kstate +
  fb_info :: ptr
  fb_id :: string
  fb_var :: "fb_var option"
  fb_smem_len :: u32
  fb_smem_start :: u32
  fb_screen_base :: ptr
  fb_screen_dma :: u32
  fb_map_size :: u32
  fb_map_cpu :: ptr
  fb_map_dma :: u32
  fb_clk :: ptr
  fb_palette_buffer :: "u32 list"
  fb_palette_ready :: bool

definition fb_initial :: fb_state where
  "fb_initial = \<lparr>ktrace = [], kmem = (\<lambda>_. 0), kfault = None, fb_info = NULL, fb_id = '''', fb_var = None,
     fb_smem_len = 0, fb_smem_start = 0, fb_screen_base = NULL, fb_screen_dma = 0, fb_map_size = 0,
     fb_map_cpu = NULL, fb_map_dma = 0, fb_clk = NULL, fb_palette_buffer = [], fb_palette_ready = False\<rparr>"

section \<open>Video memory\<close>

definition PAGE_ALIGN :: "u32 \<Rightarrow> u32" where
  "PAGE_ALIGN n = (n + 0xfff) AND NOT 0xfff"

definition s3c2410fb_map_video_memory :: "kenv \<Rightarrow> (fb_state, c_int) state" where
  "s3c2410fb_map_video_memory E = do {
     s \<leftarrow> State_Monad.get;
     upd (\<lambda>s. s\<lparr>fb_map_size := PAGE_ALIGN (fb_smem_len s + 4096)\<rparr>);
     (cpu, dma) \<leftarrow> dma_alloc_writecombine E (unat (PAGE_ALIGN (fb_smem_len s + 4096)));
     upd (\<lambda>s. s\<lparr>fb_map_cpu := cpu, fb_map_dma := dma, fb_map_size := fb_smem_len s\<rparr>);
     (if cpu \<noteq> NULL
      then do {
        upd (\<lambda>s. s\<lparr>fb_screen_dma := dma, fb_screen_base := cpu, fb_smem_start := dma\<rparr>);
        State_Monad.return (Inr 0) }
      else State_Monad.return (Inl ENOMEM)) }"

section \<open>The palette\<close>

text \<open>
  The body of the loop for entry \<open>i\<close>: \<open>rd i\<close> is what the controller answers when the entry is read back,
  which need not be what was written while it refreshes.
\<close>

definition write_entry :: "lcd_regs \<Rightarrow> (nat \<Rightarrow> u16) \<Rightarrow> nat \<Rightarrow> (fb_state, unit) state" where
  "write_entry K rd i = do {
     s \<leftarrow> State_Monad.get;
     (let ent = fb_palette_buffer s ! i in
      if ent = r_palette_clear K then State_Monad.return ()
      else do {
        store (r_tftpal K i) ent;
        (if ucast (rd i) = ent
         then upd (\<lambda>s. s\<lparr>fb_palette_buffer := (fb_palette_buffer s)[i := r_palette_clear K]\<rparr>)
         else upd (\<lambda>s. s\<lparr>fb_palette_ready := True\<rparr>)) }) }"

definition s3c2410fb_write_palette :: "lcd_regs \<Rightarrow> (nat \<Rightarrow> u16) \<Rightarrow> (fb_state, unit) state" where
  "s3c2410fb_write_palette K rd = do {
     upd (\<lambda>s. s\<lparr>fb_palette_ready := False\<rparr>);
     for_each (write_entry K rd) [0..<256] }"

definition s3c2410fb_irq :: "lcd_regs \<Rightarrow> (nat \<Rightarrow> u16) \<Rightarrow> (fb_state, unit) state" where
  "s3c2410fb_irq K rd = do {
     lcdirq \<leftarrow> load (r_lcdintpnd K);
     (if lcdirq AND r_frsync K \<noteq> 0
      then do {
        s \<leftarrow> State_Monad.get;
        (if fb_palette_ready s then s3c2410fb_write_palette K rd else State_Monad.return ());
        store (r_lcdintpnd K) (r_frsync K);
        store (r_lcdsrcpnd K) (r_frsync K) }
      else State_Monad.return ()) }"

section \<open>Probe\<close>

record fb_ext =
  x_init_registers :: "(fb_state, unit) state"
  x_check_var :: "(fb_state, unit) state"
  x_unmap_video_memory :: "(fb_state, unit) state"

definition probe_var :: "lcd_regs \<Rightarrow> mach_info \<Rightarrow> fb_var" where
  "probe_var K mi =
     \<lparr>v_height = mi_height mi, v_width = mi_width mi,
      v_xres = rg_defval (mi_xres mi), v_xres_virtual = rg_defval (mi_xres mi),
      v_yres = rg_defval (mi_yres mi), v_yres_virtual = rg_defval (mi_yres mi),
      v_bpp = rg_defval (mi_bpp mi),
      v_upper_margin = g_vbpd K (mi_lcdcon2 mi) + 1, v_lower_margin = g_vfpd K (mi_lcdcon2 mi) + 1,
      v_vsync_len = g_vspw K (mi_lcdcon2 mi) + 1,
      v_left_margin = g_hbpd K (mi_lcdcon3 mi) + 1, v_right_margin = g_hfpd K (mi_lcdcon3 mi) + 1,
      v_hsync_len = g_hspw K (mi_lcdcon4 mi) + 1,
      v_red = \<lparr>bf_offset = 11, bf_length = 5\<rparr>, v_green = \<lparr>bf_offset = 5, bf_length = 6\<rparr>,
      v_blue = \<lparr>bf_offset = 0, bf_length = 5\<rparr>, v_transp = \<lparr>bf_offset = 0, bf_length = 0\<rparr>\<rparr>"

text \<open>
  The labels, each going on with the next. A result is \<open>Inl e\<close> for \<open>-e\<close>, or \<open>Inr r\<close> for the number \<open>r\<close>,
  which is 0 or the negative answer of \<open>register_framebuffer\<close>. \<open>info\<close> stands for its frame buffer.
\<close>

type_synonym probe_answer = "errno + int"

definition dealloc_fb :: "probe_answer \<Rightarrow> (fb_state, probe_answer) state" where
  "dealloc_fb ret = do {
     s \<leftarrow> State_Monad.get;
     call (KFb (FramebufferRelease (fb_info s)));
     State_Monad.return ret }"

definition release_mem :: "probe_answer \<Rightarrow> (fb_state, probe_answer) state" where
  "release_mem ret = do { call (KFb ReleaseMemRegion); dealloc_fb ret }"

definition release_irq :: "nat \<Rightarrow> probe_answer \<Rightarrow> (fb_state, probe_answer) state" where
  "release_irq irq ret = do {
     s \<leftarrow> State_Monad.get;
     call (KIrq (FreeIrq (IRQ_NUM irq) (fb_info s)));
     release_mem ret }"

definition release_clock :: "nat \<Rightarrow> probe_answer \<Rightarrow> (fb_state, probe_answer) state" where
  "release_clock irq ret = do {
     s \<leftarrow> State_Monad.get;
     call (KClk (ClkDisable (fb_clk s)));
     call (KClk (ClkPut (fb_clk s)));
     release_irq irq ret }"

definition free_video_memory :: "fb_ext \<Rightarrow> nat \<Rightarrow> probe_answer \<Rightarrow> (fb_state, probe_answer) state" where
  "free_video_memory X irq ret = do { x_unmap_video_memory X; release_clock irq ret }"

text \<open>From the call that maps the video memory on.\<close>

definition probe_memory :: "kenv \<Rightarrow> fb_ext \<Rightarrow> nat \<Rightarrow> (fb_state, probe_answer) state" where
  "probe_memory E X irq = do {
     r \<leftarrow> s3c2410fb_map_video_memory E;
     (if r \<noteq> Inr 0 then release_clock irq (Inl ENOMEM)
      else do {
        x_init_registers X;
        x_check_var X;
        s \<leftarrow> State_Monad.get;
        ret \<leftarrow> register_framebuffer E (fb_info s);
        (if ret < 0 then free_video_memory X irq (Inr ret)
         else do {
           call (KFb DeviceCreateFile);
           State_Monad.return (Inr 0) }) }) }"

text \<open>From the request of the register region on.\<close>

definition probe_resources :: "kenv \<Rightarrow> fb_ext \<Rightarrow> nat \<Rightarrow> (fb_state, probe_answer) state" where
  "probe_resources E X irq = do {
     got \<leftarrow> ask (e_request_mem_region E) (KFb (RequestMemRegion (e_request_mem_region E)));
     (if \<not> got then dealloc_fb (Inl EBUSY)
      else do {
        s \<leftarrow> State_Monad.get;
        r \<leftarrow> request_irq E (IRQ_NUM irq) (fb_info s);
        (if r \<noteq> 0 then release_mem (Inl EBUSY)
         else do {
           c \<leftarrow> clk_get E ''lcd'';
           upd (\<lambda>s. s\<lparr>fb_clk := c\<rparr>);
           (if c = NULL \<or> e_IS_ERR E c then release_irq irq (Inl ENOENT)
            else do {
              call (KClk (ClkEnable c));
              probe_memory E X irq }) }) }) }"

text \<open>\<open>pdata\<close> is the platform data, \<open>irq\<close> the answer of \<open>platform_get_irq\<close>.\<close>

definition s3c2410fb_probe ::
  "kenv \<Rightarrow> lcd_regs \<Rightarrow> fb_ext \<Rightarrow> mach_info option \<Rightarrow> int \<Rightarrow> (fb_state, probe_answer) state" where
  "s3c2410fb_probe E K X pdata irq =
     (case pdata of
        None \<Rightarrow> State_Monad.return (Inl EINVAL)
      | Some mi \<Rightarrow>
          (if irq < 0 then State_Monad.return (Inl ENOENT)
           else do {
             f \<leftarrow> framebuffer_alloc E;
             (if f = NULL then State_Monad.return (Inl ENOMEM)
              else do {
                upd (\<lambda>s. s\<lparr>fb_info := f, fb_id := ''s3c2410fb'', fb_var := Some (probe_var K mi),
                  fb_smem_len := rg_max (mi_xres mi) * rg_max (mi_yres mi) * rg_max (mi_bpp mi) div 8,
                  fb_palette_buffer := replicate 256 (r_palette_clear K)\<rparr>);
                probe_resources E X (nat irq) }) }))"

definition s3c2410fb_init :: "kenv \<Rightarrow> (fb_state, int) state" where
  "s3c2410fb_init E = ask (e_platform_driver_register E)
     (KPlat (DriverRegister ''s3c2410-lcd'' (e_platform_driver_register E)))"

definition s3c2410fb_cleanup :: "(fb_state, unit) state" where
  "s3c2410fb_cleanup = call (KPlat (DriverUnregister ''s3c2410-lcd''))"

section \<open>The palette is written or kept\<close>

abbreviation after :: "(fb_state, 'a) state \<Rightarrow> fb_state \<Rightarrow> fb_state" where
  "after m s \<equiv> snd (run_state m s)"

definition entry_after :: "lcd_regs \<Rightarrow> (nat \<Rightarrow> u16) \<Rightarrow> u32 list \<Rightarrow> nat \<Rightarrow> u32" where
  "entry_after K rd b i = (if ucast (rd i) = b ! i then r_palette_clear K else b ! i)"

definition palette_pages :: "lcd_regs \<Rightarrow> bool" where
  "palette_pages K \<longleftrightarrow> (\<forall>i < 256. r_tftpal K i \<noteq> NULL) \<and> inj_on (r_tftpal K) {..<256}"

text \<open>The first \<open>n\<close> entries, from a state with palette \<open>b\<close> and no entry written.\<close>

definition palette_upto :: "lcd_regs \<Rightarrow> (nat \<Rightarrow> u16) \<Rightarrow> u32 list \<Rightarrow> nat \<Rightarrow> fb_state \<Rightarrow> bool" where
  "palette_upto K rd b n s \<longleftrightarrow> kfault s = None \<and> length (fb_palette_buffer s) = 256 \<and>
     (\<forall>i < 256. fb_palette_buffer s ! i = (if i < n then entry_after K rd b i else b ! i)) \<and>
     (fb_palette_ready s \<longleftrightarrow> (\<exists>i < n. entry_after K rd b i \<noteq> r_palette_clear K)) \<and>
     (\<forall>i < n. b ! i \<noteq> r_palette_clear K \<longrightarrow> kmem s (r_tftpal K i) = b ! i)"

lemma write_entry_upto:
  assumes "palette_upto K rd b n s" and "n < 256" and "palette_pages K"
  shows "palette_upto K rd b (Suc n) (after (write_entry K rd n) s)"
proof -
  have entry: "fb_palette_buffer s ! n = b ! n" "r_tftpal K n \<noteq> NULL"
    using assms by (simp_all add: palette_upto_def palette_pages_def)
  have other: "r_tftpal K i \<noteq> r_tftpal K n" if "i < n" for i
    using assms(2,3) that by (auto simp: palette_pages_def inj_on_def)
  show ?thesis
  proof (cases "b ! n = r_palette_clear K")
    case True
    with assms(1) entry show ?thesis
      by (auto simp: palette_upto_def write_entry_def Let_def entry_after_def less_Suc_eq)
  next
    case False
    with assms(1,2) entry other show ?thesis
      by (auto simp: palette_upto_def write_entry_def Let_def entry_after_def less_Suc_eq nth_list_update)
  qed
qed

lemma write_entries_upto:
  assumes "palette_upto K rd b 0 s" and "n \<le> 256" and "palette_pages K"
  shows "palette_upto K rd b n (after (for_each (write_entry K rd) [0..<n]) s)"
  using assms(2)
proof (induction n)
  case (Suc n)
  then have "palette_upto K rd b (Suc n) (after (write_entry K rd n)
      (after (for_each (write_entry K rd) [0..<n]) s))"
    by (intro write_entry_upto) (use assms(3) in auto)
  then show ?case by (simp add: for_each_append split_beta)
qed (use assms(1) in simp)

text \<open>
  C34: \<open>s3c2410fb_write_palette\<close> writes every entry that is waiting, and forgets it only if the
  controller answers the value when it is read back. No entry is lost: one that was not taken is still in
  the buffer, and \<open>palette_ready\<close> says exactly whether there is such an entry, so that the next frame
  interrupt tries again.
\<close>

theorem write_palette_keeps:
  assumes "kfault s = None" and "length (fb_palette_buffer s) = 256" and "palette_pages K"
  shows "let b = fb_palette_buffer s; s' = after (s3c2410fb_write_palette K rd) s; b' = fb_palette_buffer s' in
    kfault s' = None \<and> length b' = 256 \<and>
    (\<forall>i < 256. b' ! i = (if ucast (rd i) = b ! i then r_palette_clear K else b ! i)) \<and>
    (fb_palette_ready s' \<longleftrightarrow> (\<exists>i < 256. b' ! i \<noteq> r_palette_clear K)) \<and>
    (\<forall>i < 256. b ! i \<noteq> r_palette_clear K \<longrightarrow> kmem s' (r_tftpal K i) = b ! i)"
proof -
  let ?s = "s\<lparr>fb_palette_ready := False\<rparr>"
  have "palette_upto K rd (fb_palette_buffer s) 0 ?s"
    using assms(1,2) by (simp add: palette_upto_def)
  note upto = write_entries_upto [OF this order_refl assms(3)]
  define s' where "s' = after (s3c2410fb_write_palette K rd) s"
  have u: "palette_upto K rd (fb_palette_buffer s) 256 s'"
    using upto assms(1) by (simp add: s'_def s3c2410fb_write_palette_def)
  then have "fb_palette_ready s' \<longleftrightarrow> (\<exists>i < 256. fb_palette_buffer s' ! i \<noteq> r_palette_clear K)"
    by (auto simp: palette_upto_def)
  with u show ?thesis
    unfolding Let_def s'_def [symmetric] by (simp add: palette_upto_def entry_after_def)
qed

definition sample_regs :: lcd_regs where
  "sample_regs = \<lparr>r_lcdintpnd = 0xf4d00054, r_lcdsrcpnd = 0xf4d00058, r_frsync = 2,
     r_tftpal = (\<lambda>i. of_nat (0xf4d00400 + 4 * i)), r_palette_clear = 0x80000000,
     g_vbpd = (\<lambda>w. drop_bit 24 w), g_vfpd = (\<lambda>w. drop_bit 6 w AND 0xff), g_vspw = (\<lambda>w. w AND 0x3f),
     g_hbpd = (\<lambda>w. drop_bit 19 w AND 0x7f), g_hfpd = (\<lambda>w. w AND 0xff), g_hspw = (\<lambda>w. w AND 0xff)\<rparr>"

lemma sample_pages: "palette_pages sample_regs"
proof -
  have u: "unat (r_tftpal sample_regs i) = 0xf4d00400 + 4 * i" if "i < 256" for i
    using that by (simp add: sample_regs_def unat_of_nat del: of_nat_add of_nat_mult)
  have "inj_on (r_tftpal sample_regs) {..<256}"
  proof (rule inj_onI)
    fix i j :: nat
    assume "i \<in> {..<256}" and "j \<in> {..<256}" and eq: "r_tftpal sample_regs i = r_tftpal sample_regs j"
    have "0xf4d00400 + 4 * i = unat (r_tftpal sample_regs i)" using u \<open>i \<in> {..<256}\<close> by simp
    also have "\<dots> = unat (r_tftpal sample_regs j)" by (simp only: eq)
    also have "\<dots> = 0xf4d00400 + 4 * j" using u \<open>j \<in> {..<256}\<close> by simp
    finally show "i = j" by simp
  qed
  moreover have "r_tftpal sample_regs i \<noteq> 0" if "i < 256" for i
  proof
    assume "r_tftpal sample_regs i = 0"
    with u [OF that] show False by simp
  qed
  ultimately show ?thesis by (simp add: palette_pages_def)
qed

theorem write_palette_keeps_witness:
  "fb_palette_ready (after (s3c2410fb_write_palette sample_regs (\<lambda>i. 0))
     (fb_initial\<lparr>fb_palette_buffer := replicate 256 0x1f\<rparr>))"
  using write_palette_keeps [of "fb_initial\<lparr>fb_palette_buffer := replicate 256 0x1f\<rparr>" sample_regs "\<lambda>i. 0"]
    sample_pages
  by (auto simp: Let_def fb_initial_def sample_regs_def intro!: exI [of _ 0])

section \<open>The unwinding of a failed probe\<close>

definition quiet :: "(fb_state, unit) state \<Rightarrow> bool" where
  "quiet m \<longleftrightarrow> (\<forall>s. kfault s = None \<longrightarrow> kfault (after m s) = None \<and> fb_info (after m s) = fb_info s \<and>
     fb_clk (after m s) = fb_clk s \<and> fb_map_cpu (after m s) = fb_map_cpu s \<and>
     (\<forall>M. holds (ktrace s) M \<longrightarrow> holds (ktrace (after m s)) M))"

definition fb_ext_ok :: "fb_ext \<Rightarrow> bool" where
  "fb_ext_ok X \<longleftrightarrow> quiet (x_init_registers X) \<and> quiet (x_check_var X) \<and>
     (\<forall>s. kfault s = None \<longrightarrow> (let s' = after (x_unmap_video_memory X) s in
        kfault s' = None \<and> fb_info s' = fb_info s \<and> fb_clk s' = fb_clk s \<and>
        (\<forall>M. holds (ktrace s) (add_mset (RDma (fb_map_cpu s)) M) \<longrightarrow> holds (ktrace s') M)))"

text \<open>What is held at each label.\<close>

definition held_at :: "nat \<Rightarrow> nat \<Rightarrow> fb_state \<Rightarrow> resource multiset" where
  "held_at n irq s = mset (take n [RFb (fb_info s), RRegion, RIrq (IRQ_NUM irq) (fb_info s),
     RClk (fb_clk s), RClkOn (fb_clk s), RDma (fb_map_cpu s), RFbReg (fb_info s)])"

lemma dealloc_balanced:
  assumes "kfault s = None" and "holds (ktrace s) (held_at 1 irq s)"
  shows "fst (run_state (dealloc_fb r) s) = r \<and> no_leak (ktrace (after (dealloc_fb r) s))"
  using assms by (auto simp: dealloc_fb_def held_at_def simp flip: holds_no_leak intro: holds_release)

lemma mem_balanced:
  assumes "kfault s = None" and "holds (ktrace s) (held_at 2 irq s)"
  shows "fst (run_state (release_mem r) s) = r \<and> no_leak (ktrace (after (release_mem r) s))"
proof -
  let ?s = "s\<lparr>ktrace := ktrace s @ [KFb ReleaseMemRegion]\<rparr>"
  have "holds (ktrace ?s) (held_at 1 irq ?s)"
    using assms(2) by (auto simp: held_at_def add_mset_commute intro: holds_release)
  from dealloc_balanced [OF _ this, of r] assms(1) show ?thesis by (simp add: release_mem_def)
qed

lemma irq_balanced:
  assumes "kfault s = None" and "holds (ktrace s) (held_at 3 irq s)"
  shows "fst (run_state (release_irq irq r) s) = r \<and> no_leak (ktrace (after (release_irq irq r) s))"
proof -
  let ?s = "s\<lparr>ktrace := ktrace s @ [KIrq (FreeIrq (IRQ_NUM irq) (fb_info s))]\<rparr>"
  have "holds (ktrace s) (add_mset (RIrq (IRQ_NUM irq) (fb_info s)) (held_at 2 irq s))"
    using assms(2) by (simp add: held_at_def numeral_eq_Suc add_mset_commute)
  then have "holds (ktrace s @ [KIrq (FreeIrq (IRQ_NUM irq) (fb_info s))]) (held_at 2 irq s)"
    by (rule holds_release) simp_all
  then have "holds (ktrace ?s) (held_at 2 irq ?s)" by (simp add: held_at_def)
  from mem_balanced [OF _ this, of r] assms(1) show ?thesis by (simp add: release_irq_def)
qed

lemma clock_balanced:
  assumes "kfault s = None" and "holds (ktrace s) (held_at 5 irq s)"
  shows "fst (run_state (release_clock irq r) s) = r \<and> no_leak (ktrace (after (release_clock irq r) s))"
proof -
  let ?s = "s\<lparr>ktrace := ktrace s @ [KClk (ClkDisable (fb_clk s)), KClk (ClkPut (fb_clk s))]\<rparr>"
  have "holds (ktrace s) (add_mset (RClkOn (fb_clk s)) (add_mset (RClk (fb_clk s)) (held_at 3 irq s)))"
    using assms(2) by (simp add: held_at_def numeral_eq_Suc add_mset_commute)
  then have "holds (ktrace s @ [KClk (ClkDisable (fb_clk s))]) (add_mset (RClk (fb_clk s)) (held_at 3 irq s))"
    by (rule holds_release) simp_all
  then have "holds ((ktrace s @ [KClk (ClkDisable (fb_clk s))]) @ [KClk (ClkPut (fb_clk s))]) (held_at 3 irq s)"
    by (rule holds_release) simp_all
  then have "holds (ktrace ?s) (held_at 3 irq ?s)" by (simp add: held_at_def)
  from irq_balanced [OF _ this, of r] assms(1) show ?thesis by (simp add: release_clock_def)
qed

lemma video_balanced:
  assumes "kfault s = None" and "holds (ktrace s) (held_at 6 irq s)" and "fb_ext_ok X"
  shows "fst (run_state (free_video_memory X irq r) s) = r \<and>
    no_leak (ktrace (after (free_video_memory X irq r) s))"
proof -
  let ?s = "after (x_unmap_video_memory X) s"
  have "holds (ktrace s) (add_mset (RDma (fb_map_cpu s)) (held_at 5 irq s))"
    using assms(2) by (simp add: held_at_def numeral_eq_Suc add_mset_commute)
  with assms(1,3) have "holds (ktrace ?s) (held_at 5 irq ?s)" "kfault ?s = None"
    by (simp_all add: fb_ext_ok_def Let_def held_at_def)
  from clock_balanced [OF this(2,1), of r] show ?thesis
    by (simp add: free_video_memory_def split_beta)
qed

text \<open>A probe ends with success and all seven resources, or with an error and none.\<close>

definition probe_ends :: "nat \<Rightarrow> probe_answer \<times> fb_state \<Rightarrow> bool" where
  "probe_ends irq r \<longleftrightarrow> (if fst r = Inr 0
     then kfault (snd r) = None \<and> holds (ktrace (snd r)) (held_at 7 irq (snd r))
     else no_leak (ktrace (snd r)))"

lemma memory_ends:
  assumes "kfault s = None" and "holds (ktrace s) (held_at 5 irq s)" and "fb_ext_ok X"
  shows "probe_ends irq (run_state (probe_memory E X irq) s)"
proof -
  let ?n = "unat (PAGE_ALIGN (fb_smem_len s + 4096))"
  obtain cpu dma where alloc: "e_dma_alloc E ?n = (cpu, dma)" by (cases "e_dma_alloc E ?n")
  let ?c = "KMem (DmaAlloc ?n cpu dma)"
  let ?s1 = "s\<lparr>ktrace := ktrace s @ [?c], fb_map_cpu := cpu, fb_map_dma := dma, fb_map_size := fb_smem_len s\<rparr>"
  show ?thesis
  proof (cases "cpu = NULL")
    case True
    have "run_state (probe_memory E X irq) s = run_state (release_clock irq (Inl ENOMEM)) ?s1"
      using assms(1) True alloc
      by (simp add: probe_memory_def s3c2410fb_map_video_memory_def kernel_calls)
    moreover have "holds (ktrace ?s1) (held_at 5 irq ?s1)"
      using assms(2) True by (simp add: held_at_def)
    ultimately show ?thesis
      using clock_balanced [of ?s1 irq "Inl ENOMEM"] assms(1) by (simp add: probe_ends_def)
  next
    case False
    let ?s2 = "?s1\<lparr>fb_screen_dma := dma, fb_screen_base := cpu, fb_smem_start := dma\<rparr>"
    let ?s3 = "after (x_check_var X) (after (x_init_registers X) ?s2)"
    let ?r = "e_register_framebuffer E (fb_info ?s3)"
    let ?s4 = "?s3\<lparr>ktrace := ktrace ?s3 @ [KFb (RegisterFramebuffer (fb_info ?s3) ?r)]\<rparr>"
    have "holds (ktrace s @ [?c]) (add_mset (RDma cpu) (held_at 5 irq s))"
      using assms(2) by (rule holds_acquire) (simp_all add: False)
    then have "holds (ktrace ?s2) (held_at 6 irq ?s2)"
      by (simp add: held_at_def numeral_eq_Suc add_mset_commute)
    with assms(1,3) have s3: "kfault ?s3 = None" "holds (ktrace ?s3) (held_at 6 irq ?s3)"
      by (simp_all add: fb_ext_ok_def quiet_def held_at_def)
    have run: "run_state (probe_memory E X irq) s =
      (if ?r < 0 then run_state (free_video_memory X irq (Inr ?r)) ?s4
       else (Inr 0, ?s4\<lparr>ktrace := ktrace ?s4 @ [KFb DeviceCreateFile]\<rparr>))"
      using assms(1) False alloc s3(1)
      by (simp add: probe_memory_def s3c2410fb_map_video_memory_def kernel_calls split_beta)
    show ?thesis
    proof (cases "?r < 0")
      case True
      with s3(2) have "holds (ktrace ?s4) (held_at 6 irq ?s4)" by (simp add: held_at_def)
      from video_balanced [OF _ this assms(3), of "Inr ?r"] s3(1) True show ?thesis
        unfolding run by (simp add: probe_ends_def)
    next
      case nonneg: False
      have "holds (ktrace ?s3 @ [KFb (RegisterFramebuffer (fb_info ?s3) ?r)])
          (add_mset (RFbReg (fb_info ?s3)) (held_at 6 irq ?s3))"
        using s3(2) by (rule holds_acquire) (use nonneg in simp_all)
      then have "holds (ktrace ?s4) (held_at 7 irq ?s4)"
        by (simp add: held_at_def numeral_eq_Suc add_mset_commute)
      with nonneg s3(1) show ?thesis
        unfolding run using holds_neutral [of "KFb DeviceCreateFile" "ktrace ?s4"]
        by (simp add: probe_ends_def held_at_def)
    qed
  qed
qed

lemma resources_end:
  assumes "kfault s = None" and "holds (ktrace s) (held_at 1 irq s)" and "fb_ext_ok X"
  shows "probe_ends irq (run_state (probe_resources E X irq) s)"
proof -
  let ?f = "fb_info s" and ?c = "e_clk_get E ''lcd''"
  let ?got = "e_request_mem_region E" and ?r = "e_request_irq E (IRQ_NUM irq)"
  let ?cc = "KClk (ClkGet ''lcd'' (if e_IS_ERR E ?c then NULL else ?c))"
  define s1 where "s1 = s\<lparr>ktrace := ktrace s @ [KFb (RequestMemRegion ?got)]\<rparr>"
  define s2 where "s2 = s1\<lparr>ktrace := ktrace s1 @ [KIrq (RequestIrq (IRQ_NUM irq) ?f ?r)]\<rparr>"
  define s3 where "s3 = s2\<lparr>ktrace := ktrace s2 @ [?cc], fb_clk := ?c\<rparr>"
  define s4 where "s4 = s3\<lparr>ktrace := ktrace s3 @ [KClk (ClkEnable ?c)]\<rparr>"
  note defs = s1_def s2_def s3_def s4_def
  note clean = assms(1)
  have none: "kfault s1 = None" "kfault s2 = None" "kfault s3 = None" "kfault s4 = None"
    using clean by (simp_all add: defs)
  have run: "run_state (probe_resources E X irq) s =
    (if \<not> ?got then run_state (dealloc_fb (Inl EBUSY)) s1
     else if ?r \<noteq> 0 then run_state (release_mem (Inl EBUSY)) s2
     else if ?c = NULL \<or> e_IS_ERR E ?c then run_state (release_irq irq (Inl ENOENT)) s3
     else run_state (probe_memory E X irq) s4)"
    using clean by (simp add: probe_resources_def kernel_calls defs)
  have h1: "holds (ktrace s1) (held_at (if ?got then 2 else 1) irq s1)"
    using holds_acquire [OF assms(2), of "KFb (RequestMemRegion ?got)"]
    by (cases ?got) (simp_all add: s1_def held_at_def numeral_eq_Suc add_mset_commute)
  have h2: "holds (ktrace s2) (held_at (if ?r = 0 then 3 else 2) irq s2)" if "?got"
    using holds_acquire [OF h1, of "KIrq (RequestIrq (IRQ_NUM irq) ?f ?r)"] that
    by (cases "?r = 0") (simp_all add: s1_def s2_def held_at_def numeral_eq_Suc add_mset_commute)
  have h3: "holds (ktrace s3) (held_at (if ?c = NULL \<or> e_IS_ERR E ?c then 3 else 4) irq s3)"
    if "?got" "?r = 0"
    using holds_acquire [OF h2 [OF that(1)], of ?cc] that
    by (cases "?c = NULL"; cases "e_IS_ERR E ?c")
      (simp_all add: defs held_at_def numeral_eq_Suc add_mset_commute)
  have h4: "holds (ktrace s4) (held_at 5 irq s4)"
    if "?got" "?r = 0" "\<not> (?c = NULL \<or> e_IS_ERR E ?c)"
    using holds_acquire [OF h3 [OF that(1,2)], of "KClk (ClkEnable ?c)"] that
    by (simp add: defs held_at_def numeral_eq_Suc add_mset_commute)
  consider "\<not> ?got" | "?got" "?r \<noteq> 0" | "?got" "?r = 0" "?c = NULL \<or> e_IS_ERR E ?c"
    | "?got" "?r = 0" "\<not> (?c = NULL \<or> e_IS_ERR E ?c)"
    by blast
  then show ?thesis
  proof cases
    case 1
    with dealloc_balanced [OF none(1), of irq "Inl EBUSY"] h1 show ?thesis
      unfolding run by (simp add: probe_ends_def)
  next
    case 2
    with mem_balanced [OF none(2), of irq "Inl EBUSY"] h2 show ?thesis
      unfolding run by (simp add: probe_ends_def)
  next
    case 3
    with irq_balanced [OF none(3), of irq "Inl ENOENT"] h3 show ?thesis
      unfolding run by (simp only: probe_ends_def if_True if_False simp_thms) simp
  next
    case 4
    then have "run_state (probe_resources E X irq) s = run_state (probe_memory E X irq) s4"
      unfolding run by (simp only: if_True if_False simp_thms)
    with memory_ends [OF none(4) h4 [OF 4] assms(3)] show ?thesis by (simp only:)
  qed
qed


definition sample_ext :: fb_ext where
  "sample_ext = \<lparr>x_init_registers = State_Monad.return (), x_check_var = State_Monad.return (),
     x_unmap_video_memory = do { s \<leftarrow> State_Monad.get;
       call (KMem (DmaFree (unat (fb_map_size s)) (fb_map_cpu s) (fb_map_dma s))) }\<rparr>"

definition sample_mach :: mach_info where
  "sample_mach = \<lparr>mi_width = 240, mi_height = 320, mi_xres = \<lparr>rg_defval = 240, rg_max = 240\<rparr>,
     mi_yres = \<lparr>rg_defval = 320, rg_max = 320\<rparr>, mi_bpp = \<lparr>rg_defval = 16, rg_max = 16\<rparr>,
     mi_lcdcon2 = 0x014fc041, mi_lcdcon3 = 0x0098ef0a, mi_lcdcon4 = 0x0d05\<rparr>"

lemma sample_ext_ok: "fb_ext_ok sample_ext"
  by (auto simp: fb_ext_ok_def quiet_def sample_ext_def Let_def intro: holds_release)


end
