(* ===== verification/Spec2Isabelle.thy ===== *)
theory Spec2Isabelle
  imports Led_Bus Gpio Programs Touchscreen_Ym Registers Usb_Bus Ex_Blockdev Ramdisk_File S3cfb
begin

text \<open>
  Device drivers for Linux 2.6.22 on an ARM S3C2440 board: the modules under \<open>src/Drivers\<close> and the driver
  examples under \<open>src/ex_source\<close>. Each source file is a kernel module of its own; the modules share no
  code and meet only in the kernel interface, which is therefore the base of the development.

  The parts of the program and the theories that model them:

  \<^item> \<open>Prelude\<close> and \<open>Kernel\<close>: machine types, error numbers, the state monad, the kernel calls a driver makes
    (\<open>kcall\<close>), the answers of the kernel as parameters (\<open>kenv\<close>), registers (\<open>load\<close>, \<open>store\<close>, \<open>modify\<close>), faults,
    and the accounting of resources over call traces (\<open>account\<close>, \<open>holds\<close>, \<open>no_leak\<close>). \<open>module_contract\<close> is
    the contract of loading and unloading a module. \<open>Triples\<close>: total-correctness triples, by which the long
    loading functions of \<open>Lcd\<close> are proved phase by phase.
  \<^item> \<open>Led\<close>: \<open>1.firstdrv/first_drv.c\<close>, its earlier copy \<open>firstdrv.c\<close>, and the platform pair
    \<open>9.led_dev_drv/led_dev.c\<close>, \<open>led_drv.c\<close>. Contract \<open>led_device\<close>. \<open>Led_Bus\<close>: the life of the pair on the platform
    bus, \<open>bus_step\<close>: loading and unloading in any order, binding by name, open files.
  \<^item> \<open>Buttons_Irq\<close>: \<open>2.seconddrv\<close> to \<open>5.fifthdrv\<close>; interleavings of the interrupt handler with readers are the
    relation \<open>reader_step\<close>; contract \<open>key_source\<close>; and the device opened by two processes. \<open>Timers\<close> and \<open>Buttons_Timer\<close>: \<open>7.buttons_all/buttons.c\<close> and
    \<open>8.buttons_input/buttons_inp.c\<close>, debouncing with a kernel timer and the lock of \<open>open\<close>.
  \<^item> \<open>Touchscreen\<close>: \<open>11.ts/s3c_ts.c\<close>: the cycle of pen interrupt, conversion, filter and timer as a step
    relation, and a whole stroke, from the pen coming down over any number of measurements to its
    being lifted. \<open>Touchscreen_Ym\<close>: the earlier \<open>ex_source/s3c_ts_ym.c\<close>, proved equal to it.
  \<^item> \<open>Mousekb\<close>: \<open>12.usb/usb_mousekb.c\<close>: mouse reports become key events.
  \<^item> \<open>Lcd\<close>: \<open>10.lcd/lcd.c\<close> and \<open>lcd_4.3.c\<close>: controller set-up, palette, unloading. \<open>S3cfb\<close>:
    \<open>ex_source/s3c2410fb_ym.c\<close>: palette in the frame interrupt and the probe with its labels.
  \<^item> \<open>Gpio\<close>: LEDs, keys and panel on the GPIO registers they share: every function as a list of masked updates, the
    bits of each driver, and their separation, proved in the locale \<open>separated\<close>.
  \<^item> \<open>Flash\<close>: \<open>14.nand/s3c_nand.c\<close>, \<open>15.nor/s3c_nor.c\<close>, \<open>ex_source/ex_mtd.c\<close> and \<open>ex_nand.c\<close>: load paths, command
    and address cycles, partition tables, ECC layouts.
  \<^item> \<open>Blockdev\<close>: \<open>13.ramblock/ramblock.c\<close> and the contracts \<open>block_store\<close> and \<open>byte_device\<close>.
    \<open>Ex_Blockdev\<close>: \<open>ex_source/ex_blockdev.c\<close>. \<open>Ramdisk\<close> and \<open>Ramdisk_Init\<close>: \<open>ex_source/ramdisk_ym.c\<close>;
    \<open>Ramdisk_File\<close>: its tables, and that it keeps its data when the kernel takes pages back, \<open>ram_step\<close>.
  \<^item> \<open>Usb_Skel\<close>: \<open>ex_source/usb-skeleton_ym.c\<close>: reference count, URBs in flight, disconnect. \<open>Usb_Bus\<close>: the tables
    of both USB drivers, the core's rule for identifiers (contract \<open>usb_matching\<close>), and the life of the mouse
    driver on the bus, \<open>mouse_step\<close>: mice come and go, URBs complete.
  \<^item> \<open>Windows\<close>: which register windows a call trace has mapped (\<open>track\<close>) and whether all writes lie in one
    (\<open>writes_inside\<close>), with the contract \<open>register_user\<close> of a driver's operations. \<open>Registers\<close>: the contract for
    seven drivers, and the C layouts of their register structures against the offsets used.
  \<^item> \<open>Fileops\<close>: the tables of file operations of the character drivers and the system calls that reach them through a
    device node (contract \<open>device_node\<close>). \<open>Programs\<close>: the six test programs \<open>firstdrvtest.c\<close>, \<open>led_test.c\<close>,
    \<open>third_drv_test.c\<close>, \<open>buttons_test.c\<close>, \<open>forthdrvtest.c\<close>, \<open>fifthdrvtest.c\<close> on top of the drivers; the endless loops
    are sequences of turns and kernel events, compared with a mailbox of one key.

  How the model corresponds to the code. A driver's static variables are the fields of a record that
  extends \<open>kstate\<close>; a function of the driver is a definition of the same name, a program of the state
  monad whose steps are the accesses and calls of the code in their order. A result \<open>-E\<close> is \<open>Inl E\<close>. A loop
  is recursion on its data; a label is a definition that goes on with the next label. Code that can be
  interleaved is cut at the places where it can (a lock is dropped, a process sleeps, an interrupt comes)
  and an \<open>inductive\<close> relation interleaves the pieces. Numbers have the width they have in C where it
  matters: register values, sector numbers, byte offsets. Names that clash with HOL or that two drivers
  share carry a prefix.

  What the lemmas show, by group: functional behaviour on every branch (results, registers written,
  reports sent); invariants of reachable states by rule induction; the balance of resources on every
  path of load, unload, probe, disconnect and error; refinement of a contract by each provider (disks as
  functions from sectors to bytes, key sources, LEDs, modules), with the client facts proved once in
  the contract; termination and progress of the loops; and, where the code does not do what it
  means to, the run that shows it. The composition of program, file operations and driver is proved from the
  contracts of the drivers (\<open>led_node\<close>, \<open>key_node\<close>, \<open>polled_node\<close>), and that of the two LED modules by rule
  induction over \<open>bus_step\<close>.

  Bounds and fuel. \<open>do_ramblock_request\<close> and \<open>rd_copy\<close> are total, by the length of the queue and by the
  bytes left. \<open>xxx_request\<close> and \<open>xxx_full_request\<close> depend on the kernel's completion of requests and take
  fuel: the number of segments, respectively of requests, is proved to suffice. \<open>xxx_transfer\<close> computes
  offsets in 32 bits and wraps; its theorems ask for devices below 4 GiB, whose size has 32 bits in the code
  too. The page cache of the RAM disk has \<open>2 ^ 32\<close> pages, so its theorems speak of bytes below \<open>2 ^ 44\<close>.

  Not modelled, and why. The kernel: its answers are parameters, and where a theorem needs more than that
  an answer is of a kind, it is a named hypothesis or a contract (\<open>request_end\<close>, \<open>full_end\<close>, \<open>page_cache\<close>,
  \<open>byte_device\<close>, \<open>fb_ext_ok\<close>, the parameter \<open>core\<close> of \<open>skel_step\<close>). Locks are not state: a critical section is
  one step. Messages, module parameters and macros of licence and author have no effect on the
  state. Timing (delays, clock rates) is left out except for the timers of the drivers.
  The platform bus is the environment of \<open>bus_step\<close>, the USB core that of \<open>mouse_step\<close>, the memory management
  that of \<open>ram_step\<close>, the system calls are the parameter \<open>sys\<close> of the programs; they are used as documented.
  Of \<open>ex_source/ex_nand.c\<close> only the ECC layout, the probe of the S3C2410 and the driver table have contents;
  its other functions are declared without bodies and its structures are used by
  none. In \<open>ex_mtd.c\<close> the cases of \<open>board_hwcontorl\<close> are empty, \<open>xxx_read_ready_bit\<close> is not in the repository (a
  parameter), and the table \<open>xxx_partitions\<close> is cut off. Remove, suspend and resume of \<open>s3c2410fb_ym.c\<close> have no
  body. The tables of block operations of \<open>ramblock.c\<close> and \<open>ex_blockdev.c\<close> only name functions that are
  modelled. The \<open>.bak\<close> files are earlier copies.
\<close>

section \<open>Three disks\<close>

text \<open>
  C8: the three disks of the repository are the same to their users: the RAM disk in one buffer
  (\<open>ramblock.c\<close>), the RAM disk in the page cache (\<open>ramdisk_ym.c\<close>) and the driver example over any device of
  bytes that starts with zeros (\<open>ex_blockdev.c\<close>), each with 2048 sectors, answer every read after every
  sequence of writes inside the disk with the same bytes.
\<close>

theorem disks_agree:
  assumes "e_alloc_disk E 0 \<noteq> NULL" and "e_kzalloc E RAMBLOCK_SIZE \<noteq> NULL"
    and "roomy_cache G 2048"
    and "byte_device R W content" and "disk_of content 2048 dev"
    and "\<forall>i < RAMBLOCK_SIZE. content (dev_store dev) ! i = 0"
    and "\<forall>w \<in> set ws. in_capacity 2048 w" and "i + n \<le> 2048"
  shows "rb_rd i n (fold (\<lambda>(i, d). rb_wr i d) ws (snd (run_state (ramblock_init E) rb_initial))) =
      rd_read G 2048 i n (fold (\<lambda>(i, d). rd_write G 2048 i d) ws (\<lambda>_. None)) \<and>
    xfer_rd R W i n (fold (\<lambda>(i, d). xfer_wr R W i d) ws dev) =
      rd_read G 2048 i n (fold (\<lambda>(i, d). rd_write G 2048 i d) ws (\<lambda>_. None))"
proof -
  have sized: "sized_device R W content" by (rule sized_device.intro [OF assms(4)])
  have zero: "xfer_rd R W j 1 dev = replicate 512 0" if "j < 2048" for j
    using byte_device.xfer_rd_slice [OF assms(4,5), of j 1] that assms(5,6)
    by (auto simp: disk_of_def RAMBLOCK_SIZE_def nth_slice intro!: nth_equalityI)
  have buffer: "rb_rd j 1 (snd (run_state (ramblock_init E) rb_initial)) = replicate 512 0"
    if "j < 2048" for j
    using that ramblock_loaded [OF assms(1,2)] by (simp add: rb_rd_slice RAMBLOCK_SIZE_def)
  note empty = roomy_cache.empty_sector [OF assms(3)]
  have cache: "block_store (rd_read G 2048) (rd_write G 2048) cache_ok 2048"
    by (rule roomy_cache.is_disk [OF assms(3)])
  have "rb_rd i n (fold (\<lambda>(i, d). rb_wr i d) ws (snd (run_state (ramblock_init E) rb_initial))) =
      rd_read G 2048 i n (fold (\<lambda>(i, d). rd_write G 2048 i d) ws (\<lambda>_. None))"
  proof (rule disks_alike [OF ramblock.block_store_axioms _ cache])
    show "rb_ok (snd (run_state (ramblock_init E) rb_initial))" by (rule ramblock_loaded [OF assms(1,2)])
  qed (use assms(7,8) in \<open>simp_all add: buffer empty del: One_nat_def\<close>)
  moreover have "xfer_rd R W i n (fold (\<lambda>(i, d). xfer_wr R W i d) ws dev) =
      rd_read G 2048 i n (fold (\<lambda>(i, d). rd_write G 2048 i d) ws (\<lambda>_. None))"
  proof (rule disks_alike [OF sized_device.is_disk [OF sized] _ cache])
    show "disk_of content 2048 dev" by (rule assms(5))
  qed (use assms(7,8) in \<open>simp_all add: zero empty del: One_nat_def\<close>)
  ultimately show ?thesis ..
qed

theorem disks_agree_witness:
  "rb_rd 3 1 (fold (\<lambda>(i, d). rb_wr i d) [(3, replicate 512 9)]
      (snd (run_state (ramblock_init sample_env) rb_initial))) =
    rd_read grab 2048 3 1 (fold (\<lambda>(i, d). rd_write grab 2048 i d) [(3, replicate 512 9)] (\<lambda>_. None))"
proof (rule conjunct1 [OF disks_agree])
  show "roomy_cache grab 2048" by unfold_locales simp_all
  show "byte_device ram_read ram_write (\<lambda>d. d)" by (rule ram.byte_device_axioms)
  show "disk_of (\<lambda>d. d) 2048 \<lparr>dev_size = 0x100000, dev_store = replicate RAMBLOCK_SIZE (0 :: u8)\<rparr>"
    by (simp add: disk_of_def sound_dev_def RAMBLOCK_SIZE_def)
qed (simp_all add: sample_env_def in_capacity_def)

end
